(* ===== verification/Afloat_Prelude.thy ===== *)
theory Afloat_Prelude
  imports Complex_Main "HOL-Library.Signed_Division"
begin

text \<open>
  Shared vocabulary of the development: results (\<open>Inl\<close> an error, \<open>Inr\<close> a value) and their
  sequencing, Go's 64-bit \<open>int\<close> with its wrap-around, reachable states of a transition
  system, and the interfaces several components implement: an invariant of a transition
  system, a system that comes to rest, and an encoder with its decoder.
\<close>

named_theorems go_defs \<open>definitions of the Go library operations the components call\<close>
named_theorems int64_simps \<open>rules that remove the wrap-around of an int64 in range\<close>

section \<open>Results\<close>

text \<open>A Go function returning \<open>(value, error)\<close> is a value of a sum type.\<close>

definition res_bind :: "'e + 'a \<Rightarrow> ('a \<Rightarrow> 'e + 'b) \<Rightarrow> 'e + 'b" where
  "res_bind r f = (case r of Inl e \<Rightarrow> Inl e | Inr x \<Rightarrow> f x)"

lemma res_bind_simps [simp]:
  "res_bind (Inl e) f = Inl e"
  "res_bind (Inr x) f = f x"
  by (simp_all add: res_bind_def)

lemma res_bind_eq_Inr:
  "res_bind r f = Inr y \<longleftrightarrow> (\<exists>x. r = Inr x \<and> f x = Inr y)"
  by (cases r) simp_all

lemma res_bind_eq_Inl:
  "res_bind r f = Inl e \<longleftrightarrow> r = Inl e \<or> (\<exists>x. r = Inr x \<and> f x = Inl e)"
  by (cases r) auto

text \<open>How a context ends.\<close>

datatype ctx_err = Canceled | DeadlineExceeded

section \<open>Go's int: 64 bits, two's complement\<close>

definition wrap64 :: "int \<Rightarrow> int" where
  "wrap64 x = (x + 2 ^ 63) mod 2 ^ 64 - 2 ^ 63"

definition is_int64 :: "int \<Rightarrow> bool" where
  "is_int64 x \<longleftrightarrow> - (2 ^ 63) \<le> x \<and> x < 2 ^ 63"

lemma wrap64_id [int64_simps]: "is_int64 x \<Longrightarrow> wrap64 x = x"
  by (simp add: wrap64_def is_int64_def)

lemma wrap64_is_int64 [simp]: "is_int64 (wrap64 x)"
proof -
  have "0 \<le> (x + 2 ^ 63) mod 2 ^ 64" and "(x + 2 ^ 63) mod 2 ^ 64 < (2 ^ 64 :: int)"
    by simp_all
  then show ?thesis by (simp add: wrap64_def is_int64_def)
qed

lemma is_int64_between:
  "is_int64 a \<Longrightarrow> is_int64 b \<Longrightarrow> a \<le> x \<Longrightarrow> x \<le> b \<Longrightarrow> is_int64 x"
  by (simp add: is_int64_def)

lemma is_int64_diff_nonneg [int64_simps]:
  "is_int64 a \<Longrightarrow> 0 \<le> b \<Longrightarrow> b \<le> a \<Longrightarrow> is_int64 (a - b)"
  by (simp add: is_int64_def)

section \<open>Transition systems\<close>

inductive reach :: "('s \<Rightarrow> bool) \<Rightarrow> ('s \<Rightarrow> 's \<Rightarrow> bool) \<Rightarrow> 's \<Rightarrow> bool" for init step where
  reach_init: "init s \<Longrightarrow> reach init step s"
| reach_step: "reach init step s \<Longrightarrow> step s t \<Longrightarrow> reach init step t"

text \<open>
  The contract of an invariant: it holds initially and every step keeps it. What the
  client gets is that it holds in every reachable state.
\<close>

locale invariant_system =
  fixes init :: "'s \<Rightarrow> bool" and step :: "'s \<Rightarrow> 's \<Rightarrow> bool" and inv :: "'s \<Rightarrow> bool"
  assumes inv_init: "init s \<Longrightarrow> inv s"
    and inv_step: "inv s \<Longrightarrow> step s t \<Longrightarrow> inv t"
begin

lemma reach_inv: "reach init step s \<Longrightarrow> inv s"
  by (induction rule: reach.induct) (auto intro: inv_init inv_step)

lemma rtranclp_inv: "step\<^sup>*\<^sup>* s t \<Longrightarrow> inv s \<Longrightarrow> inv t"
  by (induction rule: rtranclp_induct) (auto intro: inv_step)

end

text \<open>
  The contract of a system that comes to rest: under the invariant, every step goes down in a
  well-founded order. What the client gets is that no run is infinite and that every run can
  be completed to one that ends.
\<close>

locale terminating_system =
  fixes step :: "'s \<Rightarrow> 's \<Rightarrow> bool" and inv :: "'s \<Rightarrow> bool" and below :: "('s \<times> 's) set"
  assumes wf_below: "wf below"
    and keeps: "inv s \<Longrightarrow> step s t \<Longrightarrow> inv t"
    and descends: "inv s \<Longrightarrow> step s t \<Longrightarrow> (t, s) \<in> below"
begin

lemma run_inv: "step\<^sup>*\<^sup>* s t \<Longrightarrow> inv s \<Longrightarrow> inv t"
  by (induction rule: rtranclp_induct) (auto intro: keeps)

lemma no_infinite_run:
  assumes "inv (f 0)"
  shows "\<exists>i. \<not> step (f i) (f (Suc i))"
proof (rule ccontr)
  assume "\<not> ?thesis"
  then have st: "step (f i) (f (Suc i))" for i by blast
  have "inv (f i)" for i by (induction i) (use assms st keeps in blast)+
  then have "(f (Suc i), f i) \<in> below" for i using descends st by blast
  then show False using wf_below unfolding wf_iff_no_infinite_down_chain by blast
qed

lemma comes_to_rest: "inv s \<Longrightarrow> \<exists>t. step\<^sup>*\<^sup>* s t \<and> (\<forall>u. \<not> step t u)"
proof (induction s rule: wf_induct_rule [OF wf_below])
  case (1 s)
  show ?case
  proof (cases "\<exists>u. step s u")
    case True
    then obtain u where u: "step s u" by blast
    with 1 keeps descends obtain t where "step\<^sup>*\<^sup>* u t" "\<forall>v. \<not> step t v" by blast
    with u show ?thesis by (meson converse_rtranclp_into_rtranclp)
  qed blast
qed

end

section \<open>Encoders and decoders\<close>

text \<open>
  An encoder with a partial decoder: decoding what was encoded gives it back, on the
  values that satisfy \<open>ok\<close>. Hence the encoder is injective there.
\<close>

locale codec =
  fixes enc :: "'a \<Rightarrow> 'b" and dec :: "'b \<Rightarrow> 'a option" and ok :: "'a \<Rightarrow> bool"
  assumes dec_enc: "ok a \<Longrightarrow> dec (enc a) = Some a"
begin

lemma enc_inject: "ok a \<Longrightarrow> ok b \<Longrightarrow> enc a = enc b \<longleftrightarrow> a = b"
  using dec_enc by (metis option.inject)

end

end
