(* ===== verification/Go_Strings.thy ===== *)
theory Go_Strings
  imports Afloat_Prelude "HOL-Library.Char_ord"
begin

text \<open>
  Go strings are byte sequences, here \<open>string\<close> (a \<open>char\<close> is a byte). This theory models what
  the backend uses of the packages \<open>strings\<close>, \<open>unicode/utf8\<close> and \<open>net\<close>: UTF-8 decoding
  with Go's treatment of invalid bytes, trimming, cutting, splitting, lower-casing and
  \<open>SplitHostPort\<close>. The case table of the Unicode database beyond ASCII is the parameter
  \<open>ulow\<close> of \<open>ToLower\<close>.
\<close>

section \<open>UTF-8\<close>

definition byte_in :: "nat \<Rightarrow> nat \<Rightarrow> char \<Rightarrow> bool" where
  "byte_in lo hi c \<longleftrightarrow> lo \<le> of_char c \<and> of_char c \<le> (hi :: nat)"

definition low6 :: "char \<Rightarrow> nat" where
  "low6 c = of_char c mod 64"

text \<open>
  \<open>utf8_tail a s\<close>: the rune that starts with byte \<open>a\<close> when the bytes \<open>s\<close> follow, with the
  number of bytes of \<open>s\<close> it takes; \<open>None\<close> where Go's decoder answers RuneError of width one.
\<close>

definition utf8_tail :: "char \<Rightarrow> string \<Rightarrow> (nat \<times> nat) option" where
  "utf8_tail a s =
    (let x = of_char a :: nat in
     if x < 0x80 then Some (x, 0)
     else if x < 0xC2 then None
     else if x < 0xE0 then
       (case s of b # _ \<Rightarrow>
          if byte_in 0x80 0xBF b then Some ((x - 0xC0) * 64 + low6 b, 1) else None
        | _ \<Rightarrow> None)
     else if x < 0xF0 then
       (case s of b # c # _ \<Rightarrow>
          if byte_in (if x = 0xE0 then 0xA0 else 0x80) (if x = 0xED then 0x9F else 0xBF) b
             \<and> byte_in 0x80 0xBF c
          then Some ((x - 0xE0) * 4096 + low6 b * 64 + low6 c, 2) else None
        | _ \<Rightarrow> None)
     else if x < 0xF5 then
       (case s of b # c # d # _ \<Rightarrow>
          if byte_in (if x = 0xF0 then 0x90 else 0x80) (if x = 0xF4 then 0x8F else 0xBF) b
             \<and> byte_in 0x80 0xBF c \<and> byte_in 0x80 0xBF d
          then Some ((x - 0xF0) * 262144 + low6 b * 4096 + low6 c * 64 + low6 d, 3) else None
        | _ \<Rightarrow> None)
     else None)"

text \<open>A string as Go ranges over it: each rune (\<open>None\<close> for an invalid byte) with its bytes.\<close>

fun utf8_segs :: "string \<Rightarrow> (nat option \<times> string) list" where
  "utf8_segs [] = []"
| "utf8_segs (a # s) =
     (case utf8_tail a s of
        None \<Rightarrow> (None, [a]) # utf8_segs s
      | Some (r, n) \<Rightarrow> (Some r, a # take n s) # utf8_segs (drop n s))"

definition RuneError :: nat where "RuneError = 0xFFFD"

definition go_runes :: "string \<Rightarrow> nat list" where
  "go_runes s = map (\<lambda>(r, _). case r of Some x \<Rightarrow> x | None \<Rightarrow> RuneError) (utf8_segs s)"

definition ValidString :: "string \<Rightarrow> bool" where
  "ValidString s = list_all (\<lambda>(r, _). r \<noteq> None) (utf8_segs s)"

definition RuneCountInString :: "string \<Rightarrow> nat" where
  "RuneCountInString s = length (utf8_segs s)"

definition valid_rune :: "nat \<Rightarrow> bool" where
  "valid_rune r \<longleftrightarrow> r < 0xD800 \<or> 0xE000 \<le> r \<and> r < 0x110000"

definition byte_of :: "nat \<Rightarrow> char" where
  "byte_of n = char_of n"

definition encode_valid :: "nat \<Rightarrow> string" where
  "encode_valid r =
    (if r < 0x80 then [byte_of r]
     else if r < 0x800 then [byte_of (0xC0 + r div 64), byte_of (0x80 + r mod 64)]
     else if r < 0x10000 then
       [byte_of (0xE0 + r div 4096), byte_of (0x80 + r div 64 mod 64), byte_of (0x80 + r mod 64)]
     else
       [byte_of (0xF0 + r div 262144), byte_of (0x80 + r div 4096 mod 64),
        byte_of (0x80 + r div 64 mod 64), byte_of (0x80 + r mod 64)])"

definition encode_rune :: "nat \<Rightarrow> string" where
  "encode_rune r = encode_valid (if valid_rune r then r else RuneError)"

text \<open>The conversion \<open>string(runes)\<close>.\<close>

definition string_of_runes :: "nat list \<Rightarrow> string" where
  "string_of_runes rs = concat (map encode_rune rs)"

section \<open>Lower case, trimming, searching\<close>

definition ascii_lower :: "nat \<Rightarrow> nat" where
  "ascii_lower r = (if 0x41 \<le> r \<and> r \<le> 0x5A then r + 32 else r)"

definition lower_byte :: "char \<Rightarrow> char" where
  "lower_byte c = byte_of (ascii_lower (of_char c))"

definition is_ascii :: "string \<Rightarrow> bool" where
  "is_ascii s = list_all (\<lambda>c. of_char c < (0x80 :: nat)) s"

definition rune_lower :: "(nat \<Rightarrow> nat) \<Rightarrow> nat \<Rightarrow> nat" where
  "rune_lower ulow r = (if r < 0x80 then ascii_lower r else ulow r)"

definition ToLower :: "(nat \<Rightarrow> nat) \<Rightarrow> string \<Rightarrow> string" where
  "ToLower ulow s =
    (if is_ascii s then map lower_byte s
     else string_of_runes (map (rune_lower ulow) (go_runes s)))"

text \<open>\<open>unicode.IsSpace\<close>: the Latin-1 spaces and the White_Space property.\<close>

definition IsSpace :: "nat \<Rightarrow> bool" where
  "IsSpace r \<longleftrightarrow> 9 \<le> r \<and> r \<le> 13 \<or> r = 0x20 \<or> r = 0x85 \<or> r = 0xA0 \<or> r = 0x1680 \<or>
     0x2000 \<le> r \<and> r \<le> 0x200A \<or> r = 0x2028 \<or> r = 0x2029 \<or> r = 0x202F \<or> r = 0x205F \<or> r = 0x3000"

definition space_seg :: "nat option \<times> string \<Rightarrow> bool" where
  "space_seg g = (case fst g of Some r \<Rightarrow> IsSpace r | None \<Rightarrow> False)"

definition trim_both :: "('a \<Rightarrow> bool) \<Rightarrow> 'a list \<Rightarrow> 'a list" where
  "trim_both P xs = rev (dropWhile P (rev (dropWhile P xs)))"

definition TrimSpace :: "string \<Rightarrow> string" where
  "TrimSpace s = concat (map snd (trim_both space_seg (utf8_segs s)))"

text \<open>\<open>strings.Trim\<close> with a cutset of ASCII bytes.\<close>

definition Trim_ascii :: "string \<Rightarrow> string \<Rightarrow> string" where
  "Trim_ascii s cutset = trim_both (\<lambda>c. c \<in> set cutset) s"

definition replace_byte :: "char \<Rightarrow> char \<Rightarrow> string \<Rightarrow> string" where
  "replace_byte a b s = map (\<lambda>c. if c = a then b else c) s"

definition HasPrefix :: "string \<Rightarrow> string \<Rightarrow> bool" where
  "HasPrefix s p \<longleftrightarrow> take (length p) s = p"

definition HasSuffix :: "string \<Rightarrow> string \<Rightarrow> bool" where
  "HasSuffix s p \<longleftrightarrow> length p \<le> length s \<and> drop (length s - length p) s = p"

definition ContainsAny :: "string \<Rightarrow> string \<Rightarrow> bool" where
  "ContainsAny s chars = list_ex (\<lambda>c. c \<in> set chars) s"

fun Contains :: "string \<Rightarrow> string \<Rightarrow> bool" where
  "Contains [] p = (p = [])"
| "Contains (c # s) p = (HasPrefix (c # s) p \<or> Contains s p)"

text \<open>\<open>strings.Cut\<close> and \<open>strings.Split\<close> at a one-byte separator.\<close>

fun Cut :: "string \<Rightarrow> char \<Rightarrow> string \<times> string \<times> bool" where
  "Cut [] sep = ([], [], False)"
| "Cut (c # s) sep =
     (if c = sep then ([], s, True)
      else case Cut s sep of (before, after, found) \<Rightarrow> (c # before, after, found))"

fun Split :: "string \<Rightarrow> char \<Rightarrow> string list" where
  "Split [] sep = [[]]"
| "Split (c # s) sep =
     (if c = sep then [] # Split s sep
      else case Split s sep of [] \<Rightarrow> [[c]] | w # ws \<Rightarrow> (c # w) # ws)"

fun Join :: "string list \<Rightarrow> string \<Rightarrow> string" where
  "Join [] sep = []"
| "Join [x] sep = x"
| "Join (x # y # xs) sep = x @ sep @ Join (y # xs) sep"

section \<open>UTF-8 facts\<close>

lemma of_char_byte_of [simp]: "n < 256 \<Longrightarrow> of_char (byte_of n) = n"
  by (simp add: byte_of_def)

lemma byte_of_of_char [simp]: "byte_of (of_char c) = c"
  by (simp add: byte_of_def)

lemma of_char_lt_256: "of_char c < (256 :: nat)"
  by (cases c) simp

lemma char_of_eq: "n < 256 \<Longrightarrow> char_of n = c \<longleftrightarrow> n = (of_char c :: nat)"
  by (auto simp: of_char_of)

lemma split64: "m < 64 \<Longrightarrow> (a * 64 + m) div 64 = a \<and> (a * 64 + m) mod 64 = (m :: nat)"
  by simp

lemma cont_arith:
  assumes "0x80 \<le> n" "n \<le> 0xBF"
  shows "0x80 + n mod 64 = (n :: nat)"
proof -
  define k where "k = n - 0x80"
  have k: "k < 64" and n: "n = 2 * 64 + k" using assms by (simp_all add: k_def)
  have "n mod 64 = k" unfolding n using split64 [OF k, of 2] by (rule conjunct2)
  then show ?thesis using n by simp
qed

lemma byte_of_cont: "byte_in lo hi c \<Longrightarrow> 0x80 \<le> lo \<Longrightarrow> hi \<le> 0xBF \<Longrightarrow> byte_of (0x80 + low6 c) = c"
proof -
  assume "byte_in lo hi c" "0x80 \<le> lo" "hi \<le> 0xBF"
  then have "0x80 \<le> (of_char c :: nat)" "of_char c \<le> (0xBF :: nat)" by (simp_all add: byte_in_def)
  then have "0x80 + low6 c = of_char c" unfolding low6_def by (rule cont_arith)
  then show ?thesis by simp
qed

lemma low6_lt [simp]: "low6 c < 64"
  by (simp add: low6_def)

lemma low6_byte_of [simp]: "k < 64 \<Longrightarrow> low6 (byte_of (0x80 + k)) = k"
proof -
  assume "k < 64"
  then have "(0x80 + k) mod 64 = k" using split64 [of k 2] by simp
  with \<open>k < 64\<close> show ?thesis by (simp add: low6_def)
qed

lemma byte_in_byte_of [simp]: "k < 64 \<Longrightarrow> byte_in lo hi (byte_of (0x80 + k)) \<longleftrightarrow> lo \<le> 0x80 + k \<and> 0x80 + k \<le> hi"
  by (simp add: byte_in_def)

text \<open>The three multi-byte forms, digit by digit.\<close>

lemma utf8_tail_2:
  "2 \<le> q \<Longrightarrow> q < 32 \<Longrightarrow> m < 64 \<Longrightarrow>
   utf8_tail (byte_of (0xC0 + q)) (byte_of (0x80 + m) # s) = Some (q * 64 + m, 1)"
  by (simp add: utf8_tail_def Let_def)

lemma utf8_tail_3:
  "q < 16 \<Longrightarrow> k < 64 \<Longrightarrow> m < 64 \<Longrightarrow> (q = 0 \<Longrightarrow> 32 \<le> k) \<Longrightarrow> (q = 13 \<Longrightarrow> k \<le> 31) \<Longrightarrow>
   utf8_tail (byte_of (0xE0 + q)) (byte_of (0x80 + k) # byte_of (0x80 + m) # s)
     = Some (q * 4096 + k * 64 + m, 2)"
  by (simp add: utf8_tail_def Let_def)

lemma utf8_tail_4:
  "q < 5 \<Longrightarrow> k < 64 \<Longrightarrow> l < 64 \<Longrightarrow> m < 64 \<Longrightarrow> (q = 0 \<Longrightarrow> 16 \<le> k) \<Longrightarrow> (q = 4 \<Longrightarrow> k \<le> 15) \<Longrightarrow>
   utf8_tail (byte_of (0xF0 + q)) (byte_of (0x80 + k) # byte_of (0x80 + l) # byte_of (0x80 + m) # s)
     = Some (q * 262144 + k * 4096 + l * 64 + m, 3)"
  by (simp add: utf8_tail_def Let_def)

lemma digits_3:
  obtains q k m :: nat where "r = q * 4096 + k * 64 + m" "k < 64" "m < 64"
    "r div 4096 = q" "r div 64 mod 64 = k" "r mod 64 = m"
proof -
  define u m q k where "u = r div 64" and "m = r mod 64" and "q = u div 64" and "k = u mod 64"
  have "r = u * 64 + m" "u = q * 64 + k" by (simp_all add: u_def m_def q_def k_def)
  then have "r = q * 4096 + k * 64 + m" by simp
  moreover have "r div 4096 = q" unfolding q_def u_def by (simp flip: div_mult2_eq)
  moreover have "k < 64" "m < 64" by (simp_all add: k_def m_def)
  moreover have "r div 64 mod 64 = k" "r mod 64 = m" by (simp_all add: k_def m_def u_def)
  ultimately show thesis using that [of q k m] by blast
qed

lemma digits_4:
  obtains q k l m :: nat where "r = q * 262144 + k * 4096 + l * 64 + m" "k < 64" "l < 64" "m < 64"
    "r div 262144 = q" "r div 4096 mod 64 = k" "r div 64 mod 64 = l" "r mod 64 = m"
proof -
  obtain u l m where d: "r = u * 4096 + l * 64 + m" "l < 64" "m < 64" and u: "r div 4096 = u"
    and e: "r div 64 mod 64 = l" "r mod 64 = m"
    by (rule digits_3)
  define q k where "q = u div 64" and "k = u mod 64"
  have "u = q * 64 + k" by (simp add: q_def k_def)
  then have "r = q * 262144 + k * 4096 + l * 64 + m" using d(1) by simp
  moreover have "r div 262144 = q" unfolding q_def u [symmetric] by (simp flip: div_mult2_eq)
  moreover have "k < 64" "r div 4096 mod 64 = k" by (simp_all add: k_def u)
  ultimately show thesis using that [of q k l m] d(2,3) e by blast
qed

lemma digits_3_unique:
  assumes "r = q * 4096 + k * 64 + m" "k < 64" "m < (64 :: nat)"
  shows "r div 4096 = q" "r div 64 mod 64 = k" "r mod 64 = m"
proof -
  have "r = (q * 64 + k) * 64 + m" by (simp add: assms(1))
  then have "r div 64 = q * 64 + k" "r mod 64 = m" using split64 [OF assms(3)] by metis+
  then show "r mod 64 = m" "r div 64 mod 64 = k" "r div 4096 = q"
    using split64 [OF assms(2), of q] div_mult2_eq [of r 64 64] by simp_all
qed

lemma digits_4_unique:
  assumes "r = q * 262144 + k * 4096 + l * 64 + m" "k < 64" "l < 64" "m < (64 :: nat)"
  shows "r div 262144 = q" "r div 4096 mod 64 = k" "r div 64 mod 64 = l" "r mod 64 = m"
proof -
  have "r = (q * 64 + k) * 4096 + l * 64 + m" by (simp add: assms(1))
  note d = digits_3_unique [OF this assms(3,4)]
  show "r div 64 mod 64 = l" "r mod 64 = m" "r div 4096 mod 64 = k" "r div 262144 = q"
    using d split64 [OF assms(2), of q] div_mult2_eq [of r 4096 64] by simp_all
qed

lemma rune_3_valid:
  assumes "q < 16" "k < 64" "m < (64 :: nat)" "q = 0 \<Longrightarrow> 32 \<le> k" "q = 13 \<Longrightarrow> k \<le> 31"
    and "r = q * 4096 + k * 64 + m"
  shows "valid_rune r" "0x800 \<le> r" "r < 0x10000"
proof -
  consider "q = 0" | "1 \<le> q" "q \<le> 12" | "q = 13" | "14 \<le> q" by linarith
  then show "valid_rune r" using assms by cases (simp_all add: valid_rune_def)
  show "0x800 \<le> r" "r < 0x10000" using assms by (cases "q = 0"; simp)+
qed

text \<open>Decoding the encoding of a valid rune gives the rune, whatever follows.\<close>

lemma utf8_tail_encode:
  assumes "valid_rune r"
  shows "\<exists>a w. encode_valid r = a # w \<and> utf8_tail a (w @ s) = Some (r, length w)"
proof -
  consider "r < 0x80" | "0x80 \<le> r" "r < 0x800" | "0x800 \<le> r" "r < 0x10000" | "0x10000 \<le> r"
    by linarith
  then show ?thesis
  proof cases
    case 1
    then show ?thesis by (simp add: encode_valid_def utf8_tail_def)
  next
    case 2
    obtain q m where "r = q * 64 + m" "m < 64" "r div 64 = q" "r mod 64 = m"
      by (metis div_mult_mod_eq mod_less_divisor zero_less_numeral)
    then show ?thesis using 2 utf8_tail_2 [of q m s] by (simp add: encode_valid_def)
  next
    case 3
    obtain q k m where d: "r = q * 4096 + k * 64 + m" "k < 64" "m < 64"
      and e: "r div 4096 = q" "r div 64 mod 64 = k" "r mod 64 = m"
      by (rule digits_3)
    have "q < 16" "q = 0 \<Longrightarrow> 32 \<le> k" "q = 13 \<Longrightarrow> k \<le> 31"
      using d 3 assms by (auto simp: valid_rune_def)
    then have "utf8_tail (byte_of (0xE0 + q)) (byte_of (0x80 + k) # byte_of (0x80 + m) # s) = Some (r, 2)"
      using d by (subst utf8_tail_3) simp_all
    then show ?thesis using 3 by (simp add: encode_valid_def e)
  next
    case 4
    obtain q k l m where d: "r = q * 262144 + k * 4096 + l * 64 + m" "k < 64" "l < 64" "m < 64"
      and e: "r div 262144 = q" "r div 4096 mod 64 = k" "r div 64 mod 64 = l" "r mod 64 = m"
      by (rule digits_4)
    have "q < 5" "q = 0 \<Longrightarrow> 16 \<le> k" "q = 4 \<Longrightarrow> k \<le> 15"
      using d 4 assms by (auto simp: valid_rune_def)
    then have "utf8_tail (byte_of (0xF0 + q)) (byte_of (0x80 + k) # byte_of (0x80 + l) # byte_of (0x80 + m) # s) = Some (r, 3)"
      using d by (subst utf8_tail_4) simp_all
    then show ?thesis using 4 by (simp add: encode_valid_def e)
  qed
qed

text \<open>What the decoder accepts is the encoding of a valid rune.\<close>

lemma utf8_tail_Some:
  assumes "utf8_tail a s = Some (r, n)"
  shows "valid_rune r \<and> encode_valid r = a # take n s \<and> n \<le> length s"
proof -
  let ?x = "of_char a :: nat"
  consider "?x < 0x80" | "0xC2 \<le> ?x" "?x < 0xE0" | "0xE0 \<le> ?x" "?x < 0xF0" | "0xF0 \<le> ?x" "?x < 0xF5"
    using assms by (fastforce simp: utf8_tail_def Let_def split: if_splits)
  then show ?thesis
  proof cases
    case 1
    then have "r = ?x" "n = 0" using assms by (simp_all add: utf8_tail_def)
    with 1 show ?thesis by (simp add: encode_valid_def valid_rune_def)
  next
    case 2
    then obtain b s' where s: "s = b # s'" and b: "byte_in 0x80 0xBF b"
      and r: "r = (?x - 0xC0) * 64 + low6 b" and n: "n = 1"
      using assms by (auto simp: utf8_tail_def Let_def split: list.splits if_splits)
    have "r div 64 = ?x - 0xC0" "r mod 64 = low6 b" using split64 [OF low6_lt] by (simp_all add: r)
    moreover have "0x80 \<le> r" "r < 0x800" using 2 low6_lt [of b] unfolding r by linarith+
    ultimately show ?thesis using byte_of_cont [OF b] 2
      by (simp add: encode_valid_def valid_rune_def s n)
  next
    case 3
    then obtain b c s' where s: "s = b # c # s'"
      and b: "byte_in (if ?x = 0xE0 then 0xA0 else 0x80) (if ?x = 0xED then 0x9F else 0xBF) b"
      and c: "byte_in 0x80 0xBF c"
      and r: "r = (?x - 0xE0) * 4096 + low6 b * 64 + low6 c" and n: "n = 2"
      using assms by (auto simp: utf8_tail_def Let_def split: list.splits if_splits)
    have kb: "0x80 + low6 b = of_char b"
      unfolding low6_def using b by (intro cont_arith) (auto simp: byte_in_def split: if_splits)
    have "?x - 0xE0 < 16" "?x - 0xE0 = 0 \<Longrightarrow> 32 \<le> low6 b" "?x - 0xE0 = 13 \<Longrightarrow> low6 b \<le> 31"
      using 3 b kb by (auto simp: byte_in_def split: if_splits)
    note v = rune_3_valid [OF this(1) low6_lt low6_lt this(2,3) r]
    have "byte_of (0x80 + low6 b) = b" by (simp only: kb byte_of_of_char)
    then show ?thesis using v 3 digits_3_unique [OF r low6_lt low6_lt] byte_of_cont [OF c]
      by (simp add: encode_valid_def s n)
  next
    case 4
    then obtain b c d s' where s: "s = b # c # d # s'"
      and b: "byte_in (if ?x = 0xF0 then 0x90 else 0x80) (if ?x = 0xF4 then 0x8F else 0xBF) b"
      and c: "byte_in 0x80 0xBF c" and d: "byte_in 0x80 0xBF d"
      and r: "r = (?x - 0xF0) * 262144 + low6 b * 4096 + low6 c * 64 + low6 d" and n: "n = 3"
      using assms by (auto simp: utf8_tail_def Let_def split: list.splits if_splits)
    have kb: "0x80 + low6 b = of_char b"
      unfolding low6_def using b by (intro cont_arith) (auto simp: byte_in_def split: if_splits)
    have "?x - 0xF0 = 0 \<Longrightarrow> 16 \<le> low6 b" "?x - 0xF0 = 4 \<Longrightarrow> low6 b \<le> 15"
      using 4 b kb by (auto simp: byte_in_def split: if_splits)
    then have v: "0x10000 \<le> r" "r < 0x110000"
      using 4 low6_lt [of b] low6_lt [of c] low6_lt [of d] unfolding r by linarith+
    have "byte_of (0x80 + low6 b) = b" by (simp only: kb byte_of_of_char)
    then show ?thesis
      using v 4 digits_4_unique [OF r low6_lt low6_lt low6_lt] byte_of_cont [OF c] byte_of_cont [OF d]
      by (simp add: encode_valid_def valid_rune_def s n)
  qed
qed

section \<open>Strings as sequences of runes\<close>

lemma utf8_segs_concat [simp]: "concat (map snd (utf8_segs s)) = s"
proof (induction s rule: utf8_segs.induct)
  case 1
  then show ?case by simp
next
  case (2 a s)
  then show ?case by (cases "utf8_tail a s") (auto split: prod.splits)
qed

lemma utf8_segs_encode:
  assumes "valid_rune r"
  shows "utf8_segs (encode_valid r @ s) = (Some r, encode_valid r) # utf8_segs s"
proof -
  obtain a w where "encode_valid r = a # w" "utf8_tail a (w @ s) = Some (r, length w)"
    using utf8_tail_encode [OF assms] by blast
  then show ?thesis by simp
qed

lemma utf8_segs_Some:
  "(Some r, w) \<in> set (utf8_segs s) \<Longrightarrow> valid_rune r \<and> w = encode_valid r"
proof (induction s rule: utf8_segs.induct)
  case 1
  then show ?case by simp
next
  case (2 a s)
  then show ?case by (cases "utf8_tail a s") (auto dest: utf8_tail_Some)
qed

lemma utf8_segs_string_of_runes:
  "list_all valid_rune rs \<Longrightarrow>
   utf8_segs (string_of_runes rs) = map (\<lambda>r. (Some r, encode_valid r)) rs"
  by (induction rs) (simp_all add: string_of_runes_def encode_rune_def utf8_segs_encode)

lemma go_runes_string_of_runes [simp]:
  "list_all valid_rune rs \<Longrightarrow> go_runes (string_of_runes rs) = rs"
  by (simp add: go_runes_def utf8_segs_string_of_runes comp_def)

lemma ValidString_string_of_runes [simp]:
  "list_all valid_rune rs \<Longrightarrow> ValidString (string_of_runes rs)"
  by (simp add: ValidString_def utf8_segs_string_of_runes list_all_iff)

lemma RuneCountInString_eq: "RuneCountInString s = length (go_runes s)"
  by (simp add: RuneCountInString_def go_runes_def)

lemma ValidString_runes:
  assumes "ValidString s"
  shows "list_all valid_rune (go_runes s)" "string_of_runes (go_runes s) = s"
proof -
  have seg: "\<exists>r. g = (Some r, encode_valid r) \<and> valid_rune r" if "g \<in> set (utf8_segs s)" for g
    using assms that utf8_segs_Some [of _ _ s]
    by (cases g) (auto simp: ValidString_def list_all_iff)
  then show "list_all valid_rune (go_runes s)"
    by (fastforce simp: go_runes_def list_all_iff)
  have "string_of_runes (go_runes s) = concat (map snd (utf8_segs s))"
    unfolding string_of_runes_def go_runes_def map_map
    by (rule arg_cong [of _ _ concat], rule map_cong [OF refl]) (use seg in \<open>fastforce simp: encode_rune_def\<close>)
  then show "string_of_runes (go_runes s) = s" by simp
qed

lemma ValidString_append: "ValidString s \<Longrightarrow> ValidString (s @ t) = ValidString t"
proof -
  have "list_all valid_rune rs \<Longrightarrow> utf8_segs (string_of_runes rs @ t) = map (\<lambda>r. (Some r, encode_valid r)) rs @ utf8_segs t" for rs
    by (induction rs) (simp_all add: string_of_runes_def encode_rune_def utf8_segs_encode)
  then have u: "list_all valid_rune rs \<Longrightarrow> ValidString (string_of_runes rs @ t) = ValidString t" for rs
    by (simp add: ValidString_def list.pred_map comp_def list.pred_True)
  assume "ValidString s"
  from u [OF ValidString_runes(1) [OF this]] ValidString_runes(2) [OF this] show ?thesis by simp
qed

lemma ValidString_Nil [simp]: "ValidString []" by (simp add: ValidString_def)

lemma ValidString_concat: "(\<And>x. x \<in> set xs \<Longrightarrow> ValidString (f x)) \<Longrightarrow> ValidString (concat (map f xs))"
  by (induction xs) (simp_all add: ValidString_append)

lemma ValidString_Join: "(\<And>x. x \<in> set xs \<Longrightarrow> ValidString x) \<Longrightarrow> ValidString sep \<Longrightarrow> ValidString (Join xs sep)"
  by (induction xs sep rule: Join.induct) (simp_all add: ValidString_append)

lemma ValidString_encode_valid: "valid_rune r \<Longrightarrow> ValidString (encode_valid r)"
  using utf8_segs_encode [of r "[]"] by (simp add: ValidString_def)

definition utf8_decode :: "string \<Rightarrow> nat list option" where
  "utf8_decode s = (if ValidString s then Some (go_runes s) else None)"

interpretation utf8: codec string_of_runes utf8_decode "list_all valid_rune"
  by unfold_locales (simp add: utf8_decode_def)

lemma valid_rune_RuneError: "valid_rune RuneError"
  by (simp add: valid_rune_def RuneError_def)

lemma encode_rune_nonempty [simp]: "encode_rune r \<noteq> []"
  by (simp add: encode_rune_def encode_valid_def)

section \<open>Trimming\<close>

lemma trim_both_id:
  "(xs = [] \<or> \<not> P (hd xs) \<and> \<not> P (last xs)) \<Longrightarrow> trim_both P xs = xs"
  by (auto simp: trim_both_def hd_rev dropWhile_eq_self_iff [THEN iffD2])

lemma trim_both_ends:
  "trim_both P xs \<noteq> [] \<Longrightarrow> \<not> P (hd (trim_both P xs)) \<and> \<not> P (last (trim_both P xs))"
proof -
  let ?d = "dropWhile P xs" and ?e = "dropWhile P (rev (dropWhile P xs))"
  assume "trim_both P xs \<noteq> []"
  then have e: "?e \<noteq> []" by (simp add: trim_both_def)
  then have "\<not> P (hd ?e)" by (rule hd_dropWhile)
  moreover have "last ?e = hd ?d"
  proof -
    have "last ?e = last (rev ?d)"
      using e by (metis last_append takeWhile_dropWhile_id)
    then show ?thesis by (metis e dropWhile.simps(1) last_rev rev.simps(1))
  qed
  moreover have "\<not> P (hd ?d)"
    using e by (metis dropWhile.simps(1) hd_dropWhile rev.simps(1))
  ultimately show ?thesis by (simp add: trim_both_def hd_rev last_rev)
qed

lemma trim_both_idem [simp]: "trim_both P (trim_both P xs) = trim_both P xs"
  by (rule trim_both_id) (use trim_both_ends in blast)

lemma set_trim_both: "set (trim_both P xs) \<subseteq> set xs"
  unfolding trim_both_def by (metis set_dropWhileD set_rev subsetI)

lemma trim_both_all: "list_all P xs \<Longrightarrow> trim_both P xs = []"
  by (simp add: trim_both_def list_all_iff dropWhile_eq_Nil_conv [THEN iffD2])

section \<open>ASCII strings\<close>

lemma utf8_segs_ascii:
  "is_ascii s \<Longrightarrow> utf8_segs s = map (\<lambda>c. (Some (of_char c), [c])) s"
  by (induction s) (simp_all add: is_ascii_def utf8_tail_def)

lemma RuneCountInString_ascii: "is_ascii s \<Longrightarrow> RuneCountInString s = length s"
  by (simp add: RuneCountInString_def utf8_segs_ascii)

lemma ValidString_ascii: "is_ascii s \<Longrightarrow> ValidString s"
  by (simp add: ValidString_def utf8_segs_ascii list_all_iff)

lemma trim_both_map: "trim_both P (map f xs) = map f (trim_both (P \<circ> f) xs)"
  by (simp add: trim_both_def dropWhile_map rev_map)

lemma TrimSpace_ascii:
  assumes "is_ascii s"
  shows "TrimSpace s = trim_both (\<lambda>c. IsSpace (of_char c)) s"
proof -
  have "space_seg \<circ> (\<lambda>c. (Some (of_char c), [c])) = (\<lambda>c. IsSpace (of_char c))"
    by (simp add: space_seg_def fun_eq_iff)
  moreover have "concat (map (\<lambda>c. [c]) t) = t" for t :: string by (induction t) auto
  ultimately show ?thesis
    by (simp add: TrimSpace_def utf8_segs_ascii [OF assms] trim_both_map comp_def)
qed

lemma lower_byte_id: "of_char c < (65 :: nat) \<or> (90 :: nat) < of_char c \<Longrightarrow> lower_byte c = c"
  by (auto simp: lower_byte_def ascii_lower_def)

lemma of_char_lower_byte: "of_char (lower_byte c) = ascii_lower (of_char c)"
  using of_char_lt_256 [of c] by (auto simp: lower_byte_def ascii_lower_def)

lemma is_ascii_lower: "is_ascii s \<Longrightarrow> is_ascii (map lower_byte s)"
  by (auto simp: is_ascii_def list_all_iff of_char_lower_byte ascii_lower_def)

lemma ToLower_ascii: "is_ascii s \<Longrightarrow> ToLower ulow s = map lower_byte s"
  by (simp add: ToLower_def)

section \<open>Cutting and splitting\<close>

lemma Cut_join: "Cut s sep = (a, b, True) \<Longrightarrow> s = a @ sep # b \<and> sep \<notin> set a"
  by (induction s arbitrary: a) (auto split: if_splits prod.splits)

lemma Cut_absent [simp]: "sep \<notin> set s \<Longrightarrow> Cut s sep = (s, [], False)"
  by (induction s) auto

lemma Cut_not_found: "Cut s sep = (a, b, False) \<Longrightarrow> a = s \<and> b = [] \<and> sep \<notin> set s"
  by (induction s arbitrary: a) (auto split: if_splits prod.splits)

lemma Cut_append: "sep \<notin> set a \<Longrightarrow> Cut (a @ sep # b) sep = (a, b, True)"
  by (induction a) auto

lemma Split_nonempty [simp]: "Split s sep \<noteq> []"
  by (induction s) (auto split: list.splits)

lemma Join_Cons: "xs \<noteq> [] \<Longrightarrow> Join (x # xs) sep = x @ sep @ Join xs sep"
  by (cases xs) simp_all

lemma Join_Split: "Join (Split s sep) [sep] = s"
proof (induction s)
  case Nil
  then show ?case by simp
next
  case (Cons c s)
  obtain w ws where "Split s sep = w # ws" by (cases "Split s sep") (use Split_nonempty in auto)
  with Cons show ?case by (cases ws) (simp_all add: Join_Cons)
qed

lemma Split_absent: "sep \<notin> set s \<Longrightarrow> Split s sep = [s]"
  by (induction s) auto

lemma Split_append: "sep \<notin> set x \<Longrightarrow> Split (x @ sep # s) sep = x # Split s sep"
  by (induction x) auto

lemma Split_Join:
  "xs \<noteq> [] \<Longrightarrow> list_all (\<lambda>x. sep \<notin> set x) xs \<Longrightarrow> Split (Join xs [sep]) sep = xs"
  by (induction xs "[sep]" rule: Join.induct) (simp_all add: Split_absent Split_append)

lemma HasPrefix_append [simp]: "HasPrefix (p @ s) p"
  by (simp add: HasPrefix_def)

lemma HasPrefix_iff: "HasPrefix s p \<longleftrightarrow> (\<exists>t. s = p @ t)"
  by (metis HasPrefix_append HasPrefix_def append_take_drop_id)

end
