(* ===== verification/Go_Codec.thy ===== *)
theory Go_Codec
  imports Go_Strings
begin

text \<open>
  The textual encodings of Go's standard library the backend uses: \<open>%d\<close> and
  \<open>strconv.ParseUint\<close>, unpadded base64 in its two alphabets, and hexadecimal. Each encoder
  with its decoder is an instance of \<open>codec\<close>.
\<close>

section \<open>Decimal\<close>

definition digit_char :: "nat \<Rightarrow> char" where
  "digit_char d = char_of (48 + d)"

definition digit_val :: "char \<Rightarrow> nat" where
  "digit_val c = of_char c - 48"

definition is_digit :: "char \<Rightarrow> bool" where
  "is_digit c = byte_in 48 57 c"

text \<open>\<open>%d\<close> of a non-negative integer.\<close>

fun format_nat :: "nat \<Rightarrow> string" where
  "format_nat n = (if n < 10 then [digit_char n] else format_nat (n div 10) @ [digit_char (n mod 10)])"

declare format_nat.simps [simp del]

definition format_int :: "int \<Rightarrow> string" where
  "format_int i = (if i < 0 then CHR ''-'' # format_nat (nat (- i)) else format_nat (nat i))"

text \<open>\<open>%02d\<close>: at least two digits.\<close>

definition format_2d :: "nat \<Rightarrow> string" where
  "format_2d n = (if n < 10 then CHR ''0'' # format_nat n else format_nat n)"

definition digits_value :: "string \<Rightarrow> nat" where
  "digits_value s = foldl (\<lambda>v c. v * 10 + digit_val c) 0 s"

text \<open>\<open>strconv.ParseUint(s, 10, bits)\<close>; \<open>None\<close> where it returns an error.\<close>

definition ParseUint :: "string \<Rightarrow> nat \<Rightarrow> nat option" where
  "ParseUint s bits =
     (if s = [] \<or> \<not> list_all is_digit s then None
      else let n = digits_value s in if n < 2 ^ bits then Some n else None)"

lemma digit_char_facts [simp]:
  "d < 10 \<Longrightarrow> is_digit (digit_char d)" "d < 10 \<Longrightarrow> digit_val (digit_char d) = d"
  by (simp_all add: is_digit_def digit_char_def digit_val_def byte_in_def)

lemma format_nat_nonempty [simp]: "format_nat n \<noteq> []"
  by (subst format_nat.simps) simp

lemma format_nat_digits [simp]: "list_all is_digit (format_nat n)"
proof (induction n rule: format_nat.induct)
  case (1 n)
  then show ?case by (subst format_nat.simps) simp
qed

lemma digits_value_format_nat [simp]: "digits_value (format_nat n) = n"
proof (induction n rule: format_nat.induct)
  case (1 n)
  then show ?case by (subst format_nat.simps) (simp add: digits_value_def)
qed

lemma ParseUint_format_nat: "n < 2 ^ bits \<Longrightarrow> ParseUint (format_nat n) bits = Some n"
  by (simp add: ParseUint_def Let_def)

lemma ParseUint_Some:
  "ParseUint s bits = Some n \<Longrightarrow> n < 2 ^ bits \<and> s \<noteq> [] \<and> list_all is_digit s \<and> digits_value s = n"
  by (auto simp: ParseUint_def Let_def split: if_splits)

interpretation uint32_text: codec format_nat "\<lambda>s. ParseUint s 32" "\<lambda>n. n < 2 ^ 32"
  by unfold_locales (rule ParseUint_format_nat)

interpretation uint8_text: codec format_nat "\<lambda>s. ParseUint s 8" "\<lambda>n. n < 2 ^ 8"
  by unfold_locales (rule ParseUint_format_nat)

section \<open>Base64 without padding\<close>

text \<open>
  The alphabet is given by its last two characters: \<open>+/\<close> for \<open>RawStdEncoding\<close>, \<open>-_\<close> for
  \<open>RawURLEncoding\<close>. The decoder ignores the unused low bits of the last character, as Go's
  non-strict decoders do.
\<close>

definition b64_char :: "char \<Rightarrow> char \<Rightarrow> nat \<Rightarrow> char" where
  "b64_char c62 c63 n =
     (if n < 26 then char_of (65 + n)
      else if n < 52 then char_of (97 + (n - 26))
      else if n < 62 then char_of (48 + (n - 52))
      else if n = 62 then c62 else c63)"

definition b64_val :: "char \<Rightarrow> char \<Rightarrow> char \<Rightarrow> nat option" where
  "b64_val c62 c63 c =
     (if byte_in 65 90 c then Some (of_char c - 65)
      else if byte_in 97 122 c then Some (of_char c - 97 + 26)
      else if byte_in 48 57 c then Some (of_char c - 48 + 52)
      else if c = c62 then Some 62
      else if c = c63 then Some 63
      else None)"

fun sextets :: "nat list \<Rightarrow> nat list" where
  "sextets [] = []"
| "sextets [a] = [a div 4, a mod 4 * 16]"
| "sextets [a, b] = [a div 4, a mod 4 * 16 + b div 16, b mod 16 * 4]"
| "sextets (a # b # c # s) =
     a div 4 # (a mod 4 * 16 + b div 16) # (b mod 16 * 4 + c div 64) # c mod 64 # sextets s"

fun octets :: "nat list \<Rightarrow> nat list option" where
  "octets [] = Some []"
| "octets [w] = None"
| "octets [w, x] = Some [w * 4 + x div 16]"
| "octets [w, x, y] = Some [w * 4 + x div 16, x mod 16 * 16 + y div 4]"
| "octets (w # x # y # z # s) =
     (case octets s of None \<Rightarrow> None
      | Some t \<Rightarrow> Some ((w * 4 + x div 16) # (x mod 16 * 16 + y div 4) # (y mod 4 * 64 + z) # t))"

definition b64_encode :: "char \<Rightarrow> char \<Rightarrow> string \<Rightarrow> string" where
  "b64_encode c62 c63 s = map (b64_char c62 c63) (sextets (map of_char s))"

definition b64_decode :: "char \<Rightarrow> char \<Rightarrow> string \<Rightarrow> string option" where
  "b64_decode c62 c63 s =
     (if list_all (\<lambda>c. b64_val c62 c63 c \<noteq> None) s
      then map_option (map char_of) (octets (map (\<lambda>c. the (b64_val c62 c63 c)) s))
      else None)"

definition RawStd_EncodeToString :: "string \<Rightarrow> string" where
  "RawStd_EncodeToString = b64_encode (CHR ''+'') (CHR ''/'')"

definition RawStd_DecodeString :: "string \<Rightarrow> string option" where
  "RawStd_DecodeString = b64_decode (CHR ''+'') (CHR ''/'')"

definition RawURL_EncodeToString :: "string \<Rightarrow> string" where
  "RawURL_EncodeToString = b64_encode (CHR ''-'') (CHR ''_'')"

definition RawURL_DecodeString :: "string \<Rightarrow> string option" where
  "RawURL_DecodeString = b64_decode (CHR ''-'') (CHR ''_'')"

definition b64_extra :: "char \<Rightarrow> char \<Rightarrow> bool" where
  "b64_extra c62 c63 \<longleftrightarrow> c62 \<noteq> c63 \<and>
     (\<forall>c \<in> {c62, c63}. \<not> byte_in 65 90 c \<and> \<not> byte_in 97 122 c \<and> \<not> byte_in 48 57 c)"

lemma b64_extra_std [simp]: "b64_extra (CHR ''+'') (CHR ''/'')"
  and b64_extra_url [simp]: "b64_extra (CHR ''-'') (CHR ''_'')"
  by (simp_all add: b64_extra_def byte_in_def)

lemma b64_val_char:
  assumes "b64_extra c62 c63" "n < 64"
  shows "b64_val c62 c63 (b64_char c62 c63 n) = Some n"
proof -
  consider "n < 26" | "26 \<le> n" "n < 52" | "52 \<le> n" "n < 62" | "n = 62" | "n = 63"
    using assms(2) by linarith
  then show ?thesis
    using assms(1) by cases (auto simp: b64_val_def b64_char_def byte_in_def b64_extra_def)
qed

lemma sextets_lt: "list_all (\<lambda>n. n < 256) s \<Longrightarrow> list_all (\<lambda>n. n < 64) (sextets s)"
proof (induction s rule: sextets.induct)
  case (4 a b c s)
  have "a mod 4 * 16 + b div 16 < 64" "b mod 16 * 4 + c div 64 < 64"
    if "b < 256" "c < 256" using that mod_less_divisor [of 4 a] mod_less_divisor [of 16 b] by linarith+
  with 4 show ?case by auto
next
  case (2 a)
  have "a mod 4 * 16 < 64" using mod_less_divisor [of 4 a] by linarith
  with 2 show ?case by auto
next
  case (3 a b)
  have "a mod 4 * 16 + b div 16 < 64" "b mod 16 * 4 < 64"
    if "b < 256" using that mod_less_divisor [of 4 a] mod_less_divisor [of 16 b] by linarith+
  with 3 show ?case by auto
qed simp

lemma nibble_lt: "b < 256 \<Longrightarrow> b div 16 < 16" "b < 256 \<Longrightarrow> b div 64 < (4 :: nat)"
  by (simp_all add: less_mult_imp_div_less)

lemma octets_sextets: "list_all (\<lambda>n. n < 256) s \<Longrightarrow> octets (sextets s) = Some s"
proof (induction s rule: sextets.induct)
  case (3 a b)
  then show ?case using nibble_lt [of b] by simp
next
  case (4 a b c s)
  then show ?case using nibble_lt [of b] nibble_lt [of c] by simp
qed simp_all

lemma b64_decode_encode:
  assumes "b64_extra c62 c63"
  shows "b64_decode c62 c63 (b64_encode c62 c63 s) = Some s"
proof -
  let ?s = "map of_char s :: nat list"
  have b: "list_all (\<lambda>n. n < 256) ?s" by (simp add: list_all_iff of_char_lt_256)
  then have v: "b64_val c62 c63 (b64_char c62 c63 n) = Some n" if "n \<in> set (sextets ?s)" for n
    using sextets_lt [OF b] that assms by (simp add: b64_val_char list_all_iff)
  then have "map (\<lambda>c. the (b64_val c62 c63 c)) (b64_encode c62 c63 s) = sextets ?s"
    by (simp add: b64_encode_def map_idI)
  moreover have "list_all (\<lambda>c. b64_val c62 c63 c \<noteq> None) (b64_encode c62 c63 s)"
    using v by (simp add: b64_encode_def list_all_iff)
  ultimately show ?thesis
    using octets_sextets [OF b] by (simp add: b64_decode_def comp_def)
qed

interpretation b64_std: codec RawStd_EncodeToString RawStd_DecodeString "\<lambda>_. True"
  by unfold_locales (simp add: RawStd_EncodeToString_def RawStd_DecodeString_def b64_decode_encode)

interpretation b64_url: codec RawURL_EncodeToString RawURL_DecodeString "\<lambda>_. True"
  by unfold_locales (simp add: RawURL_EncodeToString_def RawURL_DecodeString_def b64_decode_encode)

lemma octets_length:
  "octets s = Some t \<Longrightarrow> length t = length s * 3 div 4"
  by (induction s arbitrary: t rule: octets.induct) (auto split: option.splits)

lemma sextets_length: "length (sextets s) = (length s * 4 + 2) div 3"
  by (induction s rule: sextets.induct) auto

lemma b64_encode_length: "length (b64_encode c62 c63 s) = (length s * 4 + 2) div 3"
  by (simp add: b64_encode_def sextets_length)

lemma b64_decode_length:
  "b64_decode c62 c63 s = Some t \<Longrightarrow> length t = length s * 3 div 4"
  by (auto simp: b64_decode_def octets_length split: if_splits)

lemma b64_encode_alphabet:
  assumes "b64_extra c62 c63"
  shows "list_all (\<lambda>c. b64_val c62 c63 c \<noteq> None) (b64_encode c62 c63 s)"
  using b64_decode_encode [OF assms, of s] unfolding b64_decode_def by (simp split: if_splits)

section \<open>Hexadecimal\<close>

definition hex_char :: "nat \<Rightarrow> char" where
  "hex_char n = (if n < 10 then char_of (48 + n) else char_of (97 + (n - 10)))"

definition hex_EncodeToString :: "string \<Rightarrow> string" where
  "hex_EncodeToString s = concat (map (\<lambda>c. [hex_char (of_char c div 16), hex_char (of_char c mod 16)]) s)"

definition hex_val :: "char \<Rightarrow> nat" where
  "hex_val c = (if byte_in 48 57 c then of_char c - 48 else of_char c - 97 + 10)"

fun hex_pairs :: "string \<Rightarrow> string option" where
  "hex_pairs [] = Some []"
| "hex_pairs [c] = None"
| "hex_pairs (c # d # s) = map_option ((#) (char_of (hex_val c * 16 + hex_val d))) (hex_pairs s)"

lemma hex_val_char: "n < 16 \<Longrightarrow> hex_val (hex_char n) = n"
  by (simp add: hex_val_def hex_char_def byte_in_def)

lemma hex_pairs_encode: "hex_pairs (hex_EncodeToString s) = Some s"
proof (induction s)
  case Nil
  then show ?case by (simp add: hex_EncodeToString_def)
next
  case (Cons c s)
  have "hex_val (hex_char (of_char c div 16)) = of_char c div 16"
    and "hex_val (hex_char (of_char c mod 16)) = of_char c mod 16"
    using of_char_lt_256 [of c] by (simp_all add: hex_val_char less_mult_imp_div_less)
  then have "char_of (hex_val (hex_char (of_char c div 16)) * 16 + hex_val (hex_char (of_char c mod 16))) = c"
    by (simp only: div_mult_mod_eq char_of_char)
  with Cons show ?case by (simp add: hex_EncodeToString_def)
qed

interpretation hex: codec hex_EncodeToString hex_pairs "\<lambda>_. True"
  by unfold_locales (simp add: hex_pairs_encode)

end
