(* ===== verification/Go_Json.thy ===== *)
theory Go_Json
  imports Go_Codec
begin

text \<open>
  What the backend uses of \<open>encoding/json\<close>: the encoder, with its escapes, and the stream
  decoder. The decoder is the package's scanner, one step per byte over a stack of open
  arrays and objects, with the values it has built so far on the stack. Numbers stay
  literals, as with \<open>UseNumber\<close>.
\<close>

section \<open>Values\<close>

datatype json =
    JNull
  | JBool bool
  | JNumber string
  | JString string
  | JArray "json list"
  | JObject "(string \<times> json) list"

definition QUOTE :: char where "QUOTE = CHR 0x22"
definition BSL :: char where "BSL = CHR 0x5C"
definition LF :: char where "LF = CHR 0x0A"

section \<open>The encoder\<close>

text \<open>
  \<open>appendString\<close> with the HTML escapes on: the short escapes, \<open>\u00xx\<close> for the other control
  characters and for the three HTML ones, U+2028 and U+2029 escaped, an invalid byte as
  U+FFFD.
\<close>

definition unicode_escape :: "nat \<Rightarrow> string" where
  "unicode_escape r =
     [BSL, CHR ''u'', hex_char (r div 4096), hex_char (r div 256 mod 16), hex_char (r div 16 mod 16), hex_char (r mod 16)]"

definition escape_rune :: "nat \<Rightarrow> string" where
  "escape_rune r =
     (if r = 0x22 \<or> r = 0x5C then [BSL, byte_of r]
      else if r = 0x08 then [BSL, CHR ''b'']
      else if r = 0x0C then [BSL, CHR ''f'']
      else if r = 0x0A then [BSL, CHR ''n'']
      else if r = 0x0D then [BSL, CHR ''r'']
      else if r = 0x09 then [BSL, CHR ''t'']
      else if r < 0x20 \<or> r = 0x3C \<or> r = 0x3E \<or> r = 0x26 \<or> r = 0x2028 \<or> r = 0x2029 then unicode_escape r
      else encode_valid r)"

definition escape_seg :: "nat option \<times> string \<Rightarrow> string" where
  "escape_seg g = (case fst g of None \<Rightarrow> unicode_escape RuneError | Some r \<Rightarrow> escape_rune r)"

definition json_string :: "string \<Rightarrow> string" where
  "json_string s = [QUOTE] @ concat (map escape_seg (utf8_segs s)) @ [QUOTE]"

fun json_encode :: "json \<Rightarrow> string" where
  "json_encode JNull = ''null''"
| "json_encode (JBool b) = (if b then ''true'' else ''false'')"
| "json_encode (JNumber lit) = lit"
| "json_encode (JString s) = json_string s"
| "json_encode (JArray xs) = ''['' @ Join (map json_encode xs) '','' @ '']''"
| "json_encode (JObject ms) = ''{'' @ Join (map (\<lambda>(k, v). json_string k @ '':'' @ json_encode v) ms) '','' @ ''}''"

text \<open>\<open>Encoder.Encode\<close> ends the value with a newline.\<close>

definition Encode :: "json \<Rightarrow> string" where
  "Encode v = json_encode v @ [LF]"

section \<open>String literals\<close>

definition hex_digit :: "char \<Rightarrow> nat option" where
  "hex_digit c =
     (if byte_in 48 57 c then Some (of_char c - 48)
      else if byte_in 97 102 c then Some (of_char c - 87)
      else if byte_in 65 70 c then Some (of_char c - 55)
      else None)"

text \<open>\<open>getu4\<close>: the value of a leading \<open>\uXXXX\<close>.\<close>

definition getu4 :: "string \<Rightarrow> nat option" where
  "getu4 s =
     (case s of b # u # a3 # a2 # a1 # a0 # _ \<Rightarrow>
        if b = BSL \<and> u = CHR ''u'' then
          (case (hex_digit a3, hex_digit a2, hex_digit a1, hex_digit a0) of
             (Some d3, Some d2, Some d1, Some d0) \<Rightarrow> Some (d3 * 4096 + d2 * 256 + d1 * 16 + d0)
           | _ \<Rightarrow> None)
        else None
      | _ \<Rightarrow> None)"

definition is_surrogate :: "nat \<Rightarrow> bool" where
  "is_surrogate r \<longleftrightarrow> 0xD800 \<le> r \<and> r < 0xE000"

text \<open>\<open>utf16.DecodeRune\<close>, \<open>None\<close> for the replacement character.\<close>

definition decode_surrogates :: "nat \<Rightarrow> nat \<Rightarrow> nat option" where
  "decode_surrogates hi lo =
     (if 0xD800 \<le> hi \<and> hi < 0xDC00 \<and> 0xDC00 \<le> lo \<and> lo < 0xE000
      then Some ((hi - 0xD800) * 1024 + (lo - 0xDC00) + 0x10000) else None)"

definition simple_escape :: "char \<Rightarrow> char" where
  "simple_escape c =
     (if c = CHR ''b'' then CHR 0x08 else if c = CHR ''f'' then CHR 0x0C else if c = CHR ''n'' then CHR 0x0A
      else if c = CHR ''r'' then CHR 0x0D else if c = CHR ''t'' then CHR 0x09 else c)"

text \<open>
  \<open>unquote\<close> on what the scanner let through: escapes decoded, surrogate pairs joined, a lone
  surrogate and an invalid byte replaced.
\<close>

function unquote :: "string \<Rightarrow> string" where
  "unquote s =
     (case s of
        [] \<Rightarrow> []
      | c # t \<Rightarrow>
        if c = BSL then
          (case getu4 s of
             Some r \<Rightarrow>
               (case (if is_surrogate r then Option.bind (getu4 (drop 6 s)) (decode_surrogates r) else None) of
                  Some r' \<Rightarrow> encode_rune r' @ unquote (drop 12 s)
                | None \<Rightarrow> encode_rune r @ unquote (drop 6 s))
           | None \<Rightarrow> (case t of [] \<Rightarrow> [] | e # t' \<Rightarrow> simple_escape e # unquote t'))
        else
          (case utf8_tail c t of
             None \<Rightarrow> encode_rune RuneError @ unquote t
           | Some (r, n) \<Rightarrow> c # take n t @ unquote (drop n t)))"
  by pat_completeness auto
termination by (relation "measure length") auto

section \<open>The scanner\<close>

datatype num_state = Neg | Zero | Digits | Dot | Frac | Exp | ExpSign | ExpDigits

definition is_e :: "char \<Rightarrow> bool" where
  "is_e c \<longleftrightarrow> c = CHR ''e'' \<or> c = CHR ''E''"

fun num_step :: "num_state \<Rightarrow> char \<Rightarrow> num_state option" where
  "num_step Neg c = (if c = CHR ''0'' then Some Zero else if is_digit c then Some Digits else None)"
| "num_step Zero c = (if c = CHR ''.'' then Some Dot else if is_e c then Some Exp else None)"
| "num_step Digits c =
     (if is_digit c then Some Digits else if c = CHR ''.'' then Some Dot else if is_e c then Some Exp else None)"
| "num_step Dot c = (if is_digit c then Some Frac else None)"
| "num_step Frac c = (if is_digit c then Some Frac else if is_e c then Some Exp else None)"
| "num_step Exp c =
     (if c = CHR ''+'' \<or> c = CHR ''-'' then Some ExpSign else if is_digit c then Some ExpDigits else None)"
| "num_step ExpSign c = (if is_digit c then Some ExpDigits else None)"
| "num_step ExpDigits c = (if is_digit c then Some ExpDigits else None)"

definition num_final :: "num_state \<Rightarrow> bool" where
  "num_final n \<longleftrightarrow> n = Zero \<or> n = Digits \<or> n = Frac \<or> n = ExpDigits"

definition num_start :: "char \<Rightarrow> num_state option" where
  "num_start c = (if c = CHR ''-'' then Some Neg else num_step Neg c)"

text \<open>
  An open array or object: the elements or members so far; \<open>ObjectKey\<close> before the colon, with
  the key once it is read, \<open>ObjectValue\<close> after it, with the value once it is read.
\<close>

datatype frame =
    ArrayValue "json list"
  | ObjectKey "(string \<times> json) list" "string option"
  | ObjectValue "(string \<times> json) list" string "json option"

datatype pstate =
    BeginValue
  | BeginValueOrEmpty
  | BeginStringOrEmpty
  | BeginString
  | InString string
  | InStringEsc string
  | InStringEscU nat string
  | InNumber num_state string
  | InLiteral string json
  | EndValue
  | Top json

type_synonym config = "pstate \<times> frame list"

definition json_space :: "char \<Rightarrow> bool" where
  "json_space c \<longleftrightarrow> c = CHR 0x20 \<or> c = CHR 0x09 \<or> c = CHR 0x0D \<or> c = CHR 0x0A"

definition maxNestingDepth :: nat where "maxNestingDepth = 10000"

text \<open>A value is complete: at the top, or in the innermost array or object.\<close>

fun complete_value :: "json \<Rightarrow> frame list \<Rightarrow> config" where
  "complete_value v (ArrayValue xs # stk) = (EndValue, ArrayValue (xs @ [v]) # stk)"
| "complete_value (JString k) (ObjectKey ms None # stk) = (EndValue, ObjectKey ms (Some k) # stk)"
| "complete_value v (ObjectValue ms k None # stk) = (EndValue, ObjectValue ms k (Some v) # stk)"
| "complete_value v stk = (Top v, stk)"

definition push :: "pstate \<Rightarrow> frame \<Rightarrow> frame list \<Rightarrow> config option" where
  "push st f stk = (if length stk < maxNestingDepth then Some (st, f # stk) else None)"

definition begin_value :: "char \<Rightarrow> frame list \<Rightarrow> config option" where
  "begin_value c stk =
     (if c = CHR ''{'' then push BeginStringOrEmpty (ObjectKey [] None) stk
      else if c = CHR ''['' then push BeginValueOrEmpty (ArrayValue []) stk
      else if c = QUOTE then Some (InString [], stk)
      else if c = CHR ''t'' then Some (InLiteral ''rue'' (JBool True), stk)
      else if c = CHR ''f'' then Some (InLiteral ''alse'' (JBool False), stk)
      else if c = CHR ''n'' then Some (InLiteral ''ull'' JNull, stk)
      else case num_start c of Some n \<Rightarrow> Some (InNumber n [c], stk) | None \<Rightarrow> None)"

fun end_value :: "char \<Rightarrow> frame list \<Rightarrow> config option" where
  "end_value c (ArrayValue xs # stk) =
     (if c = CHR '','' then Some (BeginValue, ArrayValue xs # stk)
      else if c = CHR '']'' then Some (complete_value (JArray xs) stk) else None)"
| "end_value c (ObjectKey ms (Some k) # stk) =
     (if c = CHR '':'' then Some (BeginValue, ObjectValue ms k None # stk) else None)"
| "end_value c (ObjectValue ms k (Some v) # stk) =
     (if c = CHR '','' then Some (BeginString, ObjectKey (ms @ [(k, v)]) None # stk)
      else if c = CHR ''}'' then Some (complete_value (JObject (ms @ [(k, v)])) stk) else None)"
| "end_value c stk = None"

fun scan_step :: "config \<Rightarrow> char \<Rightarrow> config option" where
  "scan_step (BeginValue, stk) c = (if json_space c then Some (BeginValue, stk) else begin_value c stk)"
| "scan_step (BeginValueOrEmpty, stk) c =
     (if json_space c then Some (BeginValueOrEmpty, stk)
      else if c = CHR '']'' then end_value c stk else begin_value c stk)"
| "scan_step (BeginStringOrEmpty, stk) c =
     (if json_space c then Some (BeginStringOrEmpty, stk)
      else if c = CHR ''}'' then Some (complete_value (JObject []) (tl stk))
      else if c = QUOTE then Some (InString [], stk) else None)"
| "scan_step (BeginString, stk) c =
     (if json_space c then Some (BeginString, stk) else if c = QUOTE then Some (InString [], stk) else None)"
| "scan_step (InString raw, stk) c =
     (if c = QUOTE then Some (complete_value (JString (unquote raw)) stk)
      else if c = BSL then Some (InStringEsc raw, stk)
      else if of_char c < (0x20 :: nat) then None else Some (InString (raw @ [c]), stk))"
| "scan_step (InStringEsc raw, stk) c =
     (if c \<in> {CHR ''b'', CHR ''f'', CHR ''n'', CHR ''r'', CHR ''t'', BSL, CHR ''/'', QUOTE}
      then Some (InString (raw @ [BSL, c]), stk)
      else if c = CHR ''u'' then Some (InStringEscU 4 (raw @ [BSL, c]), stk) else None)"
| "scan_step (InStringEscU n raw, stk) c =
     (if hex_digit c = None then None
      else if n \<le> 1 then Some (InString (raw @ [c]), stk) else Some (InStringEscU (n - 1) (raw @ [c]), stk))"
| "scan_step (InNumber n raw, stk) c = map_option (\<lambda>n'. (InNumber n' (raw @ [c]), stk)) (num_step n c)"
| "scan_step (InLiteral lit v, stk) c =
     (case lit of x # xs \<Rightarrow>
        if c = x then Some (if xs = [] then complete_value v stk else (InLiteral xs v, stk)) else None
      | [] \<Rightarrow> None)"
| "scan_step (EndValue, stk) c = (if json_space c then Some (EndValue, stk) else end_value c stk)"
| "scan_step (Top v, stk) c = None"

text \<open>A number ends at the first byte that does not continue it.\<close>

fun settle :: "config \<Rightarrow> char \<Rightarrow> config" where
  "settle (InNumber n raw, stk) c =
     (if num_step n c = None \<and> num_final n then complete_value (JNumber raw) stk else (InNumber n raw, stk))"
| "settle cfg c = cfg"

section \<open>The decoder\<close>

text \<open>
  \<open>JSyntax s\<close>: the byte before \<open>s\<close> is refused. At the end of the input a space is fed, which
  ends a number.
\<close>

datatype scan_result = JDone json string | JSyntax string | JUnexpectedEOF

fun scan :: "config \<Rightarrow> string \<Rightarrow> scan_result" where
  "scan cfg [] = (case settle cfg (CHR 0x20) of (Top v, _) \<Rightarrow> JDone v [] | _ \<Rightarrow> JUnexpectedEOF)"
| "scan cfg (c # s) =
     (case settle cfg c of
        (Top v, _) \<Rightarrow> JDone v (c # s)
      | cfg' \<Rightarrow> (case scan_step cfg' c of None \<Rightarrow> JSyntax s | Some cfg'' \<Rightarrow> scan cfg'' s))"

datatype json_error = SyntaxError nat | ErrUnexpectedEOF | EOF

text \<open>\<open>Decoder.Decode\<close> into an \<open>any\<close>: the first value and what is left of the stream.\<close>

definition json_Decode :: "string \<Rightarrow> json_error + json \<times> string" where
  "json_Decode s =
     (case scan (BeginValue, []) s of
        JDone v rest \<Rightarrow> Inr (v, rest)
      | JSyntax rest \<Rightarrow> Inl (SyntaxError (length s - length rest))
      | JUnexpectedEOF \<Rightarrow> Inl (if list_all json_space s then EOF else ErrUnexpectedEOF))"

section \<open>Scanning what was encoded: strings\<close>

declare unquote.simps [simp del]

lemma unquote_Nil [simp]: "unquote [] = []"
  by (simp add: unquote.simps [of "[]"])

lemma unquote_simple: "e \<noteq> CHR ''u'' \<Longrightarrow> unquote (BSL # e # t) = simple_escape e # unquote t"
  by (simp add: unquote.simps [of "BSL # e # t"] getu4_def split: list.split)

lemma hex_digit_char: "n < 16 \<Longrightarrow> hex_digit (hex_char n) = Some n"
  by (auto simp: hex_digit_def hex_char_def byte_in_def)

lemma getu4_unicode_escape:
  assumes "r < 0x10000"
  shows "getu4 (unicode_escape r @ t) = Some r"
proof -
  have "r div 4096 < 16" using assms by (simp add: less_mult_imp_div_less)
  moreover have "r div 4096 * 4096 + r div 256 mod 16 * 256 + r div 16 mod 16 * 16 + r mod 16 = r"
  proof -
    have "r = r div 16 * 16 + r mod 16" "r div 16 = r div 256 * 16 + r div 16 mod 16"
      "r div 256 = r div 4096 * 16 + r div 256 mod 16"
      by (simp_all add: div_mult2_eq [of r 16 16, simplified] div_mult2_eq [of r 256 16, simplified])
    then show ?thesis by linarith
  qed
  ultimately show ?thesis by (simp add: getu4_def unicode_escape_def hex_digit_char)
qed

lemma unquote_u:
  "getu4 (BSL # u) = Some r \<Longrightarrow> \<not> is_surrogate r \<Longrightarrow> unquote (BSL # u) = encode_rune r @ unquote (drop 5 u)"
  by (subst unquote.simps) simp

lemma unquote_unicode_escape:
  assumes "r < 0x10000" "valid_rune r"
  shows "unquote (unicode_escape r @ t) = encode_valid r @ unquote t"
proof -
  have "\<not> is_surrogate r" using assms(2) by (auto simp: valid_rune_def is_surrogate_def)
  moreover obtain u where u: "unicode_escape r @ t = BSL # u" "drop 5 u = t"
    by (simp add: unicode_escape_def)
  ultimately show ?thesis
    using getu4_unicode_escape [OF assms(1), of t] unquote_u [of u r] assms(2) by (simp add: encode_rune_def)
qed

lemma unquote_plain:
  assumes "valid_rune r" "r \<noteq> 0x5C"
  shows "unquote (encode_valid r @ t) = encode_valid r @ unquote t"
proof -
  obtain a w where e: "encode_valid r = a # w" "utf8_tail a (w @ t) = Some (r, length w)"
    using utf8_tail_encode [OF assms(1)] by blast
  have "a \<noteq> BSL"
  proof
    assume "a = BSL"
    then have "utf8_tail a (w @ t) = Some (0x5C, 0)" by (simp add: utf8_tail_def BSL_def)
    with e(2) assms(2) show False by simp
  qed
  with e show ?thesis by (simp add: unquote.simps [of "a # w @ t"])
qed

lemma unquote_escape:
  assumes "valid_rune r"
  shows "unquote (escape_rune r @ t) = encode_valid r @ unquote t"
proof -
  have b: "byte_of 0x22 = CHR 0x22" "byte_of 0x5C = CHR 0x5C" "byte_of 8 = CHR 0x08" "byte_of 12 = CHR 0x0C"
    "byte_of 10 = CHR 0x0A" "byte_of 13 = CHR 0x0D" "byte_of 9 = CHR 0x09"
    by (simp_all add: byte_of_def char_of_eq)
  consider "r \<in> {0x22, 0x5C, 8, 12, 10, 13, 9}"
    | "r \<notin> {0x22, 0x5C, 8, 12, 10, 13, 9}" "r < 0x20 \<or> r = 0x3C \<or> r = 0x3E \<or> r = 0x26 \<or> r = 0x2028 \<or> r = 0x2029"
    | "r \<notin> {0x22, 0x5C, 8, 12, 10, 13, 9}" "\<not> (r < 0x20 \<or> r = 0x3C \<or> r = 0x3E \<or> r = 0x26 \<or> r = 0x2028 \<or> r = 0x2029)"
    by blast
  then show ?thesis
  proof cases
    case 1
    have "simple_escape (CHR 0x22) = CHR 0x22" "simple_escape (CHR 0x5C) = CHR 0x5C"
      "simple_escape (CHR ''b'') = CHR 0x08" "simple_escape (CHR ''f'') = CHR 0x0C" "simple_escape (CHR ''n'') = CHR 0x0A"
      "simple_escape (CHR ''r'') = CHR 0x0D" "simple_escape (CHR ''t'') = CHR 0x09"
      by (simp_all add: simple_escape_def)
    moreover from 1 have "r = 0x22 \<or> r = 0x5C \<or> r = 8 \<or> r = 12 \<or> r = 10 \<or> r = 13 \<or> r = 9" by simp
    ultimately show ?thesis
      by (elim disjE) (simp_all add: escape_rune_def encode_valid_def unquote_simple b)
  next
    case 2
    then have "r < 0x10000" by auto
    with 2 show ?thesis using unquote_unicode_escape [OF _ assms] by (simp add: escape_rune_def)
  next
    case 3
    then show ?thesis using unquote_plain [OF assms] by (simp add: escape_rune_def)
  qed
qed

definition plain_byte :: "char \<Rightarrow> bool" where
  "plain_byte c \<longleftrightarrow> c \<noteq> QUOTE \<and> c \<noteq> BSL \<and> (0x20 :: nat) \<le> of_char c"

lemma scan_plain:
  "list_all plain_byte w \<Longrightarrow> scan (InString raw, stk) (w @ s) = scan (InString (raw @ w), stk) s"
  by (induction w arbitrary: raw) (simp_all add: plain_byte_def)

lemma scan_hex:
  "d < 16 \<Longrightarrow> scan (InStringEscU (Suc (Suc n)) raw, stk) (hex_char d # s) = scan (InStringEscU (Suc n) (raw @ [hex_char d]), stk) s"
  "d < 16 \<Longrightarrow> scan (InStringEscU (Suc 0) raw, stk) (hex_char d # s) = scan (InString (raw @ [hex_char d]), stk) s"
  by (simp_all add: hex_digit_char)

lemma scan_u:
  "scan (InString raw, stk) (BSL # CHR ''u'' # s) = scan (InStringEscU (Suc (Suc (Suc (Suc 0)))) (raw @ [BSL, CHR ''u'']), stk) s"
  by (simp add: BSL_def QUOTE_def numeral_eq_Suc)

lemma scan_unicode_escape:
  assumes "r < 0x10000"
  shows "scan (InString raw, stk) (unicode_escape r @ s) = scan (InString (raw @ unicode_escape r), stk) s"
proof -
  have "r div 4096 < 16" using assms by (simp add: less_mult_imp_div_less)
  then show ?thesis by (simp add: unicode_escape_def scan_u scan_hex del: scan.simps)
qed

lemma scan_simple_escape:
  "e \<in> {CHR ''b'', CHR ''f'', CHR ''n'', CHR ''r'', CHR ''t'', BSL, CHR ''/'', QUOTE} \<Longrightarrow>
   scan (InString raw, stk) (BSL # e # s) = scan (InString (raw @ [BSL, e]), stk) s"
  by (simp add: BSL_def QUOTE_def)

lemma encode_valid_plain:
  assumes "0x20 \<le> r" "r \<noteq> 0x22" "r \<noteq> 0x5C" "valid_rune r"
  shows "list_all plain_byte (encode_valid r)"
proof -
  have high: "plain_byte (byte_of n)" if "0x80 \<le> n" "n < 256" for n
    using that by (auto simp: plain_byte_def QUOTE_def BSL_def byte_of_def char_of_eq)
  have "r < 0x110000" using assms(4) by (auto simp: valid_rune_def)
  then have "0xF0 + r div 262144 < 256" by (simp add: less_mult_imp_div_less)
  moreover have "r < 0x800 \<Longrightarrow> 0xC0 + r div 64 < 256" "r < 0x10000 \<Longrightarrow> 0xE0 + r div 4096 < 256"
    using less_mult_imp_div_less [of r 32 64] less_mult_imp_div_less [of r 16 4096] by simp_all
  moreover have "0x80 + x mod 64 < 256" for x :: nat using mod_less_divisor [of 64 x] by linarith
  moreover have "plain_byte (byte_of r)" if "r < 0x80"
    using that assms(1-3) by (auto simp: plain_byte_def QUOTE_def BSL_def byte_of_def char_of_eq)
  ultimately show ?thesis by (auto simp: encode_valid_def intro!: high)
qed

lemma byte_of_quotes: "byte_of 0x22 = QUOTE" "byte_of 0x5C = BSL"
  by (simp_all add: byte_of_def char_of_eq QUOTE_def BSL_def)

lemma scan_escape_rune:
  assumes "valid_rune r"
  shows "scan (InString raw, stk) (escape_rune r @ s) = scan (InString (raw @ escape_rune r), stk) s"
proof -
  consider "r \<in> {0x22, 0x5C, 8, 12, 10, 13, 9}"
    | "r \<notin> {0x22, 0x5C, 8, 12, 10, 13, 9}" "r < 0x20 \<or> r = 0x3C \<or> r = 0x3E \<or> r = 0x26 \<or> r = 0x2028 \<or> r = 0x2029"
    | "r \<notin> {0x22, 0x5C, 8, 12, 10, 13, 9}" "\<not> (r < 0x20 \<or> r = 0x3C \<or> r = 0x3E \<or> r = 0x26 \<or> r = 0x2028 \<or> r = 0x2029)"
    by blast
  then show ?thesis
  proof cases
    case 1
    then obtain e where e: "escape_rune r = [BSL, e]" "e \<in> {CHR ''b'', CHR ''f'', CHR ''n'', CHR ''r'', CHR ''t'', BSL, CHR ''/'', QUOTE}"
      using byte_of_quotes by (auto simp: escape_rune_def)
    show ?thesis using scan_simple_escape [OF e(2)] by (simp add: e(1) del: scan.simps)
  next
    case 2
    then have "r < 0x10000" by auto
    then show ?thesis using 2 scan_unicode_escape [of r] by (simp add: escape_rune_def del: scan.simps)
  next
    case 3
    then show ?thesis using scan_plain [OF encode_valid_plain [OF _ _ _ assms]] by (simp add: escape_rune_def del: scan.simps)
  qed
qed

lemma scan_string:
  assumes "ValidString t"
  shows "scan (InString [], stk) (concat (map escape_seg (utf8_segs t)) @ QUOTE # s) = scan (complete_value (JString t) stk) s"
proof -
  have "list_all valid_rune rs \<Longrightarrow>
      scan (InString raw, stk) (concat (map escape_rune rs) @ u) = scan (InString (raw @ concat (map escape_rune rs)), stk) u"
    for raw rs u
    by (induction rs arbitrary: raw) (simp_all add: scan_escape_rune del: scan.simps)
  note scanned = this [OF ValidString_runes(1) [OF assms], of "[]", simplified]
  have "list_all valid_rune rs \<Longrightarrow> unquote (concat (map escape_rune rs)) = string_of_runes rs" for rs
    by (induction rs) (simp_all add: unquote_escape string_of_runes_def encode_rune_def)
  note val = this [OF ValidString_runes(1) [OF assms], unfolded ValidString_runes(2) [OF assms]]
  have "map escape_seg (utf8_segs t) = map escape_rune (go_runes t)"
    unfolding go_runes_def map_map
    by (rule map_cong [OF refl]) (use assms in \<open>auto simp: ValidString_def list_all_iff escape_seg_def split: option.split\<close>)
  then show ?thesis using scanned [of "QUOTE # s"] val by simp
qed

section \<open>Scanning what was encoded: values\<close>

fun num_run :: "num_state \<Rightarrow> string \<Rightarrow> num_state option" where
  "num_run n [] = Some n"
| "num_run n (c # s) = (case num_step n c of None \<Rightarrow> None | Some n' \<Rightarrow> num_run n' s)"

definition json_number :: "string \<Rightarrow> bool" where
  "json_number lit =
     (case lit of [] \<Rightarrow> False
      | c # s \<Rightarrow> (case Option.bind (num_start c) (\<lambda>n. num_run n s) of Some n \<Rightarrow> num_final n | None \<Rightarrow> False))"

fun json_wf :: "json \<Rightarrow> bool" where
  "json_wf (JNumber lit) = json_number lit"
| "json_wf (JString s) = ValidString s"
| "json_wf (JArray xs) = list_all json_wf xs"
| "json_wf (JObject ms) = list_all (\<lambda>(k, v). ValidString k \<and> json_wf v) ms"
| "json_wf v = True"

fun json_depth :: "json \<Rightarrow> nat" where
  "json_depth (JArray xs) = Suc (foldr max (map json_depth xs) 0)"
| "json_depth (JObject ms) = Suc (foldr max (map (\<lambda>(k, v). json_depth v) ms) 0)"
| "json_depth v = 0"

lemma foldr_max: "x \<in> set xs \<Longrightarrow> x \<le> foldr max xs (0 :: nat)"
  by (induction xs) auto

text \<open>What may follow a value: anything, but for a number no byte that could continue it.\<close>

definition num_char :: "char \<Rightarrow> bool" where
  "num_char c \<longleftrightarrow> is_digit c \<or> is_e c \<or> c \<in> {CHR ''.'', CHR ''+'', CHR ''-''}"

fun ends_value :: "json \<Rightarrow> string \<Rightarrow> bool" where
  "ends_value (JNumber _) (c # _) = (\<not> num_char c)"
| "ends_value _ _ = True"

lemma num_step_ends: "\<not> num_char c \<Longrightarrow> num_step n c = None"
  by (cases n) (auto simp: num_char_def is_digit_def byte_in_def)

lemma ends_value_separator:
  "c \<in> {CHR '','', CHR '']'', CHR ''}'', LF} \<Longrightarrow> ends_value v (c # s)"
  by (cases v) (auto simp: num_char_def is_digit_def byte_in_def is_e_def LF_def)

lemma settle_complete [simp]: "settle (complete_value v stk) c = complete_value v stk"
  by (induction v stk rule: complete_value.induct) simp_all

lemma scan_number_end:
  "num_final n \<Longrightarrow> ends_value (JNumber raw) s \<Longrightarrow> scan (InNumber n raw, stk) s = scan (complete_value (JNumber raw) stk) s"
  using num_step_ends [of "CHR '' ''" n]
  by (cases s) (auto simp: num_step_ends num_char_def is_digit_def byte_in_def is_e_def)

lemma scan_number:
  "num_run n w = Some n' \<Longrightarrow> num_final n' \<Longrightarrow> ends_value (JNumber (raw @ w)) s \<Longrightarrow>
   scan (InNumber n raw, stk) (w @ s) = scan (complete_value (JNumber (raw @ w)) stk) s"
proof (induction w arbitrary: n raw)
  case Nil
  then show ?case by (simp add: scan_number_end del: scan.simps)
next
  case (Cons c w)
  then obtain n1 where "num_step n c = Some n1" "num_run n1 w = Some n'" by (auto split: option.splits)
  with Cons show ?case by simp
qed

lemma num_start_char: "num_start c = Some n \<Longrightarrow> c = CHR ''-'' \<or> is_digit c"
  by (auto simp: num_start_def is_digit_def byte_in_def split: if_splits)

lemma digit_unlike:
  "is_digit c \<Longrightarrow> c \<notin> {CHR ''{'', CHR ''['', CHR '']'', CHR ''t'', CHR ''f'', CHR ''n'', QUOTE, CHR 0x20, CHR 0x09, CHR 0x0D, CHR 0x0A}"
  by (auto simp: is_digit_def byte_in_def QUOTE_def)

lemma begin_number:
  assumes "num_start c = Some n"
  shows "\<not> json_space c" "c \<noteq> CHR '']''" "begin_value c stk = Some (InNumber n [c], stk)"
proof -
  have "c \<notin> {CHR ''{'', CHR ''['', CHR '']'', CHR ''t'', CHR ''f'', CHR ''n'', QUOTE, CHR 0x20, CHR 0x09, CHR 0x0D, CHR 0x0A}"
    using num_start_char [OF assms]
  proof
    assume "c = CHR ''-''"
    then show ?thesis by (simp add: QUOTE_def)
  qed (rule digit_unlike)
  then show "\<not> json_space c" "c \<noteq> CHR '']''" "begin_value c stk = Some (InNumber n [c], stk)"
    using assms by (simp_all add: json_space_def begin_value_def)
qed

lemma scan_literal:
  "scan (BeginValue, stk) (''null'' @ s) = scan (complete_value JNull stk) s"
  "scan (BeginValue, stk) (''true'' @ s) = scan (complete_value (JBool True) stk) s"
  "scan (BeginValue, stk) (''false'' @ s) = scan (complete_value (JBool False) stk) s"
  by (simp_all add: json_space_def begin_value_def QUOTE_def)

lemma scan_json_string:
  assumes "ValidString t"
  shows "scan (BeginValue, stk) (json_string t @ s) = scan (complete_value (JString t) stk) s"
    "scan (BeginString, stk) (json_string t @ s) = scan (complete_value (JString t) stk) s"
    "scan (BeginStringOrEmpty, stk) (json_string t @ s) = scan (complete_value (JString t) stk) s"
  using scan_string [OF assms]
  by (simp_all add: json_string_def json_space_def begin_value_def QUOTE_def)

lemma json_encode_head:
  assumes "json_wf v"
  shows "\<exists>c t. json_encode v = c # t \<and> \<not> json_space c \<and> c \<noteq> CHR '']''"
proof (cases v)
  case (JNumber lit)
  then obtain c t n where "lit = c # t" "num_start c = Some n"
    using assms by (auto simp: json_number_def split: list.splits option.splits bind_splits)
  then show ?thesis using JNumber begin_number by auto
qed (simp_all add: json_string_def QUOTE_def json_space_def)

lemma scan_BeginValueOrEmpty:
  assumes "json_wf v"
  shows "scan (BeginValueOrEmpty, stk) (json_encode v @ s) = scan (BeginValue, stk) (json_encode v @ s)"
  using json_encode_head [OF assms] by auto

text \<open>The induction step for arrays and for objects, given the elements'.\<close>

definition scans :: "json \<Rightarrow> bool" where
  "scans v \<longleftrightarrow> (\<forall>stk s. json_depth v + length stk \<le> maxNestingDepth \<longrightarrow> ends_value v s \<longrightarrow>
     scan (BeginValue, stk) (json_encode v @ s) = scan (complete_value v stk) s)"

lemma scansD:
  "scans v \<Longrightarrow> json_depth v + length stk \<le> maxNestingDepth \<Longrightarrow> ends_value v s \<Longrightarrow>
     scan (BeginValue, stk) (json_encode v @ s) = scan (complete_value v stk) s"
  unfolding scans_def by blast

lemma scan_elements:
  assumes "ys \<noteq> []" "\<forall>y \<in> set ys. scans y \<and> json_depth y + Suc (length stk) \<le> maxNestingDepth"
  shows "scan (BeginValue, ArrayValue xs # stk) (Join (map json_encode ys) '','' @ '']'' @ s) =
    scan (complete_value (JArray (xs @ ys)) stk) s"
  using assms
proof (induction ys arbitrary: xs)
  case (Cons y ys)
  have y: "scan (BeginValue, ArrayValue xs # stk) (json_encode y @ t) = scan (EndValue, ArrayValue (xs @ [y]) # stk) t"
    if "ends_value y t" for t
    using scansD [of y "ArrayValue xs # stk" t] Cons.prems(2) that by simp
  show ?case
  proof (cases "ys = []")
    case True
    have "ends_value y ('']'' @ s)" by (simp add: ends_value_separator)
    from y [OF this] show ?thesis by (simp add: True json_space_def)
  next
    case False
    have "ends_value y ('','' @ Join (map json_encode ys) '','' @ '']'' @ s)" by (simp add: ends_value_separator)
    from y [OF this] Cons.IH [OF False, of "xs @ [y]"] Cons.prems(2) False show ?thesis
      by (simp add: Join_Cons json_space_def)
  qed
qed simp

abbreviation json_member :: "string \<times> json \<Rightarrow> string" where
  "json_member m \<equiv> (case m of (k, v) \<Rightarrow> json_string k @ '':'' @ json_encode v)"

lemma scan_member:
  assumes "ValidString k" "scans v" "json_depth v + Suc (length stk) \<le> maxNestingDepth" "ends_value v t"
  shows "scan (BeginString, ObjectKey ms None # stk) (json_string k @ '':'' @ json_encode v @ t) =
    scan (EndValue, ObjectValue ms k (Some v) # stk) t"
proof -
  have "scan (BeginString, ObjectKey ms None # stk) (json_string k @ '':'' @ json_encode v @ t) =
      scan (BeginValue, ObjectValue ms k None # stk) (json_encode v @ t)"
    using scan_json_string(2) [OF assms(1)] by (simp add: json_space_def)
  also have "\<dots> = scan (complete_value v (ObjectValue ms k None # stk)) t"
    using scansD [OF assms(2), of "ObjectValue ms k None # stk"] assms(3,4) by simp
  also have "complete_value v (ObjectValue ms k None # stk) = (EndValue, ObjectValue ms k (Some v) # stk)"
    by (cases v) simp_all
  finally show ?thesis .
qed

lemma scan_members:
  assumes "ys \<noteq> []"
    and "\<forall>(k, v) \<in> set ys. ValidString k \<and> scans v \<and> json_depth v + Suc (length stk) \<le> maxNestingDepth"
  shows "scan (BeginString, ObjectKey ms None # stk) (Join (map json_member ys) '','' @ ''}'' @ s) =
    scan (complete_value (JObject (ms @ ys)) stk) s"
  using assms
proof (induction ys arbitrary: ms)
  case (Cons y ys)
  obtain k v where y: "y = (k, v)" by force
  have m: "scan (BeginString, ObjectKey ms None # stk) (json_string k @ '':'' @ json_encode v @ t) =
      scan (EndValue, ObjectValue ms k (Some v) # stk) t" if "ends_value v t" for t
    using scan_member [OF _ _ _ that] Cons.prems(2) y by auto
  show ?case
  proof (cases "ys = []")
    case True
    have "ends_value v (''}'' @ s)" by (simp add: ends_value_separator)
    from m [OF this] show ?thesis by (simp add: True y json_space_def)
  next
    case False
    have "ends_value v ('','' @ Join (map json_member ys) '','' @ ''}'' @ s)" by (simp add: ends_value_separator)
    from m [OF this] Cons.IH [OF False, of "ms @ [(k, v)]"] Cons.prems(2) False show ?thesis
      by (simp add: Join_Cons y json_space_def)
  qed
qed simp

lemma scan_object_start:
  assumes "ms \<noteq> []" "\<forall>(k, v) \<in> set ms. ValidString k"
  shows "scan (BeginStringOrEmpty, stk) (Join (map json_member ms) '','' @ s) =
    scan (BeginString, stk) (Join (map json_member ms) '','' @ s)"
proof -
  obtain k v ms' where "ms = (k, v) # ms'" using assms(1) by (cases ms) auto
  then obtain t where "Join (map json_member ms) '','' @ s = QUOTE # t"
    by (cases ms') (simp_all add: json_string_def)
  then show ?thesis by (simp add: json_space_def QUOTE_def)
qed

lemma json_depth_element:
  "x \<in> set xs \<Longrightarrow> json_depth x < json_depth (JArray xs)"
  "(k, x) \<in> set ms \<Longrightarrow> json_depth x < json_depth (JObject ms)"
  using foldr_max [of "json_depth x" "map json_depth xs"] foldr_max [of "json_depth x" "map (\<lambda>(k, v). json_depth v) ms"]
  by (force simp: less_Suc_eq_le)+

lemma scans_array:
  assumes "\<forall>x \<in> set xs. json_wf x \<and> scans x"
  shows "scans (JArray xs)"
  unfolding scans_def
proof (intro allI impI)
  fix stk :: "frame list" and s
  assume d: "json_depth (JArray xs) + length stk \<le> maxNestingDepth"
  then have p: "push st f stk = Some (st, f # stk)" for st f by (simp add: push_def)
  have el: "\<forall>x \<in> set xs. scans x \<and> json_depth x + Suc (length stk) \<le> maxNestingDepth"
    using json_depth_element(1) [of _ xs] assms d by fastforce
  have "scan (BeginValue, stk) (json_encode (JArray xs) @ s) =
      scan (BeginValueOrEmpty, ArrayValue [] # stk) (Join (map json_encode xs) '','' @ '']'' @ s)"
    by (simp add: json_space_def begin_value_def p)
  also have "\<dots> = scan (complete_value (JArray xs) stk) s"
  proof (cases xs)
    case Nil
    then show ?thesis by (simp add: json_space_def)
  next
    case (Cons x ys)
    then obtain t where t: "Join (map json_encode xs) '','' @ '']'' @ s = json_encode x @ t" by (cases ys) simp_all
    have "scan (BeginValueOrEmpty, ArrayValue [] # stk) (json_encode x @ t) = scan (BeginValue, ArrayValue [] # stk) (json_encode x @ t)"
      using assms Cons by (intro scan_BeginValueOrEmpty) simp
    then show ?thesis using scan_elements [OF _ el, of "[]" s] Cons t by simp
  qed
  finally show "scan (BeginValue, stk) (json_encode (JArray xs) @ s) = scan (complete_value (JArray xs) stk) s" .
qed

lemma scans_object:
  assumes "\<forall>(k, v) \<in> set ms. ValidString k \<and> scans v"
  shows "scans (JObject ms)"
  unfolding scans_def
proof (intro allI impI)
  fix stk :: "frame list" and s
  assume d: "json_depth (JObject ms) + length stk \<le> maxNestingDepth"
  then have p: "push st f stk = Some (st, f # stk)" for st f by (simp add: push_def)
  have el: "\<forall>(k, v) \<in> set ms. ValidString k \<and> scans v \<and> json_depth v + Suc (length stk) \<le> maxNestingDepth"
    using json_depth_element(2) [of _ _ ms] assms d by fastforce
  have "scan (BeginValue, stk) (json_encode (JObject ms) @ s) =
      scan (BeginStringOrEmpty, ObjectKey [] None # stk) (Join (map json_member ms) '','' @ ''}'' @ s)"
    by (simp add: json_space_def begin_value_def p)
  also have "\<dots> = scan (complete_value (JObject ms) stk) s"
  proof (cases "ms = []")
    case True
    then show ?thesis by (simp add: json_space_def)
  next
    case False
    have "\<forall>(k, v) \<in> set ms. ValidString k" using assms by auto
    from scan_object_start [OF False this] scan_members [OF False el, of "[]"] show ?thesis by simp
  qed
  finally show "scan (BeginValue, stk) (json_encode (JObject ms) @ s) = scan (complete_value (JObject ms) stk) s" .
qed

lemma scan_encoded: "json_wf v \<Longrightarrow> scans v"
proof (induction v)
  case (JNumber lit)
  then obtain c w n n' where "lit = c # w" "num_start c = Some n" "num_run n w = Some n'" "num_final n'"
    by (auto simp: json_number_def split: list.splits option.splits bind_splits)
  then show ?case
    using scan_number [of n w n'] begin_number [of c n] by (auto simp: scans_def)
next
  case (JArray xs)
  then show ?case by (intro scans_array) (auto simp: list_all_iff)
next
  case (JObject ms)
  then show ?case by (intro scans_object) (fastforce simp: list_all_iff)
qed (auto simp: scans_def scan_json_string scan_literal [simplified append.simps] simp del: scan.simps split: if_splits)

section \<open>What is encoded is valid text\<close>

lemma hex_char_ascii: "n < 16 \<Longrightarrow> of_char (hex_char n) < (128 :: nat)"
  by (auto simp: hex_char_def)

lemma ValidString_unicode_escape: "r < 65536 \<Longrightarrow> ValidString (unicode_escape r)"
  by (rule ValidString_ascii) (simp add: is_ascii_def unicode_escape_def hex_char_ascii BSL_def)

lemma ValidString_escape_rune: "valid_rune r \<Longrightarrow> ValidString (escape_rune r)"
  by (auto simp: escape_rune_def ValidString_unicode_escape ValidString_encode_valid
     intro!: ValidString_ascii) (simp_all add: is_ascii_def BSL_def byte_of_def)

lemma ValidString_json_string: "ValidString (json_string s)"
proof -
  have "ValidString (escape_seg (x, t))" if "(x, t) \<in> set (utf8_segs s)" for x t
    using that utf8_segs_Some [of _ t s] ValidString_unicode_escape [of RuneError]
    by (cases x) (simp_all add: escape_seg_def ValidString_escape_rune RuneError_def)
  then have "ValidString (escape_seg g)" if "g \<in> set (utf8_segs s)" for g using that by (cases g) simp
  then have "ValidString (concat (map escape_seg (utf8_segs s)))" by (rule ValidString_concat)
  moreover have "ValidString [QUOTE]" by (simp add: ValidString_ascii is_ascii_def QUOTE_def)
  ultimately show ?thesis unfolding json_string_def by (simp only: ValidString_append)
qed

lemma num_step_ascii: "num_step n c = Some n' \<Longrightarrow> of_char c < (128 :: nat)"
  by (cases n) (auto simp: is_digit_def byte_in_def is_e_def split: if_splits)

lemma num_run_ascii: "num_run n s = Some n' \<Longrightarrow> is_ascii s"
  by (induction s arbitrary: n) (auto simp: is_ascii_def dest: num_step_ascii split: option.splits)

lemma ValidString_number: "json_number lit \<Longrightarrow> ValidString lit"
  by (rule ValidString_ascii)
    (auto simp: json_number_def is_ascii_def num_start_def is_digit_def byte_in_def dest: num_step_ascii num_run_ascii [unfolded is_ascii_def]
      split: list.splits option.splits if_splits bind_splits)

lemma ValidString_json_encode: "json_wf v \<Longrightarrow> ValidString (json_encode v)"
proof (induction v)
  case (JArray xs)
  have b: "ValidString ''[''" "ValidString '']''" "ValidString '',''" by (simp_all add: ValidString_ascii is_ascii_def)
  have "ValidString (Join (map json_encode xs) '','')"
    using JArray by (intro ValidString_Join b) (auto simp: list_all_iff)
  then show ?case using b unfolding json_encode.simps by (simp only: ValidString_append)
next
  case (JObject ms)
  have b: "ValidString ''{''" "ValidString ''}''" "ValidString '',''" "ValidString '':''" by (simp_all add: ValidString_ascii is_ascii_def)
  have "ValidString (Join (map (\<lambda>(k, v). json_string k @ '':'' @ json_encode v) ms) '','')"
  proof (intro ValidString_Join b)
    fix x assume "x \<in> set (map (\<lambda>(k, v). json_string k @ '':'' @ json_encode v) ms)"
    then obtain k v where "(k, v) \<in> set ms" and x: "x = json_string k @ '':'' @ json_encode v" by auto
    then have "ValidString (json_encode v)" using JObject by (fastforce simp: list_all_iff)
    then show "ValidString x" unfolding x using b by (simp only: ValidString_append ValidString_json_string)
  qed
  then show ?case using b unfolding json_encode.simps by (simp only: ValidString_append)
qed (simp_all add: ValidString_ascii is_ascii_def ValidString_json_string ValidString_number)

section \<open>Round trip\<close>

text \<open>
  Any value of valid text, its numbers well-formed literals and its nesting within the decoder's
  limit, is decoded from its encoding as it was, with everything after it left on the stream.
\<close>

lemma json_roundtrip:
  assumes "json_wf v" "json_depth v \<le> maxNestingDepth" "ends_value v rest"
  shows "json_Decode (json_encode v @ rest) = Inr (v, rest)"
proof -
  have "scan (BeginValue, []) (json_encode v @ rest) = scan (Top v, []) rest"
    using scansD [OF scan_encoded [OF assms(1)], of "[]" rest] assms(2,3) by (cases v) simp_all
  then show ?thesis by (cases rest) (simp_all add: json_Decode_def)
qed

end
