(* ===== verification/Conf_Case.thy ===== *)
theory Conf_Case
  imports Go_Json "HOL-Library.List_Lexorder" "HOL-Library.Char_ord"
begin

text \<open>
  The case files of the conformance harness (\<open>contract/conformance/case.go\<close>): the format, its
  loading and the validation that refuses a case which would assert nothing.

  A Go map is an association list of distinct keys in the order it is iterated in; a nil map
  is told from an empty one where the code does. Error texts are values of a datatype. The
  YAML decoder and the file system are parameters of \<open>Load_dir\<close>; \<open>compiles\<close> says whether
  \<open>regexp.Compile\<close> takes a pattern, and \<open>ufold\<close> is Unicode's simple case folding.
\<close>

section \<open>Strings\<close>

definition EqualFold :: "(nat \<Rightarrow> nat) \<Rightarrow> string \<Rightarrow> string \<Rightarrow> bool" where
  "EqualFold ufold s t \<longleftrightarrow> map ufold (go_runes s) = map ufold (go_runes t)"

fun Index :: "string \<Rightarrow> string \<Rightarrow> nat option" where
  "Index [] sub = (if sub = [] then Some 0 else None)"
| "Index (c # s) sub = (if HasPrefix (c # s) sub then Some 0 else map_option Suc (Index s sub))"

text \<open>\<open>strings.Replace(s, old, new, 1)\<close> and \<open>strings.Count\<close> for a non-empty substring.\<close>

definition Replace1 :: "string \<Rightarrow> string \<Rightarrow> string \<Rightarrow> string" where
  "Replace1 s old new =
     (case Index s old of None \<Rightarrow> s | Some i \<Rightarrow> take i s @ new @ drop (i + length old) s)"

fun Count :: "string \<Rightarrow> string \<Rightarrow> nat" where
  "Count sub [] = 0"
| "Count sub (c # s) =
     (if HasPrefix (c # s) sub then Suc (Count sub (drop (length sub - 1) s)) else Count sub s)"

definition Repeat :: "string \<Rightarrow> int \<Rightarrow> string" where
  "Repeat s n = concat (replicate (nat n) s)"

fun hex_DecodeString :: "string \<Rightarrow> string option" where
  "hex_DecodeString [] = Some []"
| "hex_DecodeString [c] = None"
| "hex_DecodeString (c # d # s) =
     (case (hex_digit c, hex_digit d, hex_DecodeString s) of
        (Some x, Some y, Some t) \<Rightarrow> Some (byte_of (x * 16 + y) # t)
      | _ \<Rightarrow> None)"

text \<open>\<open>filepath.Base\<close>.\<close>

definition Base :: "string \<Rightarrow> string" where
  "Base p =
     (if p = [] then ''.''
      else let q = rev (takeWhile (\<lambda>c. c \<noteq> CHR ''/'') (dropWhile (\<lambda>c. c = CHR ''/'') (rev p)))
           in if q = [] then ''/'' else q)"

section \<open>The format\<close>

record Pad =
  pad_With :: string
  pad_Count :: int

record CaseRequest =
  q_Method :: string
  q_Path :: string
  q_RawTarget :: string
  q_Headers :: "(string \<times> string) list option"
  q_HeadersHex :: "(string \<times> string) list option"
  q_Body :: string
  q_Pad :: "Pad option"

record Step =
  s_Request :: "CaseRequest option"
  s_Status :: int
  s_SQL :: string
  s_Outage :: bool

record CookieExpect =
  x_Value :: "string option"
  x_ValuePattern :: string
  x_Path :: "string option"
  x_Domain :: string
  x_MaxAge :: "int option"
  x_HttpOnly :: "bool option"
  x_Secure :: "bool option"
  x_SameSite :: string
  x_Expires :: string

record RowsExpect =
  re_SQL :: string
  re_Rows :: "(string \<times> json) list list option"

record Expect =
  e_Status :: int
  e_StatusByBackend :: "(string \<times> int) list option"
  e_Headers :: "(string \<times> string) list"
  e_BodyJSON :: "json option"
  e_BodyRaw :: string
  e_BodyEmpty :: bool
  e_SameAs :: "CaseRequest option"
  e_SameAsFor :: "(string \<times> CaseRequest option) list"
  e_Cookies :: "(string \<times> CookieExpect) list option"
  e_Rows :: "RowsExpect list"

record Case =
  c_Name :: string
  c_Issue :: string
  c_Profile :: string
  c_Permit :: "string list"
  c_Given :: "Step list"
  c_Request :: CaseRequest
  c_Expect :: Expect
  c_SourceFile :: string

definition padToken :: string where "padToken = ''{pad}''"

definition SentBody :: "CaseRequest \<Rightarrow> string" where
  "SentBody r =
     (case q_Pad r of
        None \<Rightarrow> q_Body r
      | Some p \<Rightarrow> Replace1 (q_Body r) padToken (Repeat (pad_With p) (pad_Count p)))"

text \<open>An entry of a map of integers, 0 for none.\<close>

definition entry0 :: "(string \<times> int) list \<Rightarrow> string \<Rightarrow> int" where
  "entry0 m k = (case map_of m k of None \<Rightarrow> 0 | Some n \<Rightarrow> n)"

definition StatusFor :: "Expect \<Rightarrow> string \<Rightarrow> int" where
  "StatusFor e backend =
     (case e_StatusByBackend e of Some m \<Rightarrow> entry0 m backend | None \<Rightarrow> e_Status e)"

definition SameAsRequest :: "Expect \<Rightarrow> string \<Rightarrow> CaseRequest option" where
  "SameAsRequest e backend =
     (case map_of (e_SameAsFor e) backend of Some r \<Rightarrow> r | None \<Rightarrow> e_SameAs e)"

definition ExpiresAbsent :: string where "ExpiresAbsent = ''absent''"
definition ExpiresPast :: string where "ExpiresPast = ''past''"
definition ExpiresMaxAge :: string where "ExpiresMaxAge = ''max-age''"

definition ProfileDefault :: string where "ProfileDefault = ''default''"
definition ProfileLocalDisabled :: string where "ProfileLocalDisabled = ''local-disabled''"

definition Profiles :: "string list" where
  "Profiles = [ProfileDefault, ProfileLocalDisabled]"

definition ProfileOf :: "Case \<Rightarrow> string" where
  "ProfileOf c = (if c_Profile c = [] then ProfileDefault else c_Profile c)"

section \<open>Validation\<close>

datatype request_error =
    MethodRequired | PathAndRawTarget | RawTargetSlash | PathSlash
  | HexHost string | HexDuplicate string string | HexInvalid string
  | PadIncomplete | PadTokenCount

datatype cookie_error =
    ValueAndPattern | NoValue | BadPattern | MissingAttributes "string list" | BadExpires string

datatype place = AtRequest | AtSameAs | AtSameAsFor string | AtGiven nat

text \<open>\<open>NilRequest\<close> is no error value but the panic of a nil \<open>*Request\<close>.\<close>

datatype case_error =
    NoName | RequestInvalid place request_error | NilRequest place
  | StatusTwice | StatusRequired | StatusBackend string | StatusMissing string | StatusSame int | StatusUnpermitted
  | SameAsBackend string | BodyJSONAndRaw | BodyEmptyAndBody | UnknownProfile string
  | SameAsIdentical place
  | StepSeveral nat | StepStatus nat | OutageNotLast nat | StepNoStatus nat | StepEmpty nat
  | CookieInvalid string cookie_error
  | RowsNoSQL nat | RowsNoRows nat

text \<open>The first check that fails.\<close>

fun first_error :: "'e option list \<Rightarrow> 'e option" where
  "first_error [] = None"
| "first_error (None # es) = first_error es"
| "first_error (Some e # es) = Some e"

definition fails_if :: "bool \<Rightarrow> 'e \<Rightarrow> 'e option" where
  "fails_if b e = (if b then Some e else None)"

definition entries :: "('k \<times> 'v) list option \<Rightarrow> ('k \<times> 'v) list" where
  "entries m = (case m of None \<Rightarrow> [] | Some es \<Rightarrow> es)"

definition target_error :: "CaseRequest \<Rightarrow> request_error option" where
  "target_error r =
     (if q_Path r \<noteq> [] \<and> q_RawTarget r \<noteq> [] then Some PathAndRawTarget
      else if HasPrefix (q_RawTarget r) ''*'' \<or> Contains (q_RawTarget r) ''://'' then None
      else if q_RawTarget r \<noteq> [] then fails_if (\<not> HasPrefix (q_RawTarget r) ''/'') RawTargetSlash
      else fails_if (\<not> HasPrefix (q_Path r) ''/'') PathSlash)"

definition header_hex_error :: "(nat \<Rightarrow> nat) \<Rightarrow> CaseRequest \<Rightarrow> string \<times> string \<Rightarrow> request_error option" where
  "header_hex_error ufold r h =
     (case h of (name, hexValue) \<Rightarrow>
        first_error (
          [fails_if (EqualFold ufold name ''Host'') (HexHost name)] @
          map (\<lambda>(other, _). fails_if (EqualFold ufold name other) (HexDuplicate name other)) (entries (q_Headers r)) @
          [fails_if (hex_DecodeString hexValue = None) (HexInvalid name)]))"

definition pad_error :: "CaseRequest \<Rightarrow> request_error option" where
  "pad_error r =
     (case q_Pad r of
        None \<Rightarrow> None
      | Some p \<Rightarrow> first_error
          [fails_if (pad_With p = [] \<or> pad_Count p \<le> 0) PadIncomplete,
           fails_if (Count padToken (q_Body r) \<noteq> 1) PadTokenCount])"

definition Request_validate :: "(nat \<Rightarrow> nat) \<Rightarrow> CaseRequest \<Rightarrow> request_error option" where
  "Request_validate ufold r = first_error
     [fails_if (q_Method r = []) MethodRequired,
      target_error r,
      first_error (map (header_hex_error ufold r) (entries (q_HeadersHex r))),
      pad_error r]"

definition CookieExpect_validate :: "(string \<Rightarrow> bool) \<Rightarrow> CookieExpect \<Rightarrow> cookie_error option" where
  "CookieExpect_validate compiles ck =
     (let missing =
        (if x_Path ck = None then [''path''] else []) @
        (if x_MaxAge ck = None then [''max_age''] else []) @
        (if x_HttpOnly ck = None then [''http_only''] else []) @
        (if x_Secure ck = None then [''secure''] else []) @
        (if x_SameSite ck = [] then [''same_site''] else [])
      in first_error
        [fails_if (x_Value ck \<noteq> None \<and> x_ValuePattern ck \<noteq> []) ValueAndPattern,
         fails_if (x_Value ck = None \<and> x_ValuePattern ck = []) NoValue,
         fails_if (x_ValuePattern ck \<noteq> [] \<and> \<not> compiles (x_ValuePattern ck)) BadPattern,
         fails_if (missing \<noteq> []) (MissingAttributes missing),
         fails_if (x_Expires ck \<notin> {ExpiresAbsent, ExpiresPast, ExpiresMaxAge}) (BadExpires (x_Expires ck))])"

definition status_error :: "Case \<Rightarrow> case_error option" where
  "status_error c =
     (let e = c_Expect c in
      case e_StatusByBackend e of
        None \<Rightarrow> fails_if (e_Status e = 0) StatusRequired
      | Some m \<Rightarrow>
        if e_Status e \<noteq> 0 then Some StatusTwice
        else first_error (
          map (\<lambda>(k, _). fails_if (k \<noteq> ''go'' \<and> k \<noteq> ''kotlin'') (StatusBackend k)) m @
          map (\<lambda>b. fails_if (entry0 m b = 0) (StatusMissing b)) [''go'', ''kotlin''] @
          [fails_if (entry0 m ''go'' = entry0 m ''kotlin'') (StatusSame (entry0 m ''go'')),
           fails_if (c_Permit c = []) StatusUnpermitted]))"

text \<open>\<open>reflect.DeepEqual\<close> on two requests: maps as maps, a nil map unlike an empty one.\<close>

definition same_map :: "('k \<times> 'v) list option \<Rightarrow> ('k \<times> 'v) list option \<Rightarrow> bool" where
  "same_map a b \<longleftrightarrow> (a = None \<longleftrightarrow> b = None) \<and> set (entries a) = set (entries b)"

definition DeepEqual :: "CaseRequest \<Rightarrow> CaseRequest \<Rightarrow> bool" where
  "DeepEqual a b \<longleftrightarrow> same_map (q_Headers a) (q_Headers b) \<and> same_map (q_HeadersHex a) (q_HeadersHex b) \<and>
     a\<lparr>q_Headers := None, q_HeadersHex := None\<rparr> = b\<lparr>q_Headers := None, q_HeadersHex := None\<rparr>"

definition same_as_error :: "(nat \<Rightarrow> nat) \<Rightarrow> Case \<Rightarrow> place \<Rightarrow> CaseRequest \<Rightarrow> case_error option" where
  "same_as_error ufold c pl s = first_error
     [map_option (RequestInvalid pl) (Request_validate ufold s),
      fails_if (DeepEqual s (c_Request c)) (SameAsIdentical pl)]"

definition step_error :: "(nat \<Rightarrow> nat) \<Rightarrow> Case \<Rightarrow> nat \<times> Step \<Rightarrow> case_error option" where
  "step_error ufold c ig =
     (case ig of (i, g) \<Rightarrow>
      let kinds = length (filter id [s_Request g \<noteq> None, TrimSpace (s_SQL g) \<noteq> [], s_Outage g])
      in if 1 < kinds then Some (StepSeveral i)
         else if s_Outage g then first_error
           [fails_if (s_Status g \<noteq> 0) (StepStatus i),
            fails_if (int i \<noteq> int (length (c_Given c)) - 1) (OutageNotLast i)]
         else case s_Request g of
           Some r \<Rightarrow> first_error
             [map_option (RequestInvalid (AtGiven i)) (Request_validate ufold r),
              fails_if (s_Status g = 0) (StepNoStatus i)]
         | None \<Rightarrow>
             if TrimSpace (s_SQL g) \<noteq> [] then fails_if (s_Status g \<noteq> 0) (StepStatus i)
             else Some (StepEmpty i))"

definition rows_error :: "nat \<times> RowsExpect \<Rightarrow> case_error option" where
  "rows_error ir =
     (case ir of (i, r) \<Rightarrow> first_error
        [fails_if (TrimSpace (re_SQL r) = []) (RowsNoSQL i),
         fails_if (re_Rows r = None) (RowsNoRows i)])"

definition Case_validate :: "(nat \<Rightarrow> nat) \<Rightarrow> (string \<Rightarrow> bool) \<Rightarrow> Case \<Rightarrow> case_error option" where
  "Case_validate ufold compiles c =
     (let e = c_Expect c in first_error (
       [fails_if (TrimSpace (c_Name c) = []) NoName,
        map_option (RequestInvalid AtRequest) (Request_validate ufold (c_Request c)),
        status_error c,
        first_error (map (\<lambda>(k, _). fails_if (k \<noteq> ''go'' \<and> k \<noteq> ''kotlin'') (SameAsBackend k)) (e_SameAsFor e)),
        fails_if (e_BodyJSON e \<noteq> None \<and> e_BodyRaw e \<noteq> []) BodyJSONAndRaw,
        fails_if (e_BodyEmpty e \<and> (e_BodyJSON e \<noteq> None \<or> e_BodyRaw e \<noteq> [])) BodyEmptyAndBody,
        fails_if (ProfileOf c \<notin> set Profiles) (UnknownProfile (c_Profile c)),
        (case e_SameAs e of None \<Rightarrow> None | Some s \<Rightarrow> same_as_error ufold c AtSameAs s)] @
       map (\<lambda>(backend, s). case s of None \<Rightarrow> Some (NilRequest (AtSameAsFor backend))
                           | Some s' \<Rightarrow> same_as_error ufold c (AtSameAsFor backend) s') (e_SameAsFor e) @
       map (step_error ufold c) (enumerate 0 (c_Given c)) @
       map (\<lambda>(name, ck). map_option (CookieInvalid name) (CookieExpect_validate compiles ck)) (entries (e_Cookies e)) @
       map rows_error (enumerate 0 (e_Rows e))))"

section \<open>Loading\<close>

datatype load_error =
    GlobFailed | NoCaseFiles | ReadFailed string | YAMLFailed string
  | InvalidCase string case_error | DuplicateCase string string string

text \<open>The cases of one file: the accepted ones with their source, and the names seen with theirs.\<close>

fun load_cases :: "(Case \<Rightarrow> case_error option) \<Rightarrow> string \<Rightarrow> (string \<times> string) list \<Rightarrow> Case list \<Rightarrow>
    load_error + Case list \<times> (string \<times> string) list" where
  "load_cases valid p seen [] = Inr ([], seen)"
| "load_cases valid p seen (c0 # cs) =
     (let c = c0\<lparr>c_SourceFile := Base p\<rparr> in
      case valid c of
        Some e \<Rightarrow> Inl (InvalidCase p e)
      | None \<Rightarrow>
        (case map_of seen (c_Name c) of
           Some prev \<Rightarrow> Inl (DuplicateCase p (c_Name c) prev)
         | None \<Rightarrow> res_bind (load_cases valid p ((c_Name c, c_SourceFile c) # seen) cs)
             (\<lambda>(rest, seen'). Inr (c # rest, seen'))))"

fun load_files :: "(Case \<Rightarrow> case_error option) \<Rightarrow> (string \<Rightarrow> string option) \<Rightarrow> (string \<Rightarrow> Case list option) \<Rightarrow>
    (string \<times> string) list \<Rightarrow> string list \<Rightarrow> load_error + Case list" where
  "load_files valid ReadFile Unmarshal seen [] = Inr []"
| "load_files valid ReadFile Unmarshal seen (p # ps) =
     (case ReadFile p of
        None \<Rightarrow> Inl (ReadFailed p)
      | Some b \<Rightarrow>
        (case Unmarshal b of
           None \<Rightarrow> Inl (YAMLFailed p)
         | Some cases \<Rightarrow> res_bind (load_cases valid p seen cases)
             (\<lambda>(loaded, seen'). res_bind (load_files valid ReadFile Unmarshal seen' ps) (\<lambda>rest. Inr (loaded @ rest)))))"

definition Load_dir :: "(nat \<Rightarrow> nat) \<Rightarrow> (string \<Rightarrow> bool) \<Rightarrow> string list option \<Rightarrow> (string \<Rightarrow> string option) \<Rightarrow>
    (string \<Rightarrow> Case list option) \<Rightarrow> load_error + Case list" where
  "Load_dir ufold compiles glob ReadFile Unmarshal =
     (case glob of
        None \<Rightarrow> Inl GlobFailed
      | Some paths \<Rightarrow>
        if paths = [] then Inl NoCaseFiles
        else load_files (Case_validate ufold compiles) ReadFile Unmarshal [] (sort paths))"

section \<open>What an accepted case asserts\<close>

lemma first_error_None [simp]: "first_error es = None \<longleftrightarrow> (\<forall>e \<in> set es. e = None)"
  by (induction es rule: first_error.induct) auto

lemma fails_if_simps [simp]: "fails_if b e = None \<longleftrightarrow> \<not> b" "fails_if True e = Some e" "fails_if False e = None"
  by (simp_all add: fails_if_def)

lemma validate_status:
  assumes "Case_validate ufold compiles c = None"
  shows "status_error c = None"
  using assms by (simp add: Case_validate_def Let_def)

lemma status_pinned:
  assumes "status_error c = None" "b \<in> {''go'', ''kotlin''}"
  shows "StatusFor (c_Expect c) b \<noteq> 0"
  using assms by (auto simp: status_error_def StatusFor_def Let_def split: option.splits if_splits)

lemma status_by_backend_differs:
  assumes "status_error c = None" "e_StatusByBackend (c_Expect c) \<noteq> None"
  shows "StatusFor (c_Expect c) ''go'' \<noteq> StatusFor (c_Expect c) ''kotlin''" "c_Permit c \<noteq> []"
  using assms by (auto simp: status_error_def StatusFor_def Let_def split: if_splits)

lemma validate_same_as_for:
  assumes "Case_validate ufold compiles c = None" "(b, s) \<in> set (e_SameAsFor (c_Expect c))"
  obtains r where "s = Some r" "same_as_error ufold c (AtSameAsFor b) r = None"
proof -
  have "\<forall>x \<in> set (e_SameAsFor (c_Expect c)). (case x of (backend, s) \<Rightarrow>
      case s of None \<Rightarrow> Some (NilRequest (AtSameAsFor backend)) | Some s' \<Rightarrow> same_as_error ufold c (AtSameAsFor backend) s') = None"
    using assms(1) by (simp add: Case_validate_def Let_def ball_Un)
  from bspec [OF this assms(2)] show thesis using that by (cases s) simp_all
qed

lemma validate_same_as:
  assumes "Case_validate ufold compiles c = None" "SameAsRequest (c_Expect c) b = Some r"
  shows "Request_validate ufold r = None \<and> \<not> DeepEqual r (c_Request c)"
proof (cases "map_of (e_SameAsFor (c_Expect c)) b")
  case None
  then have "e_SameAs (c_Expect c) = Some r" using assms(2) by (simp add: SameAsRequest_def)
  then show ?thesis using assms(1) by (simp add: Case_validate_def Let_def same_as_error_def)
next
  case (Some r')
  then have "(b, Some r) \<in> set (e_SameAsFor (c_Expect c))"
    using assms(2) by (auto simp: SameAsRequest_def dest: map_of_SomeD)
  from validate_same_as_for [OF assms(1) this] show ?thesis by (auto simp: same_as_error_def)
qed

lemma validate_step:
  assumes "Case_validate ufold compiles c = None" "i < length (c_Given c)"
  shows "step_error ufold c (i, c_Given c ! i) = None"
proof -
  have "(i, c_Given c ! i) \<in> set (enumerate 0 (c_Given c))" using assms(2) by (simp add: in_set_enumerate_eq)
  then show ?thesis using assms(1) by (simp add: Case_validate_def Let_def ball_Un)
qed

lemma validate_outage:
  assumes "Case_validate ufold compiles c = None" "i < length (c_Given c)" "s_Outage (c_Given c ! i)"
  shows "Suc i = length (c_Given c)"
  using validate_step [OF assms(1,2)] assms(3) by (auto simp: step_error_def Let_def split: if_splits)

lemma load_cases_sound:
  assumes "load_cases valid p seen cs = Inr (cs', seen')" "distinct (map fst seen)"
  shows "list_all (\<lambda>c. valid c = None) cs' \<and> map fst seen' = rev (map c_Name cs') @ map fst seen \<and> distinct (map fst seen')"
  using assms
proof (induction cs arbitrary: seen cs')
  case (Cons c0 cs)
  let ?c = "c0\<lparr>c_SourceFile := Base p\<rparr>"
  obtain rest where r: "valid ?c = None" "map_of seen (c_Name c0) = None"
    "load_cases valid p ((c_Name c0, Base p) # seen) cs = Inr (rest, seen')" "cs' = ?c # rest"
    using Cons.prems(1) by (auto simp: Let_def res_bind_eq_Inr split: option.splits)
  then have "distinct (map fst ((c_Name c0, Base p) # seen))"
    using Cons.prems(2) by (simp add: map_of_eq_None_iff)
  note IH = Cons.IH [OF r(3) this]
  then have "map fst seen' = rev (map c_Name cs') @ map fst seen"
    unfolding r(4) by simp
  moreover have "list_all (\<lambda>c. valid c = None) cs'" using IH r(1) unfolding r(4) by simp
  ultimately show ?case using IH by blast
qed simp

lemma load_files_sound:
  assumes "load_files valid ReadFile Unmarshal seen ps = Inr cs" "distinct (map fst seen)"
  shows "list_all (\<lambda>c. valid c = None) cs \<and> distinct (rev (map c_Name cs) @ map fst seen)"
  using assms
proof (induction ps arbitrary: seen cs)
  case (Cons p ps)
  then obtain cases loaded seen' rest where l: "load_cases valid p seen cases = Inr (loaded, seen')"
    and r: "load_files valid ReadFile Unmarshal seen' ps = Inr rest" "cs = loaded @ rest"
    by (auto simp: res_bind_eq_Inr split: option.splits)
  note s = load_cases_sound [OF l Cons.prems(2)]
  have "distinct (rev (map c_Name rest) @ map fst seen')" using Cons.IH [OF r(1)] s by blast
  then have "distinct (rev (map c_Name cs) @ map fst seen)"
    using s unfolding r(2) by (simp only: map_append rev_append append_assoc)
  then show ?case using Cons.IH [OF r(1)] s r(2) by (metis list_all_append)
qed simp

lemma Load_dir_sound:
  assumes "Load_dir ufold compiles glob ReadFile Unmarshal = Inr cs"
  shows "list_all (\<lambda>c. Case_validate ufold compiles c = None) cs" "distinct (map c_Name cs)"
proof -
  obtain ps where "load_files (Case_validate ufold compiles) ReadFile Unmarshal [] ps = Inr cs"
    using assms by (auto simp: Load_dir_def split: option.splits if_splits)
  from load_files_sound [OF this]
  show "list_all (\<lambda>c. Case_validate ufold compiles c = None) cs" "distinct (map c_Name cs)" by simp_all
qed

lemma Load_dir_valid:
  "Load_dir ufold compiles glob ReadFile Unmarshal = Inr cs \<Longrightarrow> c \<in> set cs \<Longrightarrow> Case_validate ufold compiles c = None"
  using Load_dir_sound(1) by (fastforce simp: list_all_iff)

text \<open>
  C38. A loaded case file asserts something: the names are distinct, and each case has a known
  profile, a status for either backend, no comparison with its own request and an outage only as
  the last thing done before the request.
\<close>

theorem loaded_cases_assert:
  assumes "Load_dir ufold compiles glob ReadFile Unmarshal = Inr cs"
  shows "distinct (map c_Name cs) \<and>
    (\<forall>c \<in> set cs. ProfileOf c \<in> set Profiles \<and>
      (\<forall>b \<in> {''go'', ''kotlin''}. StatusFor (c_Expect c) b \<noteq> 0) \<and>
      (\<forall>b r. SameAsRequest (c_Expect c) b = Some r \<longrightarrow> \<not> DeepEqual r (c_Request c)) \<and>
      (\<forall>i < length (c_Given c). s_Outage (c_Given c ! i) \<longrightarrow> Suc i = length (c_Given c)))"
proof -
  note l = Load_dir_sound [OF assms]
  have "ProfileOf c \<in> set Profiles" if "Case_validate ufold compiles c = None" for c
    using that by (simp add: Case_validate_def Let_def)
  then have "ProfileOf c \<in> set Profiles \<and>
      (\<forall>b \<in> {''go'', ''kotlin''}. StatusFor (c_Expect c) b \<noteq> 0) \<and>
      (\<forall>b r. SameAsRequest (c_Expect c) b = Some r \<longrightarrow> \<not> DeepEqual r (c_Request c)) \<and>
      (\<forall>i < length (c_Given c). s_Outage (c_Given c ! i) \<longrightarrow> Suc i = length (c_Given c))"
    if "Case_validate ufold compiles c = None" for c
    using that validate_status [OF that, THEN status_pinned] validate_same_as [OF that] validate_outage [OF that] by blast
  then show ?thesis using l by (simp add: list_all_iff)
qed

definition health_case :: "string \<Rightarrow> Case" where
  "health_case name =
     \<lparr>c_Name = name, c_Issue = [], c_Profile = [], c_Permit = [], c_Given = [],
      c_Request = \<lparr>q_Method = ''GET'', q_Path = ''/health'', q_RawTarget = [], q_Headers = None, q_HeadersHex = None,
        q_Body = [], q_Pad = None\<rparr>,
      c_Expect = \<lparr>e_Status = 200, e_StatusByBackend = None, e_Headers = [], e_BodyJSON = None, e_BodyRaw = [],
        e_BodyEmpty = False, e_SameAs = None, e_SameAsFor = [], e_Cookies = None, e_Rows = []\<rparr>,
      c_SourceFile = []\<rparr>"

lemma health_case_valid:
  assumes "TrimSpace name \<noteq> []"
  shows "Case_validate ufold compiles ((health_case name)\<lparr>c_SourceFile := src\<rparr>) = None"
  using assms by (simp add: Case_validate_def health_case_def Let_def Request_validate_def target_error_def
      HasPrefix_def pad_error_def entries_def status_error_def ProfileOf_def Profiles_def)

text \<open>One file \<open>health.yaml\<close> with the cases \<open>b\<close> and \<open>a\<close>, in this order.\<close>

definition two_cases :: "load_error + Case list" where
  "two_cases = Load_dir id (\<lambda>_. True) (Some [''cases/health.yaml'']) (\<lambda>_. Some [])
     (\<lambda>_. Some [health_case ''b'', health_case ''a''])"

lemma two_cases_eq:
  "two_cases = Inr [(health_case ''b'')\<lparr>c_SourceFile := ''health.yaml''\<rparr>, (health_case ''a'')\<lparr>c_SourceFile := ''health.yaml''\<rparr>]"
proof -
  have t: "TrimSpace ''a'' \<noteq> []" "TrimSpace ''b'' \<noteq> []"
    by (simp_all add: TrimSpace_ascii is_ascii_def trim_both_def IsSpace_def)
  have "c_Name ((health_case n)\<lparr>c_SourceFile := src\<rparr>) = n" for n src by (simp add: health_case_def)
  then show ?thesis
    by (simp add: two_cases_def Load_dir_def health_case_valid [OF t(1)] health_case_valid [OF t(2)] Base_def Let_def)
qed

theorem loaded_cases_assert_witness:
  "\<exists>cs. two_cases = Inr cs \<and> distinct (map c_Name cs) \<and> StatusFor (c_Expect (hd cs)) ''go'' \<noteq> 0"
proof -
  obtain cs where cs: "two_cases = Inr cs" "cs \<noteq> []" using two_cases_eq by simp
  from loaded_cases_assert [OF cs(1) [unfolded two_cases_def]] cs show ?thesis by (cases cs) auto
qed

text \<open>The cases as they stand in a file.\<close>

definition file_cases :: "(string \<Rightarrow> string option) \<Rightarrow> (string \<Rightarrow> Case list option) \<Rightarrow> string \<Rightarrow> Case list" where
  "file_cases ReadFile Unmarshal p =
     (case Option.bind (ReadFile p) Unmarshal of None \<Rightarrow> [] | Some cases \<Rightarrow> cases)"

lemma load_cases_names:
  "load_cases valid p seen cs = Inr (cs', seen') \<Longrightarrow> map c_Name cs' = map c_Name cs"
  by (induction cs arbitrary: seen cs') (fastforce simp: Let_def res_bind_eq_Inr split: option.splits)+

lemma load_files_names:
  "load_files valid ReadFile Unmarshal seen ps = Inr cs \<Longrightarrow>
   map c_Name cs = concat (map (\<lambda>p. map c_Name (file_cases ReadFile Unmarshal p)) ps)"
  by (induction ps arbitrary: seen cs)
    (auto simp: file_cases_def res_bind_eq_Inr load_cases_names split: option.splits)

text \<open>
  Cases are run in the order of their files' names and, within a file, in the order they are
  written in: none is lost, and they are not sorted by name.
\<close>

theorem loaded_in_file_order:
  assumes "Load_dir ufold compiles (Some paths) ReadFile Unmarshal = Inr cs"
  shows "map c_Name cs = concat (map (\<lambda>p. map c_Name (file_cases ReadFile Unmarshal p)) (sort paths))"
  using assms load_files_names by (auto simp: Load_dir_def split: if_splits)

theorem loaded_in_file_order_witness:
  "\<exists>cs. two_cases = Inr cs \<and> map c_Name cs = [''b'', ''a''] \<and> \<not> sorted (map c_Name cs)"
proof -
  obtain cs where cs: "two_cases = Inr cs" using two_cases_eq by simp
  from loaded_in_file_order [OF this [unfolded two_cases_def]] have m: "map c_Name cs = [''b'', ''a'']"
    by (simp add: file_cases_def health_case_def)
  have "\<not> sorted [''b'', ''a'']" by (simp add: less_eq_char_def)
  then show ?thesis using cs unfolding m [symmetric] by blast
qed

section \<open>The padded body\<close>

lemma HasPrefix_length: "HasPrefix s p \<Longrightarrow> length p \<le> length s"
  by (auto simp: HasPrefix_def dest: arg_cong [where f = length])

lemma Index_bound: "Index s sub = Some i \<Longrightarrow> i + length sub \<le> length s"
  by (induction s arbitrary: i) (auto dest: HasPrefix_length split: if_splits)

lemma Count_Index: "0 < Count sub s \<Longrightarrow> Index s sub \<noteq> None"
  by (induction sub s rule: Count.induct) (auto split: if_splits)

text \<open>
  The size of an oversized body is the one the case names: the body of an accepted request is
  its text with the one pad token replaced by \<open>count\<close> copies of the padding.
\<close>

theorem padded_body_size:
  assumes "Request_validate ufold r = None" "q_Pad r = Some p"
  shows "int (length (SentBody r)) = int (length (q_Body r)) - 5 + pad_Count p * int (length (pad_With p))"
proof -
  have p: "0 < pad_Count p" "0 < Count padToken (q_Body r)"
    using assms by (simp_all add: Request_validate_def pad_error_def)
  obtain i where i: "Index (q_Body r) padToken = Some i" using Count_Index [OF p(2)] by blast
  have "length (Repeat (pad_With p) (pad_Count p)) = nat (pad_Count p) * length (pad_With p)"
    by (simp add: Repeat_def length_concat sum_list_replicate)
  then show ?thesis
    using i p(1) Index_bound [OF i] assms(2)
    by (simp add: SentBody_def Replace1_def padToken_def)
qed

theorem padded_body_size_witness:
  "length (SentBody \<lparr>q_Method = ''POST'', q_Path = ''/x'', q_RawTarget = [], q_Headers = None, q_HeadersHex = None,
     q_Body = ''a{pad}'', q_Pad = Some \<lparr>pad_With = ''xy'', pad_Count = 3\<rparr>\<rparr>) = 7"
  using padded_body_size [of id "\<lparr>q_Method = ''POST'', q_Path = ''/x'', q_RawTarget = [], q_Headers = None, q_HeadersHex = None,
     q_Body = ''a{pad}'', q_Pad = Some \<lparr>pad_With = ''xy'', pad_Count = 3\<rparr>\<rparr>" "\<lparr>pad_With = ''xy'', pad_Count = 3\<rparr>"]
  by (simp add: Request_validate_def target_error_def HasPrefix_def pad_error_def entries_def padToken_def)

end
