(* ===== verification/Conf_Permitted.thy ===== *)
theory Conf_Permitted
  imports Conf_Case
begin

text \<open>
  The permitted differences of the conformance harness (\<open>contract/conformance/permitted.go\<close>):
  the entries, their validation and loading, what each lets differ, and the check that no
  permission leaves a case blind.

  \<open>ulow\<close> is Unicode's lower case, as \<open>strings.ToLower\<close> has it. A Go map is an association list of
  distinct keys in the order it is iterated in.
\<close>

section \<open>Entries\<close>

record PermittedDifference =
  pd_Header :: string
  pd_Name :: string
  pd_Headers :: "string list"
  pd_Body :: bool
  pd_Status :: bool
  pd_Column :: string
  pd_Why :: string
  pd_Issue :: string
  pd_Provisional :: bool

record PermittedSet =
  byHeader :: "(string \<times> PermittedDifference) list"
  byName :: "(string \<times> PermittedDifference) list"
  byColumn :: "(string \<times> PermittedDifference) list"

datatype permit_error =
    SeveralKinds | NoKind | ColumnForm | NoWhy | ProvisionalNoIssue | ScopedFields | NamedNoIssue | PermitsNothing
  | DuplicateName string | DuplicateColumn string | DuplicateHeader string | FileUnreadable | FileNotYAML

text \<open>\<open>strings.TrimSpace(s) != ""\<close>.\<close>

definition given :: "string \<Rightarrow> bool" where
  "given s \<longleftrightarrow> TrimSpace s \<noteq> []"

definition column_form :: "string \<Rightarrow> bool" where
  "column_form s = (case Cut s (CHR ''.'') of (t, c, ok) \<Rightarrow> ok \<and> t \<noteq> [] \<and> c \<noteq> [] \<and> \<not> Contains c ''.'')"

definition Permitted_validate :: "PermittedDifference \<Rightarrow> permit_error option" where
  "Permitted_validate e =
     (let hasHeader = given (pd_Header e); hasName = given (pd_Name e); hasColumn = given (pd_Column e);
          kinds = length (filter id [hasHeader, hasName, hasColumn]);
          scoped = pd_Headers e \<noteq> [] \<or> pd_Body e \<or> pd_Status e
      in first_error
        [fails_if (1 < kinds) SeveralKinds,
         fails_if (kinds = 0) NoKind,
         fails_if (hasColumn \<and> \<not> column_form (pd_Column e)) ColumnForm,
         fails_if (\<not> given (pd_Why e)) NoWhy,
         fails_if (pd_Provisional e \<and> \<not> given (pd_Issue e)) ProvisionalNoIssue,
         fails_if ((hasHeader \<or> hasColumn) \<and> scoped) ScopedFields,
         fails_if (hasName \<and> \<not> given (pd_Issue e)) NamedNoIssue,
         fails_if (hasName \<and> \<not> scoped) PermitsNothing])"

section \<open>Loading\<close>

text \<open>A new entry of a map.\<close>

definition put_new :: "string \<Rightarrow> 'v \<Rightarrow> (string \<times> 'v) list \<Rightarrow> (string \<times> 'v) list" where
  "put_new k v m = m @ [(k, v)]"

fun load_entries :: "(nat \<Rightarrow> nat) \<Rightarrow> PermittedSet \<Rightarrow> PermittedDifference list \<Rightarrow> permit_error + PermittedSet" where
  "load_entries ulow p [] = Inr p"
| "load_entries ulow p (e # es) =
     (case Permitted_validate e of
        Some err \<Rightarrow> Inl err
      | None \<Rightarrow>
        if pd_Name e \<noteq> [] then
          (if map_of (byName p) (pd_Name e) \<noteq> None then Inl (DuplicateName (pd_Name e))
           else load_entries ulow (p\<lparr>byName := put_new (pd_Name e) e (byName p)\<rparr>) es)
        else if pd_Column e \<noteq> [] then
          (if map_of (byColumn p) (pd_Column e) \<noteq> None then Inl (DuplicateColumn (pd_Column e))
           else load_entries ulow (p\<lparr>byColumn := put_new (pd_Column e) e (byColumn p)\<rparr>) es)
        else let key = ToLower ulow (pd_Header e) in
          if map_of (byHeader p) key \<noteq> None then Inl (DuplicateHeader (pd_Header e))
          else load_entries ulow (p\<lparr>byHeader := put_new key e (byHeader p)\<rparr>) es)"

definition LoadPermitted :: "(nat \<Rightarrow> nat) \<Rightarrow> string option \<Rightarrow> (string \<Rightarrow> PermittedDifference list option) \<Rightarrow>
    permit_error + PermittedSet" where
  "LoadPermitted ulow file Unmarshal =
     (case file of
        None \<Rightarrow> Inl FileUnreadable
      | Some b \<Rightarrow>
        (case Unmarshal b of
           None \<Rightarrow> Inl FileNotYAML
         | Some es \<Rightarrow> load_entries ulow \<lparr>byHeader = [], byName = [], byColumn = []\<rparr> es))"

section \<open>What may differ\<close>

definition Allows :: "(nat \<Rightarrow> nat) \<Rightarrow> PermittedSet \<Rightarrow> string \<Rightarrow> bool" where
  "Allows ulow p header \<longleftrightarrow> map_of (byHeader p) (ToLower ulow header) \<noteq> None"

definition MasksColumn :: "PermittedSet \<Rightarrow> string \<Rightarrow> string \<Rightarrow> bool" where
  "MasksColumn p table column \<longleftrightarrow> map_of (byColumn p) (table @ ''.'' @ column) \<noteq> None"

text \<open>The zero value of a missing entry.\<close>

definition no_difference :: PermittedDifference where
  "no_difference = \<lparr>pd_Header = [], pd_Name = [], pd_Headers = [], pd_Body = False, pd_Status = False, pd_Column = [],
     pd_Why = [], pd_Issue = [], pd_Provisional = False\<rparr>"

definition named :: "PermittedSet \<Rightarrow> string \<Rightarrow> PermittedDifference" where
  "named p n = (case map_of (byName p) n of None \<Rightarrow> no_difference | Some e \<Rightarrow> e)"

definition ForCase :: "(nat \<Rightarrow> nat) \<Rightarrow> PermittedSet \<Rightarrow> Case \<Rightarrow> (string \<Rightarrow> bool) \<times> bool \<times> bool" where
  "ForCase ulow p c =
     (let extra = concat (map (\<lambda>n. map (ToLower ulow) (pd_Headers (named p n))) (c_Permit c))
      in (\<lambda>h. Allows ulow p h \<or> ToLower ulow h \<in> set extra,
          list_ex (\<lambda>n. pd_Body (named p n)) (c_Permit c),
          list_ex (\<lambda>n. pd_Status (named p n)) (c_Permit c)))"

section \<open>The cross-check\<close>

datatype cross_error =
    StatusNotPermitted string | Undefined string string | BodyUnpinned string string | BodyPinnedNotOnGo string string
  | StatusNotByBackend string string | NeverCited string

definition other_body_pin :: "Expect \<Rightarrow> bool" where
  "other_body_pin e \<longleftrightarrow> e_SameAs e \<noteq> None \<or> e_BodyJSON e \<noteq> None \<or> e_BodyRaw e \<noteq> [] \<or> e_BodyEmpty e"

definition permit_check :: "PermittedSet \<Rightarrow> Case \<Rightarrow> string \<Rightarrow> cross_error option" where
  "permit_check p c n =
     (case map_of (byName p) n of
        None \<Rightarrow> Some (Undefined (c_Name c) n)
      | Some e \<Rightarrow> first_error
          [fails_if (pd_Body e \<and> \<not> other_body_pin (c_Expect c) \<and> e_SameAsFor (c_Expect c) = []) (BodyUnpinned (c_Name c) n),
           fails_if (pd_Body e \<and> \<not> other_body_pin (c_Expect c) \<and> map_of (e_SameAsFor (c_Expect c)) ''go'' = None)
             (BodyPinnedNotOnGo (c_Name c) n),
           fails_if (pd_Status e \<and> e_StatusByBackend (c_Expect c) = None) (StatusNotByBackend (c_Name c) n)])"

definition case_check :: "PermittedSet \<Rightarrow> Case \<Rightarrow> cross_error option" where
  "case_check p c = first_error (
     [fails_if (e_StatusByBackend (c_Expect c) \<noteq> None \<and> \<not> list_ex (\<lambda>n. pd_Status (named p n)) (c_Permit c))
        (StatusNotPermitted (c_Name c))] @
     map (permit_check p c) (c_Permit c))"

definition CheckPermits :: "Case list \<Rightarrow> PermittedSet \<Rightarrow> cross_error option" where
  "CheckPermits cs p =
     (let cited = concat (map c_Permit cs) in first_error (
        map (case_check p) cs @ map (\<lambda>(n, _). fails_if (n \<notin> set cited) (NeverCited n)) (byName p)))"

definition Provisional :: "PermittedSet \<Rightarrow> PermittedDifference list" where
  "Provisional p =
     concat (map (\<lambda>m. filter pd_Provisional (map snd m)) [byHeader p, byName p, byColumn p])"

section \<open>No permission leaves a case blind\<close>

lemma CheckPermits_case:
  "CheckPermits cs p = None \<Longrightarrow> c \<in> set cs \<Longrightarrow> case_check p c = None"
  by (simp add: CheckPermits_def Let_def ball_Un)

lemma CheckPermits_cited:
  "CheckPermits cs p = None \<Longrightarrow> (n, e) \<in> set (byName p) \<Longrightarrow> \<exists>c \<in> set cs. n \<in> set (c_Permit c)"
  by (fastforce simp: CheckPermits_def Let_def ball_Un)

lemma case_check_permit:
  assumes "case_check p c = None" "n \<in> set (c_Permit c)"
  obtains e where "map_of (byName p) n = Some e" "named p n = e"
    "pd_Body e \<Longrightarrow> other_body_pin (c_Expect c) \<or> map_of (e_SameAsFor (c_Expect c)) ''go'' \<noteq> None"
    "pd_Status e \<Longrightarrow> e_StatusByBackend (c_Expect c) \<noteq> None"
proof -
  have "permit_check p c n = None" using assms by (simp add: case_check_def)
  then show thesis using that by (auto simp: permit_check_def named_def split: option.splits)
qed

lemma case_check_status:
  assumes "case_check p c = None"
  shows "list_ex (\<lambda>n. pd_Status (named p n)) (c_Permit c) \<longleftrightarrow> e_StatusByBackend (c_Expect c) \<noteq> None"
proof
  assume "list_ex (\<lambda>n. pd_Status (named p n)) (c_Permit c)"
  then obtain n where "n \<in> set (c_Permit c)" "pd_Status (named p n)" by (auto simp: list_ex_iff)
  then show "e_StatusByBackend (c_Expect c) \<noteq> None" using case_check_permit [OF assms] by metis
next
  assume "e_StatusByBackend (c_Expect c) \<noteq> None"
  then show "list_ex (\<lambda>n. pd_Status (named p n)) (c_Permit c)" using assms by (simp add: case_check_def)
qed

text \<open>What pins the body of Go's answer.\<close>

definition go_body_pinned :: "Expect \<Rightarrow> bool" where
  "go_body_pinned e \<longleftrightarrow> SameAsRequest e ''go'' \<noteq> None \<or> e_BodyJSON e \<noteq> None \<or> e_BodyRaw e \<noteq> [] \<or> e_BodyEmpty e"

lemma go_pin:
  assumes "Case_validate ufold compiles c = None"
    and "other_body_pin (c_Expect c) \<or> map_of (e_SameAsFor (c_Expect c)) ''go'' \<noteq> None"
  shows "go_body_pinned (c_Expect c)"
proof (cases "map_of (e_SameAsFor (c_Expect c)) ''go''")
  case None
  then show ?thesis using assms(2) by (auto simp: go_body_pinned_def other_body_pin_def SameAsRequest_def)
next
  case (Some r)
  then have "r \<noteq> None" using validate_same_as_for [OF assms(1)] map_of_SomeD by fastforce
  then show ?thesis using Some by (simp add: go_body_pinned_def SameAsRequest_def)
qed

text \<open>
  No permission leaves a case blind: of loaded cases that pass the cross-check, a difference
  in status is let through exactly where the case pins two different statuses, and where a
  difference in the body is let through, something pins the body of Go's answer.
\<close>

theorem no_blind_difference:
  assumes "Load_dir ufold compiles glob ReadFile Unmarshal = Inr cs" "CheckPermits cs p = None" "c \<in> set cs"
    and "ForCase ulow p c = (allowsHeader, allowsBody, allowsStatus)"
  shows "(allowsStatus \<longleftrightarrow> StatusFor (c_Expect c) ''go'' \<noteq> StatusFor (c_Expect c) ''kotlin'') \<and>
    (allowsBody \<longrightarrow> go_body_pinned (c_Expect c))"
proof -
  have k: "case_check p c = None" by (rule CheckPermits_case [OF assms(2,3)])
  have v: "Case_validate ufold compiles c = None" by (rule Load_dir_valid [OF assms(1,3)])
  have a: "allowsBody = list_ex (\<lambda>n. pd_Body (named p n)) (c_Permit c)"
    "allowsStatus = list_ex (\<lambda>n. pd_Status (named p n)) (c_Permit c)"
    using assms(4) by (auto simp: ForCase_def Let_def)
  have "e_StatusByBackend (c_Expect c) = None \<Longrightarrow> StatusFor (c_Expect c) ''go'' = StatusFor (c_Expect c) ''kotlin''"
    by (simp add: StatusFor_def)
  then have "allowsStatus \<longleftrightarrow> StatusFor (c_Expect c) ''go'' \<noteq> StatusFor (c_Expect c) ''kotlin''"
    using case_check_status [OF k] status_by_backend_differs [OF validate_status [OF v]] a(2) by blast
  moreover have "go_body_pinned (c_Expect c)" if b: "allowsBody"
  proof -
    obtain n where n: "n \<in> set (c_Permit c)" "pd_Body (named p n)" using b a(1) by (auto simp: list_ex_iff)
    then show ?thesis using case_check_permit [OF k n(1)] go_pin [OF v] by metis
  qed
  ultimately show ?thesis by blast
qed

definition scoped_entry :: PermittedDifference where
  "scoped_entry = no_difference\<lparr>pd_Name := ''p'', pd_Status := True, pd_Why := ''w'', pd_Issue := ''64''\<rparr>"

definition split_case :: Case where
  "split_case = (health_case ''a'')\<lparr>c_Permit := [''p''],
     c_Expect := (c_Expect (health_case ''a''))\<lparr>e_Status := 0, e_StatusByBackend := Some [(''go'', 404), (''kotlin'', 400)]\<rparr>\<rparr>"

theorem no_blind_difference_witness:
  "\<exists>cs. Load_dir id (\<lambda>_. True) (Some [''a.yaml'']) (\<lambda>_. Some []) (\<lambda>_. Some [split_case]) = Inr cs \<and>
     CheckPermits cs \<lparr>byHeader = [], byName = [(''p'', scoped_entry)], byColumn = []\<rparr> = None \<and>
     StatusFor (c_Expect (hd cs)) ''go'' \<noteq> StatusFor (c_Expect (hd cs)) ''kotlin''"
proof -
  let ?c = "split_case\<lparr>c_SourceFile := ''a.yaml''\<rparr>"
    and ?p = "\<lparr>byHeader = [], byName = [(''p'', scoped_entry)], byColumn = []\<rparr>"
  have "TrimSpace ''a'' \<noteq> []" by (simp add: TrimSpace_ascii is_ascii_def trim_both_def IsSpace_def)
  then have "Case_validate id (\<lambda>_. True) ?c = None"
    by (simp add: Case_validate_def split_case_def health_case_def Let_def Request_validate_def target_error_def
        HasPrefix_def pad_error_def entries_def status_error_def ProfileOf_def Profiles_def entry0_def)
  then have l: "Load_dir id (\<lambda>_. True) (Some [''a.yaml'']) (\<lambda>_. Some []) (\<lambda>_. Some [split_case]) = Inr [?c]"
    by (simp add: Load_dir_def Base_def Let_def)
  have k: "CheckPermits [?c] ?p = None"
    by (simp add: CheckPermits_def case_check_def permit_check_def named_def split_case_def scoped_entry_def no_difference_def
        Let_def)
  have "snd (snd (ForCase id ?p ?c))"
    by (simp add: ForCase_def split_case_def named_def scoped_entry_def Let_def)
  then show ?thesis
    using no_blind_difference [OF l k, of ?c id] l k by (cases "ForCase id ?p ?c") auto
qed

section \<open>The list is what the file says\<close>

text \<open>What the loop has put into the three maps.\<close>

definition column_entry :: "PermittedDifference \<Rightarrow> bool" where
  "column_entry e \<longleftrightarrow> pd_Name e = [] \<and> pd_Column e \<noteq> []"

definition header_entry :: "PermittedDifference \<Rightarrow> bool" where
  "header_entry e \<longleftrightarrow> pd_Name e = [] \<and> pd_Column e = []"

lemma load_entries_maps:
  assumes "load_entries ulow p es = Inr p'"
  shows "list_all (\<lambda>e. Permitted_validate e = None) es \<and>
    byName p' = byName p @ map (\<lambda>e. (pd_Name e, e)) (filter (\<lambda>e. pd_Name e \<noteq> []) es) \<and>
    byColumn p' = byColumn p @ map (\<lambda>e. (pd_Column e, e)) (filter column_entry es) \<and>
    byHeader p' = byHeader p @ map (\<lambda>e. (ToLower ulow (pd_Header e), e)) (filter header_entry es)"
  using assms
  by (induction ulow p es rule: load_entries.induct)
    (auto simp: Let_def put_new_def column_entry_def header_entry_def split: option.splits if_splits)

text \<open>
  The list permits what it says and nothing else: a header may differ on every case exactly
  when an entry for it, in whatever case, is on the list, a column is skipped exactly when it is
  named, and every entry says why.
\<close>

theorem permitted_is_listed:
  assumes "LoadPermitted ulow (Some b) Unmarshal = Inr p" "Unmarshal b = Some es"
  shows "(Allows ulow p h \<longleftrightarrow> (\<exists>e \<in> set es. header_entry e \<and> ToLower ulow (pd_Header e) = ToLower ulow h)) \<and>
    (MasksColumn p t c \<longleftrightarrow> (\<exists>e \<in> set es. column_entry e \<and> pd_Column e = t @ ''.'' @ c)) \<and>
    (\<forall>e \<in> set es. given (pd_Why e) \<and> (pd_Provisional e \<longrightarrow> given (pd_Issue e)))"
proof -
  have "load_entries ulow \<lparr>byHeader = [], byName = [], byColumn = []\<rparr> es = Inr p"
    using assms by (simp add: LoadPermitted_def)
  note m = load_entries_maps [OF this]
  have "given (pd_Why e) \<and> (pd_Provisional e \<longrightarrow> given (pd_Issue e))" if "e \<in> set es" for e
    using m that by (auto simp: list_all_iff Permitted_validate_def Let_def)
  moreover have "Allows ulow p h \<longleftrightarrow> (\<exists>e \<in> set es. header_entry e \<and> ToLower ulow (pd_Header e) = ToLower ulow h)"
    using m by (force simp: Allows_def map_of_eq_None_iff)
  moreover have "MasksColumn p t c \<longleftrightarrow> (\<exists>e \<in> set es. column_entry e \<and> pd_Column e = t @ ''.'' @ c)"
    using m by (force simp: MasksColumn_def map_of_eq_None_iff)
  ultimately show ?thesis by blast
qed

definition date_entry :: PermittedDifference where
  "date_entry = no_difference\<lparr>pd_Header := ''Date'', pd_Why := ''w''\<rparr>"

lemma trim_both_Nil: "trim_both P xs = [] \<longleftrightarrow> list_all P xs"
proof
  assume "trim_both P xs = []"
  then have "\<forall>x \<in> set (dropWhile P xs). P x" by (simp add: trim_both_def)
  then have "dropWhile P xs = []" using hd_dropWhile [of P xs] hd_in_set by blast
  then show "list_all P xs" by (simp add: list_all_iff dropWhile_eq_Nil_conv)
qed (rule trim_both_all)

lemma given_ascii: "is_ascii s \<Longrightarrow> given s \<longleftrightarrow> \<not> list_all (\<lambda>c. IsSpace (of_char c)) s"
  by (simp add: given_def TrimSpace_ascii trim_both_Nil)

theorem permitted_is_listed_witness:
  "\<exists>p. LoadPermitted id (Some []) (\<lambda>_. Some [date_entry]) = Inr p \<and> Allows id p ''date'' \<and> \<not> MasksColumn p ''sessions'' ''id''"
proof -
  have "\<exists>p. LoadPermitted id (Some []) (\<lambda>_. Some [date_entry]) = Inr p"
    by (simp add: LoadPermitted_def date_entry_def no_difference_def Permitted_validate_def Let_def given_ascii is_ascii_def IsSpace_def)
  then obtain p where p: "LoadPermitted id (Some []) (\<lambda>_. Some [date_entry]) = Inr p" by blast
  from permitted_is_listed [OF p, of "[date_entry]" "''date''" "''sessions''" "''id''"] p show ?thesis
    by (simp add: header_entry_def column_entry_def date_entry_def no_difference_def ToLower_def is_ascii_def lower_byte_def ascii_lower_def)
qed

text \<open>
  A blank name is neither one nor none: an entry for a header whose name is a space passes the
  validation, which trims it, as an entry for the header, and is filed, untrimmed, under its name.
  The header it is for may not differ.
\<close>

lemma blank_name_hides_header:
  "\<exists>p. LoadPermitted ulow (Some []) (\<lambda>_. Some [date_entry\<lparr>pd_Name := '' ''\<rparr>]) = Inr p \<and> \<not> Allows ulow p ''Date''"
  by (simp add: LoadPermitted_def date_entry_def no_difference_def Permitted_validate_def Let_def given_ascii is_ascii_def
      IsSpace_def Allows_def)

end
