(* ===== verification/Conf_Cookie.thy ===== *)
theory Conf_Cookie
  imports Conf_Case "HOL-Library.AList" "HOL-Library.Multiset"
begin

text \<open>
  Cookies in the conformance harness (\<open>contract/conformance/cookie.go\<close>): parsing a \<open>Set-Cookie\<close>
  line, holding it to its expectation, and comparing two backends' cookies.

  A mismatch is a value of a datatype; \<open>render\<close> is the text it is reported as, which decides the
  order of the report. Instants are nanoseconds since the epoch, \<open>None\<close> the zero \<open>time.Time\<close>.
  \<open>ParseTime\<close> and \<open>ParseUnpadded\<close> are \<open>http.ParseTime\<close> and \<open>time.Parse\<close> on the layout with an
  unpadded day; \<open>matches\<close> is the compiled, anchored pattern, \<open>None\<close> when it does not compile.
\<close>

section \<open>Parsing\<close>

record SetCookie =
  sc_Name :: string
  sc_Value :: string
  sc_Attrs :: "(string \<times> string) list"
  sc_Raw :: string

definition put_attr :: "(nat \<Rightarrow> nat) \<Rightarrow> string \<Rightarrow> (string \<times> string) list \<Rightarrow> (string \<times> string) list" where
  "put_attr ulow a attrs =
     (case Cut (TrimSpace a) (CHR ''='') of (k, v, _) \<Rightarrow>
        if k = [] then attrs else AList.update (ToLower ulow (TrimSpace k)) (TrimSpace v) attrs)"

definition parse_line :: "(nat \<Rightarrow> nat) \<Rightarrow> string \<Rightarrow> SetCookie option" where
  "parse_line ulow line =
     (let parts = Split line (CHR '';'') in
      case Cut (TrimSpace (hd parts)) (CHR ''='') of (name, v, ok) \<Rightarrow>
        if \<not> ok \<or> TrimSpace name = [] then None
        else Some \<lparr>sc_Name = TrimSpace name, sc_Value = TrimSpace v, sc_Attrs = fold (put_attr ulow) (tl parts) [],
                   sc_Raw = line\<rparr>)"

text \<open>\<open>Inl\<close> the line that is unparseable.\<close>

fun ParseSetCookies :: "(nat \<Rightarrow> nat) \<Rightarrow> string list \<Rightarrow> string + SetCookie list" where
  "ParseSetCookies ulow [] = Inr []"
| "ParseSetCookies ulow (line # lines) =
     (case parse_line ulow line of
        None \<Rightarrow> Inl line
      | Some c \<Rightarrow> res_bind (ParseSetCookies ulow lines) (\<lambda>cs. Inr (c # cs)))"

section \<open>Expires\<close>

definition Second :: int where "Second = 1000000000"

definition ExpiresTolerance :: int where "ExpiresTolerance = 2 * Second"

definition ExpiresFuture :: string where "ExpiresFuture = ''future''"

text \<open>\<open>t.Sub(u)\<close> saturates.\<close>

definition time_Sub :: "int \<Rightarrow> int \<Rightarrow> int" where
  "time_Sub t u = max (- (2 ^ 63)) (min (2 ^ 63 - 1) (t - u))"

datatype expires_error = ExpiresUnparseable string | ExpiresNoDate string

definition expiresRelation :: "(string \<Rightarrow> int option) \<Rightarrow> (string \<Rightarrow> int option) \<Rightarrow> SetCookie \<Rightarrow> int option \<Rightarrow>
    expires_error + string \<times> int" where
  "expiresRelation ParseTime ParseUnpadded c date =
     (case map_of (sc_Attrs c) ''expires'' of
        None \<Rightarrow> Inr (ExpiresAbsent, 0)
      | Some raw \<Rightarrow>
        (case (case ParseTime raw of Some t \<Rightarrow> Some t | None \<Rightarrow> ParseUnpadded raw) of
           None \<Rightarrow> Inl (ExpiresUnparseable raw)
         | Some t \<Rightarrow>
           (case date of
              None \<Rightarrow> Inl (ExpiresNoDate raw)
            | Some d \<Rightarrow> if t \<le> d then Inr (ExpiresPast, 0) else Inr (ExpiresFuture, time_Sub t d))))"

section \<open>One cookie and its expectation\<close>

datatype mismatch =
    ValueDiffers string string | PatternDiffers string string | PathDiffers string string
  | DomainSent string | DomainDiffers string string | MaxAgeDiffers string bool int
  | HttpOnlyDiffers bool bool | SecureDiffers bool bool | SameSiteDiffers string string
  | ExpiresError expires_error | ExpiresNotMaxAge string | ExpiresDiffers string string string
  | AttributeUnknown string
  | SetTimes string nat nat | ValueShape string nat nat | AttrSent string string bool bool
  | ExpiresErrors string "expires_error option" "expires_error option"
  | ExpiresClass string string string string string | AttrDiffers string string string string

definition attr :: "SetCookie \<Rightarrow> string \<Rightarrow> string" where
  "attr c k = (case map_of (sc_Attrs c) k of None \<Rightarrow> [] | Some v \<Rightarrow> v)"

definition has_attr :: "SetCookie \<Rightarrow> string \<Rightarrow> bool" where
  "has_attr c k \<longleftrightarrow> map_of (sc_Attrs c) k \<noteq> None"

definition mismatch_if :: "bool \<Rightarrow> mismatch \<Rightarrow> mismatch list" where
  "mismatch_if b m = (if b then [m] else [])"

definition in_tolerance :: "int \<Rightarrow> int \<Rightarrow> bool" where
  "in_tolerance tolerance d \<longleftrightarrow> - tolerance \<le> d \<and> d \<le> tolerance"

definition known_attrs :: "string list" where
  "known_attrs = [''path'', ''domain'', ''max-age'', ''httponly'', ''secure'', ''samesite'', ''expires'']"

definition expires_mismatches :: "(expires_error + string \<times> int) \<Rightarrow> SetCookie \<Rightarrow> string \<Rightarrow> int \<Rightarrow> mismatch list" where
  "expires_mismatches rel c want maxAge =
     (case rel of
        Inl e \<Rightarrow> [ExpiresError e]
      | Inr (cls, ahead) \<Rightarrow>
        if want = ExpiresMaxAge then
          mismatch_if (cls \<noteq> ExpiresFuture \<or> \<not> in_tolerance ExpiresTolerance (wrap64 (ahead - wrap64 (maxAge * Second))))
            (ExpiresNotMaxAge (attr c ''expires''))
        else mismatch_if (cls \<noteq> want) (ExpiresDiffers (attr c ''expires'') cls want))"

text \<open>\<open>None\<close> is the panic on a nil attribute or a pattern that does not compile.\<close>

definition cookie_mismatches :: "(string \<Rightarrow> int option) \<Rightarrow> (string \<Rightarrow> int option) \<Rightarrow> (string \<Rightarrow> string \<Rightarrow> bool option) \<Rightarrow>
    SetCookie \<Rightarrow> CookieExpect \<Rightarrow> int option \<Rightarrow> mismatch list option" where
  "cookie_mismatches ParseTime ParseUnpadded matches c want date =
     (case (x_Path want, x_MaxAge want, x_HttpOnly want, x_Secure want,
            if x_ValuePattern want = [] then Some True else matches (x_ValuePattern want) (sc_Value c)) of
        (Some path, Some maxAge, Some httpOnly, Some secure, Some matched) \<Rightarrow> Some (
          (case x_Value want of None \<Rightarrow> [] | Some v \<Rightarrow> mismatch_if (sc_Value c \<noteq> v) (ValueDiffers (sc_Value c) v)) @
          mismatch_if (\<not> matched) (PatternDiffers (sc_Value c) (x_ValuePattern want)) @
          mismatch_if (attr c ''path'' \<noteq> path) (PathDiffers (attr c ''path'') path) @
          (if x_Domain want = [] \<and> has_attr c ''domain'' then [DomainSent (attr c ''domain'')]
           else mismatch_if (x_Domain want \<noteq> [] \<and> attr c ''domain'' \<noteq> x_Domain want)
             (DomainDiffers (attr c ''domain'') (x_Domain want))) @
          mismatch_if (\<not> has_attr c ''max-age'' \<or> attr c ''max-age'' \<noteq> format_int maxAge)
            (MaxAgeDiffers (attr c ''max-age'') (has_attr c ''max-age'') maxAge) @
          mismatch_if (has_attr c ''httponly'' \<noteq> httpOnly) (HttpOnlyDiffers (has_attr c ''httponly'') httpOnly) @
          mismatch_if (has_attr c ''secure'' \<noteq> secure) (SecureDiffers (has_attr c ''secure'') secure) @
          mismatch_if (attr c ''samesite'' \<noteq> x_SameSite want) (SameSiteDiffers (attr c ''samesite'') (x_SameSite want)) @
          expires_mismatches (expiresRelation ParseTime ParseUnpadded c date) c (x_Expires want) maxAge @
          map AttributeUnknown (filter (\<lambda>k. k \<notin> set known_attrs) (map fst (sc_Attrs c))))
      | _ \<Rightarrow> None)"

definition CheckCookie :: "(string \<Rightarrow> int option) \<Rightarrow> (string \<Rightarrow> int option) \<Rightarrow> (string \<Rightarrow> string \<Rightarrow> bool option) \<Rightarrow>
    (mismatch \<Rightarrow> string) \<Rightarrow> SetCookie \<Rightarrow> CookieExpect \<Rightarrow> int option \<Rightarrow> string list option" where
  "CheckCookie ParseTime ParseUnpadded matches render c want date =
     map_option (\<lambda>bad. sort (map render bad)) (cookie_mismatches ParseTime ParseUnpadded matches c want date)"

section \<open>Two backends' cookies\<close>

definition by_name :: "SetCookie list \<Rightarrow> string \<Rightarrow> SetCookie list" where
  "by_name cs n = filter (\<lambda>c. sc_Name c = n) cs"

definition all_keys :: "SetCookie \<Rightarrow> SetCookie \<Rightarrow> string list" where
  "all_keys a b = map fst (sc_Attrs a) @ filter (\<lambda>k. \<not> has_attr a k) (map fst (sc_Attrs b))"

definition error_of :: "'e + 'a \<Rightarrow> 'e option" where
  "error_of r = (case r of Inl e \<Rightarrow> Some e | Inr _ \<Rightarrow> None)"

definition expires_parity :: "string \<Rightarrow> (expires_error + string \<times> int) \<Rightarrow> (expires_error + string \<times> int) \<Rightarrow>
    string \<Rightarrow> string \<Rightarrow> mismatch list" where
  "expires_parity n ra rb av bv =
     (case (ra, rb) of
        (Inr (ca, aAhead), Inr (cb, bAhead)) \<Rightarrow>
          mismatch_if (ca \<noteq> cb \<or> \<not> in_tolerance ExpiresTolerance (wrap64 (aAhead - bAhead))) (ExpiresClass n av ca bv cb)
      | _ \<Rightarrow> [ExpiresErrors n (error_of ra) (error_of rb)])"

definition attr_parity :: "(SetCookie \<Rightarrow> int option \<Rightarrow> expires_error + string \<times> int) \<Rightarrow> string \<Rightarrow> SetCookie \<Rightarrow> SetCookie \<Rightarrow>
    int option \<Rightarrow> int option \<Rightarrow> string \<Rightarrow> mismatch list" where
  "attr_parity rel n ac bc aDate bDate k =
     (if has_attr ac k \<noteq> has_attr bc k then [AttrSent n k (has_attr ac k) (has_attr bc k)]
      else if k = ''expires'' then expires_parity n (rel ac aDate) (rel bc bDate) (attr ac k) (attr bc k)
      else mismatch_if (attr ac k \<noteq> attr bc k) (AttrDiffers n k (attr ac k) (attr bc k)))"

definition pair_parity :: "(SetCookie \<Rightarrow> int option \<Rightarrow> expires_error + string \<times> int) \<Rightarrow> string \<Rightarrow> int option \<Rightarrow> int option \<Rightarrow>
    SetCookie \<times> SetCookie \<Rightarrow> mismatch list" where
  "pair_parity rel n aDate bDate p =
     (case p of (ac, bc) \<Rightarrow>
        mismatch_if ((sc_Value ac = []) \<noteq> (sc_Value bc = []) \<or> length (sc_Value ac) \<noteq> length (sc_Value bc))
          (ValueShape n (length (sc_Value ac)) (length (sc_Value bc))) @
        concat (map (attr_parity rel n ac bc aDate bDate) (all_keys ac bc)))"

definition name_parity :: "(SetCookie \<Rightarrow> int option \<Rightarrow> expires_error + string \<times> int) \<Rightarrow> SetCookie list \<Rightarrow> SetCookie list \<Rightarrow>
    int option \<Rightarrow> int option \<Rightarrow> string \<Rightarrow> mismatch list" where
  "name_parity rel a b aDate bDate n =
     (let as = by_name a n; bs = by_name b n
      in if length as \<noteq> length bs then [SetTimes n (length as) (length bs)]
         else concat (map (pair_parity rel n aDate bDate) (zip as bs)))"

definition CookieParity :: "(string \<Rightarrow> int option) \<Rightarrow> (string \<Rightarrow> int option) \<Rightarrow> (mismatch \<Rightarrow> string) \<Rightarrow>
    SetCookie list \<Rightarrow> SetCookie list \<Rightarrow> int option \<Rightarrow> int option \<Rightarrow> string list" where
  "CookieParity ParseTime ParseUnpadded render a b aDate bDate =
     (let sorted = sort (remdups (map sc_Name a @ map sc_Name b));
          bad = concat (map (name_parity (expiresRelation ParseTime ParseUnpadded) a b aDate bDate) sorted)
      in sort (map render bad))"

section \<open>The report does not depend on a map's order\<close>

lemma mismatch_if_Nil [simp]: "mismatch_if b m = [] \<longleftrightarrow> \<not> b"
  by (simp add: mismatch_if_def)

lemma sort_map_mset: "mset xs = mset ys \<Longrightarrow> sort (map f xs) = sort (map f ys)"
  by (rule properties_for_sort) simp_all

lemma sort_Nil_iff: "sort xs = [] \<longleftrightarrow> xs = []"
  by (metis length_0_conv length_sort)

text \<open>Two cookies with the same attributes, in whatever order a map is iterated in.\<close>

definition same_attrs :: "SetCookie \<Rightarrow> SetCookie \<Rightarrow> bool" where
  "same_attrs c c' \<longleftrightarrow> sc_Value c = sc_Value c' \<and> mset (sc_Attrs c) = mset (sc_Attrs c') \<and> distinct (map fst (sc_Attrs c))"

lemma same_attrs_map_of:
  assumes "same_attrs c c'"
  shows "map_of (sc_Attrs c) = map_of (sc_Attrs c')"
proof -
  have "mset (map fst (sc_Attrs c)) = mset (map fst (sc_Attrs c'))" using assms by (simp add: same_attrs_def)
  then have "distinct (map fst (sc_Attrs c'))" using assms mset_eq_imp_distinct_iff same_attrs_def by blast
  moreover have "set (sc_Attrs c) = set (sc_Attrs c')" using assms mset_eq_setD same_attrs_def by blast
  ultimately show ?thesis using assms by (simp add: map_of_inject_set same_attrs_def)
qed

text \<open>
  The report is deterministic: whatever order Go iterates the attributes in, the same cookie
  against the same expectation gives the same list of mismatches.
\<close>

theorem check_cookie_deterministic:
  assumes "same_attrs c c'"
  shows "CheckCookie ParseTime ParseUnpadded matches render c want date = CheckCookie ParseTime ParseUnpadded matches render c' want date"
proof -
  have m: "map_of (sc_Attrs c) = map_of (sc_Attrs c')" "sc_Value c = sc_Value c'"
    using same_attrs_map_of [OF assms] assms by (simp_all add: same_attrs_def)
  then have f: "attr c = attr c'" "has_attr c = has_attr c'" "expiresRelation ParseTime ParseUnpadded c date = expiresRelation ParseTime ParseUnpadded c' date"
    by (simp_all add: attr_def has_attr_def expiresRelation_def fun_eq_iff)
  have k: "mset (sc_Attrs c) = mset (sc_Attrs c')" using assms by (simp add: same_attrs_def)
  have "rel_option (\<lambda>x y. mset x = mset y) (cookie_mismatches ParseTime ParseUnpadded matches c want date)
      (cookie_mismatches ParseTime ParseUnpadded matches c' want date)"
    unfolding cookie_mismatches_def expires_mismatches_def f m(2)
    by (simp add: k split: option.split)
  then show ?thesis
    by (cases "cookie_mismatches ParseTime ParseUnpadded matches c want date";
        cases "cookie_mismatches ParseTime ParseUnpadded matches c' want date")
      (auto simp: CheckCookie_def intro: sort_map_mset)
qed

theorem check_cookie_deterministic_witness:
  "CheckCookie (\<lambda>_. None) (\<lambda>_. None) (\<lambda>_ _. None) (\<lambda>_. ''m'') \<lparr>sc_Name = ''s'', sc_Value = [], sc_Attrs = [(''a'', []), (''b'', [])], sc_Raw = []\<rparr>
     \<lparr>x_Value = Some [], x_ValuePattern = [], x_Path = Some ''/'', x_Domain = [], x_MaxAge = Some 0,
      x_HttpOnly = Some True, x_Secure = Some True, x_SameSite = ''Lax'', x_Expires = ExpiresPast\<rparr> None =
   CheckCookie (\<lambda>_. None) (\<lambda>_. None) (\<lambda>_ _. None) (\<lambda>_. ''m'') \<lparr>sc_Name = ''s'', sc_Value = [], sc_Attrs = [(''b'', []), (''a'', [])], sc_Raw = []\<rparr>
     \<lparr>x_Value = Some [], x_ValuePattern = [], x_Path = Some ''/'', x_Domain = [], x_MaxAge = Some 0,
      x_HttpOnly = Some True, x_Secure = Some True, x_SameSite = ''Lax'', x_Expires = ExpiresPast\<rparr> None"
  by (rule check_cookie_deterministic) (simp add: same_attrs_def)

section \<open>Parity is symmetric\<close>

lemma wrap64_neg:
  assumes "in_tolerance t (wrap64 z)" "t < 2 ^ 63"
  shows "in_tolerance t (wrap64 (- z))"
proof -
  define q m where "q = (z + 2 ^ 63) div 2 ^ 64" and "m = (z + 2 ^ 63) mod (2 ^ 64 :: int)"
  have e: "z + 2 ^ 63 = 2 ^ 64 * q + m" unfolding q_def m_def by (rule mult_div_mod_eq [symmetric])
  have w: "wrap64 z = m - 2 ^ 63" by (simp add: wrap64_def m_def)
  have "- z + 2 ^ 63 = (2 ^ 64 - m) + 2 ^ 64 * (- q)" using e by simp
  then have "(- z + 2 ^ 63) mod 2 ^ 64 = (2 ^ 64 - m) mod 2 ^ 64" by (metis mod_mult_self2)
  also have "\<dots> = 2 ^ 64 - m" using assms w by (intro mod_pos_pos_trivial) (simp_all add: in_tolerance_def)
  finally have "wrap64 (- z) = 2 ^ 63 - m" by (simp add: wrap64_def)
  then show ?thesis using assms(1) w by (simp add: in_tolerance_def)
qed

lemma tolerance_sym: "in_tolerance ExpiresTolerance (wrap64 (x - y)) \<longleftrightarrow> in_tolerance ExpiresTolerance (wrap64 (y - x))"
  using wrap64_neg [of ExpiresTolerance "x - y"] wrap64_neg [of ExpiresTolerance "y - x"]
  by (auto simp: ExpiresTolerance_def Second_def)

lemma has_attr_keys: "has_attr c k \<longleftrightarrow> k \<in> fst ` set (sc_Attrs c)"
  by (simp add: has_attr_def map_of_eq_None_iff)

lemma set_all_keys: "set (all_keys a b) = set (all_keys b a)"
  by (auto simp: all_keys_def has_attr_keys)

lemma expires_parity_sym: "expires_parity n ra rb av bv = [] \<longleftrightarrow> expires_parity n rb ra bv av = []"
  by (auto simp: expires_parity_def tolerance_sym split: sum.split)

lemma attr_parity_sym: "attr_parity rel n a b d e k = [] \<longleftrightarrow> attr_parity rel n b a e d k = []"
  by (auto simp: attr_parity_def expires_parity_sym)

lemma pair_parity_sym: "pair_parity rel n d e (a, b) = [] \<longleftrightarrow> pair_parity rel n e d (b, a) = []"
  unfolding pair_parity_def using set_all_keys [of a b] attr_parity_sym [of rel n a b d e] by auto

lemma name_parity_sym: "name_parity rel a b d e n = [] \<longleftrightarrow> name_parity rel b a e d n = []"
proof (cases "length (by_name a n) = length (by_name b n)")
  case True
  have "(\<forall>p \<in> set (zip xs ys). pair_parity rel n d e p = []) \<longleftrightarrow> (\<forall>p \<in> set (zip ys xs). pair_parity rel n e d p = [])"
    if "length xs = length ys" for xs ys
    using that by (induction xs ys rule: list_induct2) (simp_all add: pair_parity_sym)
  from this [OF True] show ?thesis by (simp add: name_parity_def Let_def True)
qed (auto simp: name_parity_def Let_def)

text \<open>
  Parity is symmetric: whether two backends' cookies agree does not depend on which of them
  is called the first.
\<close>

theorem cookie_parity_symmetric:
  "CookieParity ParseTime ParseUnpadded render a b aDate bDate = [] \<longleftrightarrow>
   CookieParity ParseTime ParseUnpadded render b a bDate aDate = []"
proof -
  have "CookieParity ParseTime ParseUnpadded render a b aDate bDate = [] \<longleftrightarrow>
      (\<forall>n \<in> sc_Name ` set a \<union> sc_Name ` set b. name_parity (expiresRelation ParseTime ParseUnpadded) a b aDate bDate n = [])"
    for a b aDate bDate
    by (auto simp: CookieParity_def Let_def sort_Nil_iff)
  then show ?thesis by (simp only:) (auto simp: name_parity_sym [of _ b a])
qed

section \<open>What parity means\<close>

text \<open>
  Two cookies agree: values of one length, the same attributes with the same values, and
  an \<open>Expires\<close> that on both sides stands in the same relation to the answer's own date, at most two
  seconds apart.
\<close>

definition cookie_agrees :: "(SetCookie \<Rightarrow> int option \<Rightarrow> expires_error + string \<times> int) \<Rightarrow> int option \<Rightarrow> int option \<Rightarrow>
    SetCookie \<Rightarrow> SetCookie \<Rightarrow> bool" where
  "cookie_agrees rel aDate bDate x y \<longleftrightarrow>
     length (sc_Value x) = length (sc_Value y) \<and>
     fst ` set (sc_Attrs x) = fst ` set (sc_Attrs y) \<and>
     (\<forall>k \<in> fst ` set (sc_Attrs x). k \<noteq> ''expires'' \<longrightarrow> map_of (sc_Attrs x) k = map_of (sc_Attrs y) k) \<and>
     (''expires'' \<in> fst ` set (sc_Attrs x) \<longrightarrow>
       (\<exists>cls s t. rel x aDate = Inr (cls, s) \<and> rel y bDate = Inr (cls, t) \<and> \<bar>s - t\<bar> \<le> 2 * 10 ^ 9))"

text \<open>Of every name as many, agreeing in the order they were sent.\<close>

definition cookies_agree :: "(SetCookie \<Rightarrow> int option \<Rightarrow> expires_error + string \<times> int) \<Rightarrow> int option \<Rightarrow> int option \<Rightarrow>
    SetCookie list \<Rightarrow> SetCookie list \<Rightarrow> bool" where
  "cookies_agree rel aDate bDate as bs \<longleftrightarrow>
     (\<forall>n. list_all2 (cookie_agrees rel aDate bDate) (filter (\<lambda>c. sc_Name c = n) as) (filter (\<lambda>c. sc_Name c = n) bs))"

lemma expiresRelation_range: "expiresRelation ParseTime ParseUnpadded c date = Inr (cls, s) \<Longrightarrow> 0 \<le> s \<and> s < 2 ^ 63"
  by (auto simp: expiresRelation_def time_Sub_def split: option.splits if_splits)

lemma wrap64_small: "- (2 ^ 63) \<le> z \<Longrightarrow> z < 2 ^ 63 \<Longrightarrow> wrap64 z = z"
  by (simp add: wrap64_def)

lemma expires_parity_Nil:
  assumes "rel = expiresRelation ParseTime ParseUnpadded"
  shows "expires_parity n (rel x aDate) (rel y bDate) av bv = [] \<longleftrightarrow>
    (\<exists>cls s t. rel x aDate = Inr (cls, s) \<and> rel y bDate = Inr (cls, t) \<and> \<bar>s - t\<bar> \<le> 2 * 10 ^ 9)"
proof -
  have "wrap64 (s - t) = s - t" if "rel x aDate = Inr (c, s)" "rel y bDate = Inr (d, t)" for c d s t
    using expiresRelation_range [OF that(1) [unfolded assms]] expiresRelation_range [OF that(2) [unfolded assms]]
    by (intro wrap64_small) linarith+
  then show ?thesis
    by (cases "rel x aDate"; cases "rel y bDate")
      (auto simp: expires_parity_def in_tolerance_def ExpiresTolerance_def Second_def abs_le_iff)
qed

lemma attr_map_of: "has_attr x k \<Longrightarrow> has_attr y k \<Longrightarrow> attr x k = attr y k \<longleftrightarrow> map_of (sc_Attrs x) k = map_of (sc_Attrs y) k"
  by (auto simp: attr_def has_attr_def)

lemma agree_but_one:
  "(\<forall>k \<in> A \<union> B. (k \<in> A \<longleftrightarrow> k \<in> B) \<and> (if k = e then E else P k)) \<longleftrightarrow>
     A = B \<and> (\<forall>k \<in> A. k \<noteq> e \<longrightarrow> P k) \<and> (e \<in> A \<longrightarrow> E)"
  by (cases "A = B") (auto split: if_splits)

lemma pair_parity_Nil:
  assumes "rel = expiresRelation ParseTime ParseUnpadded"
  shows "pair_parity rel n aDate bDate (x, y) = [] \<longleftrightarrow> cookie_agrees rel aDate bDate x y"
proof -
  have keys: "set (all_keys x y) = fst ` set (sc_Attrs x) \<union> fst ` set (sc_Attrs y)"
    by (auto simp: all_keys_def has_attr_keys)
  have "pair_parity rel n aDate bDate (x, y) = [] \<longleftrightarrow> length (sc_Value x) = length (sc_Value y) \<and>
      (\<forall>k \<in> fst ` set (sc_Attrs x) \<union> fst ` set (sc_Attrs y). attr_parity rel n x y aDate bDate k = [])"
    unfolding pair_parity_def prod.case append_is_Nil_conv concat_eq_Nil_conv mismatch_if_Nil set_map keys by auto
  also have "\<dots> \<longleftrightarrow> cookie_agrees rel aDate bDate x y"
  proof -
    define A B E where "A = fst ` set (sc_Attrs x)" and "B = fst ` set (sc_Attrs y)"
      and "E \<longleftrightarrow> (\<exists>cls s t. rel x aDate = Inr (cls, s) \<and> rel y bDate = Inr (cls, t) \<and> \<bar>s - t\<bar> \<le> 2 * 10 ^ 9)"
    have "attr_parity rel n x y aDate bDate k = [] \<longleftrightarrow>
        (k \<in> A \<longleftrightarrow> k \<in> B) \<and> (if k = ''expires'' then E else map_of (sc_Attrs x) k = map_of (sc_Attrs y) k)"
      if "k \<in> A \<union> B" for k
      using that expires_parity_Nil [OF assms, of n x aDate y bDate] attr_map_of [of x k y]
      unfolding attr_parity_def has_attr_keys A_def [symmetric] B_def [symmetric] E_def [symmetric] by auto
    then have "(\<forall>k \<in> A \<union> B. attr_parity rel n x y aDate bDate k = []) \<longleftrightarrow>
        (\<forall>k \<in> A \<union> B. (k \<in> A \<longleftrightarrow> k \<in> B) \<and> (if k = ''expires'' then E else map_of (sc_Attrs x) k = map_of (sc_Attrs y) k))"
      by (intro ball_cong refl)
    also have "\<dots> \<longleftrightarrow>
        A = B \<and> (\<forall>k \<in> A. k \<noteq> ''expires'' \<longrightarrow> map_of (sc_Attrs x) k = map_of (sc_Attrs y) k) \<and> (''expires'' \<in> A \<longrightarrow> E)"
      by (rule agree_but_one)
    finally show ?thesis unfolding cookie_agrees_def A_def B_def E_def by simp
  qed
  finally show ?thesis .
qed

lemma name_parity_Nil:
  assumes "rel = expiresRelation ParseTime ParseUnpadded"
  shows "name_parity rel as bs aDate bDate n = [] \<longleftrightarrow> list_all2 (cookie_agrees rel aDate bDate) (by_name as n) (by_name bs n)"
proof -
  have "(\<forall>p \<in> set (zip xs ys). pair_parity rel n aDate bDate p = []) \<longleftrightarrow> list_all2 (cookie_agrees rel aDate bDate) xs ys"
    if "length xs = length ys" for xs ys
    using that by (induction xs ys rule: list_induct2) (simp_all add: pair_parity_Nil [OF assms])
  then show ?thesis by (auto simp: name_parity_def Let_def dest: list_all2_lengthD)
qed

lemma CookieParity_Nil:
  "CookieParity ParseTime ParseUnpadded render as bs aDate bDate = [] \<longleftrightarrow>
     cookies_agree (expiresRelation ParseTime ParseUnpadded) aDate bDate as bs"
proof -
  let ?rel = "expiresRelation ParseTime ParseUnpadded"
  have "CookieParity ParseTime ParseUnpadded render as bs aDate bDate = [] \<longleftrightarrow>
      (\<forall>n \<in> sc_Name ` set as \<union> sc_Name ` set bs. list_all2 (cookie_agrees ?rel aDate bDate) (by_name as n) (by_name bs n))"
    by (auto simp: CookieParity_def Let_def sort_Nil_iff name_parity_Nil [OF refl])
  moreover have "by_name as n = []" "by_name bs n = []" if "n \<notin> sc_Name ` set as \<union> sc_Name ` set bs" for n
    using that by (auto simp: by_name_def filter_empty_conv)
  ultimately show ?thesis unfolding cookies_agree_def by_name_def by (metis list_all2_Nil)
qed

end
