(* ===== verification/Db.thy ===== *)
theory Db
  imports Go_Codec "HOL-Library.Log_Nat"
begin

text \<open>
  The queries of \<open>backend/internal/db\<close> (\<open>auth.sql.go\<close>, \<open>health.sql.go\<close>) over a database whose
  tables and constraints are those of \<open>db/migrations/V0001__baseline.sql\<close>. A query is a
  function of the database clock and the database: it fails, or answers with the database
  after it. Instants and intervals are integers of microseconds, the resolution of the
  column types.

  PostgreSQL's \<open>lower()\<close> depends on the collation and is the parameter \<open>pg_lower\<close>.
\<close>

section \<open>Rows\<close>

type_synonym uuid = string
type_synonym timestamptz = int
type_synonym interval = int

record Credential =
  cr_UserID :: uuid
  cr_PasswordHash :: string
  cr_CreatedAt :: timestamptz
  cr_UpdatedAt :: timestamptz

record Household =
  hh_ID :: uuid
  hh_DisplayName :: string
  hh_ReportingCurrency :: string
  hh_PeriodStartDay :: int
  hh_DayStartsAt :: "int option"
  hh_ExpectedMonthlyIncome :: "rat option"
  hh_AllowanceMode :: string
  hh_CreatedAt :: timestamptz
  hh_UpdatedAt :: timestamptz
  hh_DeletedAt :: "timestamptz option"

record LoginAttempt =
  la_Key :: string
  la_FailureCount :: int
  la_BackoffUntil :: "timestamptz option"
  la_UpdatedAt :: timestamptz

record Session =
  ses_ID :: string
  ses_UserID :: uuid
  ses_CreatedAt :: timestamptz
  ses_ExpiresAt :: timestamptz
  ses_LastSeenAt :: timestamptz
  ses_UserAgent :: "string option"

record User =
  usr_ID :: uuid
  usr_HouseholdID :: uuid
  usr_Email :: string
  usr_DisplayName :: string
  usr_Locale :: string
  usr_TimeZone :: string
  usr_CreatedAt :: timestamptz
  usr_UpdatedAt :: timestamptz
  usr_DeletedAt :: "timestamptz option"

text \<open>Tables keyed by their primary key; \<open>users\<close> is also searched by email.\<close>

record database =
  households :: "uuid \<Rightarrow> Household option"
  users :: "User list"
  credentials :: "uuid \<Rightarrow> Credential option"
  sessions :: "string \<Rightarrow> Session option"
  login_attempts :: "string \<Rightarrow> LoginAttempt option"

section \<open>Queries\<close>

datatype query_error =
    ErrNoRows
  | CtxEnded ctx_err
  | ConnectionFailed
  | NotNullViolation
  | UniqueViolation
  | ForeignKeyViolation
  | InvalidText
  | IntervalOutOfRange
  | IntegerOutOfRange
  | DivisionByZero
  | InvalidLogArgument

type_synonym 'a query = "timestamptz \<Rightarrow> database \<Rightarrow> query_error + 'a \<times> database"

text \<open>What a \<open>text\<close> parameter must be: UTF-8 without a zero byte.\<close>

definition pg_text :: "string \<Rightarrow> bool" where
  "pg_text s \<longleftrightarrow> ValidString s \<and> CHR 0x00 \<notin> set s"

definition checked :: "bool \<Rightarrow> 'a query \<Rightarrow> 'a query" where
  "checked ok q = (\<lambda>now d. if ok then q now d else Inl InvalidText)"

definition one_row :: "'a option \<Rightarrow> 'a query" where
  "one_row r = (\<lambda>now d. case r of None \<Rightarrow> Inl ErrNoRows | Some x \<Rightarrow> Inr (x, d))"

definition ClearLoginAttempts :: "string list \<Rightarrow> unit query" where
  "ClearLoginAttempts keys = checked (list_all pg_text keys) (\<lambda>now d.
     Inr ((), d\<lparr>login_attempts := (\<lambda>k. if k \<in> set keys then None else login_attempts d k)\<rparr>))"

text \<open>A \<open>pgtype.UUID\<close> parameter that is not valid is a NULL.\<close>

record CreateSessionParams =
  csp_ID :: string
  csp_UserID :: "uuid option"
  csp_ExpiresAt :: timestamptz
  csp_UserAgent :: "string option"

definition user_row :: "database \<Rightarrow> uuid \<Rightarrow> User option" where
  "user_row d i = List.find (\<lambda>u. usr_ID u = i) (users d)"

definition CreateSession :: "CreateSessionParams \<Rightarrow> Session query" where
  "CreateSession arg =
     checked (pg_text (csp_ID arg) \<and> (case csp_UserAgent arg of None \<Rightarrow> True | Some ua \<Rightarrow> pg_text ua))
     (\<lambda>now d.
       case csp_UserID arg of None \<Rightarrow> Inl NotNullViolation
       | Some uid \<Rightarrow>
         if sessions d (csp_ID arg) \<noteq> None then Inl UniqueViolation
         else if user_row d uid = None then Inl ForeignKeyViolation
         else
           let row = \<lparr>ses_ID = csp_ID arg, ses_UserID = uid, ses_CreatedAt = now,
                      ses_ExpiresAt = csp_ExpiresAt arg, ses_LastSeenAt = now,
                      ses_UserAgent = csp_UserAgent arg\<rparr>
           in Inr (row, d\<lparr>sessions := (sessions d)(csp_ID arg := Some row)\<rparr>))"

definition delete_sessions_where :: "(Session \<Rightarrow> bool) \<Rightarrow> database \<Rightarrow> database" where
  "delete_sessions_where P d =
     d\<lparr>sessions := (\<lambda>k. case sessions d k of None \<Rightarrow> None | Some s \<Rightarrow> if P s then None else Some s)\<rparr>"

definition DeleteExpiredSessions :: "unit query" where
  "DeleteExpiredSessions = (\<lambda>now d. Inr ((), delete_sessions_where (\<lambda>s. ses_ExpiresAt s \<le> now) d))"

definition DeleteSession :: "string \<Rightarrow> unit query" where
  "DeleteSession i = checked (pg_text i) (\<lambda>now d. Inr ((), d\<lparr>sessions := (sessions d)(i := None)\<rparr>))"

definition DeleteSessionsForUser :: "uuid \<Rightarrow> unit query" where
  "DeleteSessionsForUser uid =
     (\<lambda>now d. Inr ((), delete_sessions_where (\<lambda>s. ses_UserID s = uid) d))"

definition GetCredentialByUserID :: "uuid \<Rightarrow> Credential query" where
  "GetCredentialByUserID uid = (\<lambda>now d. one_row (credentials d uid) now d)"

definition GetHouseholdByID :: "uuid \<Rightarrow> Household query" where
  "GetHouseholdByID i = (\<lambda>now d.
     one_row (case households d i of None \<Rightarrow> None
              | Some h \<Rightarrow> if hh_DeletedAt h = None then Some h else None) now d)"

record GetLiveSessionParams =
  gls_ID :: string
  gls_MaxLifetime :: interval

definition live :: "interval \<Rightarrow> timestamptz \<Rightarrow> Session \<Rightarrow> bool" where
  "live maxLifetime now s \<longleftrightarrow> ses_ExpiresAt s > now \<and> ses_CreatedAt s > now - maxLifetime"

definition GetLiveSession :: "GetLiveSessionParams \<Rightarrow> Session query" where
  "GetLiveSession arg = checked (pg_text (gls_ID arg)) (\<lambda>now d.
     one_row (case sessions d (gls_ID arg) of None \<Rightarrow> None
              | Some s \<Rightarrow> if live (gls_MaxLifetime arg) now s then Some s else None) now d)"

text \<open>
  The remaining backoff. The query answers in seconds as a \<open>float8\<close>; the model keeps the
  exact number of microseconds.
\<close>

definition active_backoff :: "timestamptz \<Rightarrow> database \<Rightarrow> string \<Rightarrow> timestamptz option" where
  "active_backoff now d k =
     (case login_attempts d k of None \<Rightarrow> None
      | Some a \<Rightarrow> (case la_BackoffUntil a of None \<Rightarrow> None
                   | Some t \<Rightarrow> if t > now then Some t else None))"

definition GetLoginBackoff :: "string list \<Rightarrow> int query" where
  "GetLoginBackoff keys = checked (list_all pg_text keys) (\<lambda>now d.
     Inr (case List.map_filter (active_backoff now d) keys of
            [] \<Rightarrow> 0
          | t # ts \<Rightarrow> fold max ts t - now, d))"

definition GetUserByEmail :: "(string \<Rightarrow> string) \<Rightarrow> string \<Rightarrow> User query" where
  "GetUserByEmail pg_lower email = checked (pg_text email) (\<lambda>now d.
     one_row (List.find (\<lambda>u. pg_lower (usr_Email u) = pg_lower email \<and> usr_DeletedAt u = None)
                (users d)) now d)"

definition GetUserByID :: "uuid \<Rightarrow> User query" where
  "GetUserByID i = (\<lambda>now d.
     one_row (List.find (\<lambda>u. usr_ID u = i \<and> usr_DeletedAt u = None) (users d)) now d)"

section \<open>The backoff curve\<close>

text \<open>\<open>ceil(log(2, M / F))\<close> for positive \<open>F\<close> and \<open>M\<close>, in integers.\<close>

definition ceil_log2_ratio :: "interval \<Rightarrow> interval \<Rightarrow> int" where
  "ceil_log2_ratio F M =
     (if F \<le> M then int (ceillog2 (nat ((M + F - 1) div F)))
      else - int (floorlog 2 (nat (F div M)) - 1))"

text \<open>\<open>interval * float8\<close>: rounded to microseconds, an error outside 64 bits.\<close>

definition interval_times_pow2 :: "interval \<Rightarrow> int \<Rightarrow> query_error + interval" where
  "interval_times_pow2 F e =
     (let x = (if 0 \<le> e then F * 2 ^ nat e else round (of_int F / 2 ^ nat (- e) :: rat))
      in if is_int64 x then Inr x else Inl IntervalOutOfRange)"

definition next_backoff :: "interval \<Rightarrow> interval \<Rightarrow> int \<Rightarrow> query_error + interval" where
  "next_backoff F M failures =
     (if F = 0 then Inl DivisionByZero
      else if of_int M / (of_int F :: rat) \<le> 0 then Inl InvalidLogArgument
      else res_bind (interval_times_pow2 F (min failures (ceil_log2_ratio F M + 1)))
             (\<lambda>w. Inr (min w M)))"

record RecordLoginFailureParams =
  rlf_Key :: string
  rlf_FirstBackoff :: interval
  rlf_MaxBackoff :: interval

definition put_attempt :: "LoginAttempt \<Rightarrow> database \<Rightarrow> database" where
  "put_attempt row d = d\<lparr>login_attempts := (login_attempts d)(la_Key row := Some row)\<rparr>"

definition failure_row ::
  "RecordLoginFailureParams \<Rightarrow> timestamptz \<Rightarrow> LoginAttempt option \<Rightarrow> query_error + LoginAttempt" where
  "failure_row arg now old =
     (case old of
        None \<Rightarrow>
          Inr \<lparr>la_Key = rlf_Key arg, la_FailureCount = 1,
               la_BackoffUntil = Some (now + rlf_FirstBackoff arg), la_UpdatedAt = now\<rparr>
      | Some a \<Rightarrow>
          if la_FailureCount a + 1 \<ge> 2 ^ 31 then Inl IntegerOutOfRange
          else res_bind (next_backoff (rlf_FirstBackoff arg) (rlf_MaxBackoff arg) (la_FailureCount a))
            (\<lambda>w. Inr \<lparr>la_Key = rlf_Key arg, la_FailureCount = la_FailureCount a + 1,
                      la_BackoffUntil = Some (now + w), la_UpdatedAt = now\<rparr>))"

definition RecordLoginFailure :: "RecordLoginFailureParams \<Rightarrow> unit query" where
  "RecordLoginFailure arg = checked (pg_text (rlf_Key arg)) (\<lambda>now d.
     res_bind (failure_row arg now (login_attempts d (rlf_Key arg))) (\<lambda>row. Inr ((), put_attempt row d)))"

section \<open>The remaining statements\<close>

record TouchSessionParams =
  tsp_ID :: string
  tsp_ExpiresAt :: timestamptz

definition TouchSession :: "TouchSessionParams \<Rightarrow> unit query" where
  "TouchSession arg = checked (pg_text (tsp_ID arg)) (\<lambda>now d.
     Inr ((), d\<lparr>sessions := (\<lambda>k.
       if k = tsp_ID arg
       then map_option (\<lambda>s. s\<lparr>ses_LastSeenAt := now, ses_ExpiresAt := tsp_ExpiresAt arg\<rparr>) (sessions d k)
       else sessions d k)\<rparr>))"

record UpsertCredentialParams =
  ucp_UserID :: uuid
  ucp_PasswordHash :: string

definition UpsertCredential :: "UpsertCredentialParams \<Rightarrow> unit query" where
  "UpsertCredential arg = checked (pg_text (ucp_PasswordHash arg)) (\<lambda>now d.
     case credentials d (ucp_UserID arg) of
       Some c \<Rightarrow>
         Inr ((), d\<lparr>credentials := (credentials d)(ucp_UserID arg :=
           Some (c\<lparr>cr_PasswordHash := ucp_PasswordHash arg, cr_UpdatedAt := now\<rparr>))\<rparr>)
     | None \<Rightarrow>
         if user_row d (ucp_UserID arg) = None then Inl ForeignKeyViolation
         else Inr ((), d\<lparr>credentials := (credentials d)(ucp_UserID arg :=
           Some \<lparr>cr_UserID = ucp_UserID arg, cr_PasswordHash = ucp_PasswordHash arg,
                 cr_CreatedAt = now, cr_UpdatedAt = now\<rparr>)\<rparr>))"

definition Ping :: "int query" where
  "Ping = (\<lambda>now d. Inr (1, d))"

section \<open>The curve is the doubling, capped\<close>

lemma ceil_log2_ratio_bounds:
  assumes "1 \<le> F" "F \<le> M"
  obtains c where "ceil_log2_ratio F M = int c" "M \<le> F * 2 ^ c" "c = 0 \<or> F * 2 ^ (c - 1) < M"
proof -
  define q where "q = (M + F - 1) div F"
  have q: "M \<le> F * q" "F * (q - 1) < M"
  proof -
    have "M + F - 1 = F * q + (M + F - 1) mod F" unfolding q_def by simp
    moreover have "0 \<le> (M + F - 1) mod F" "(M + F - 1) mod F < F" using assms(1) by simp_all
    ultimately have "M + F - 1 < F * q + F" "F * q \<le> M + F - 1" by linarith+
    then show "M \<le> F * q" "F * (q - 1) < M" by (simp_all add: right_diff_distrib)
  qed
  have "1 \<le> q" using q(1) assms by (smt (verit) mult_nonneg_nonpos)
  define c where "c = ceillog2 (nat q)"
  have le: "ceillog2 (nat q) \<le> l \<longleftrightarrow> q \<le> 2 ^ l" for l
    using ceillog2_le_iff [of "nat q" l] \<open>1 \<le> q\<close> by (simp add: nat_le_iff)
  have "q \<le> 2 ^ c" using le [of c] by (simp add: c_def)
  then have "M \<le> F * 2 ^ c" using q(1) assms(1) mult_left_mono [of q "2 ^ c" F] by linarith
  moreover have "c = 0 \<or> F * 2 ^ (c - 1) < M"
  proof (cases "c = 0")
    case False
    then have "\<not> c \<le> c - 1" by simp
    then have "2 ^ (c - 1) \<le> q - 1" using le [of "c - 1"] unfolding c_def by linarith
    then have "F * 2 ^ (c - 1) \<le> F * (q - 1)" using assms(1) by (intro mult_left_mono) simp_all
    with q(2) show ?thesis by linarith
  qed simp
  moreover have "ceil_log2_ratio F M = int c" using assms by (simp add: ceil_log2_ratio_def c_def q_def)
  ultimately show thesis using that by blast
qed

lemma next_backoff_curve:
  assumes "1 \<le> F" "F \<le> M" "M < 2 ^ 61" "1 \<le> n"
  shows "next_backoff F M n = Inr (min (F * 2 ^ nat n) M)"
proof -
  obtain c where c: "ceil_log2_ratio F M = int c" "M \<le> F * 2 ^ c" "c = 0 \<or> F * 2 ^ (c - 1) < M"
    using ceil_log2_ratio_bounds [OF assms(1,2)] by blast
  have top: "F * 2 ^ (c + 1) < 2 ^ 63"
  proof (cases c)
    case 0
    then show ?thesis using assms(2,3) by simp
  next
    case (Suc b)
    then have "F * 2 ^ b < M" using c(3) by simp
    then show ?thesis using Suc assms(3) by simp
  qed
  define k where "k = nat (min n (int c + 1))"
  have k: "min n (ceil_log2_ratio F M + 1) = int k" "k \<le> c + 1" "k \<le> nat n"
    using assms(4) c(1) by (auto simp: k_def)
  have pos: "0 \<le> F * 2 ^ k" and le: "F * 2 ^ k \<le> F * 2 ^ (c + 1)" "F * 2 ^ k \<le> F * 2 ^ nat n"
    using assms(1) power_increasing [OF k(2), of "2 :: int"] power_increasing [OF k(3), of "2 :: int"]
    by (auto intro!: mult_left_mono)
  then have "interval_times_pow2 F (min n (ceil_log2_ratio F M + 1)) = Inr (F * 2 ^ k)"
    using top by (simp add: interval_times_pow2_def k(1) is_int64_def)
  moreover have "\<not> of_int M / (of_int F :: rat) \<le> 0"
    using assms(1,2) by (simp add: divide_le_0_iff not_le)
  moreover have "min (F * 2 ^ k) M = min (F * 2 ^ nat n) M"
  proof (cases "n \<le> int c + 1")
    case True
    then show ?thesis using assms(4) by (simp add: k_def)
  next
    case False
    then have "k = c + 1" using assms(4) by (simp add: k_def)
    moreover have "F * 2 ^ c \<le> F * 2 ^ (c + 1)" using assms(1) by simp
    ultimately show ?thesis using c(2) le(2) by simp
  qed
  ultimately show ?thesis using assms(1) by (simp add: next_backoff_def)
qed

text \<open>Consecutive failures of one key, at the given instants.\<close>

fun record_failures :: "RecordLoginFailureParams \<Rightarrow> timestamptz list \<Rightarrow> database \<Rightarrow> query_error + database" where
  "record_failures arg [] d = Inr d"
| "record_failures arg (t # ts) d = res_bind (RecordLoginFailure arg t d) (\<lambda>(_, d'). record_failures arg ts d')"

definition attempt_row :: "RecordLoginFailureParams \<Rightarrow> nat \<Rightarrow> timestamptz \<Rightarrow> LoginAttempt" where
  "attempt_row arg n t =
     \<lparr>la_Key = rlf_Key arg, la_FailureCount = int n,
      la_BackoffUntil = Some (t + min (rlf_FirstBackoff arg * 2 ^ (n - 1)) (rlf_MaxBackoff arg)),
      la_UpdatedAt = t\<rparr>"

definition backoff_params_ok :: "RecordLoginFailureParams \<Rightarrow> bool" where
  "backoff_params_ok arg \<longleftrightarrow> pg_text (rlf_Key arg) \<and> 1 \<le> rlf_FirstBackoff arg \<and>
     rlf_FirstBackoff arg \<le> rlf_MaxBackoff arg \<and> rlf_MaxBackoff arg < 2 ^ 61"

lemma put_attempt_put [simp]:
  "la_Key a = la_Key b \<Longrightarrow> put_attempt b (put_attempt a d) = put_attempt b d"
  by (simp add: put_attempt_def)

lemma login_attempts_put: "login_attempts (put_attempt row d) k = (if k = la_Key row then Some row else login_attempts d k)"
  by (simp add: put_attempt_def)

lemma la_Key_attempt_row [simp]: "la_Key (attempt_row arg n t) = rlf_Key arg"
  by (simp add: attempt_row_def)

lemma RecordLoginFailure_first:
  assumes "backoff_params_ok arg" "login_attempts d (rlf_Key arg) = None"
  shows "RecordLoginFailure arg t d = Inr ((), put_attempt (attempt_row arg 1 t) d)"
  using assms by (simp add: RecordLoginFailure_def failure_row_def checked_def attempt_row_def backoff_params_ok_def)

lemma RecordLoginFailure_again:
  assumes "backoff_params_ok arg" "login_attempts d (rlf_Key arg) = Some (attempt_row arg n s)"
    and "1 \<le> n" "int n + 1 < 2 ^ 31"
  shows "RecordLoginFailure arg t d = Inr ((), put_attempt (attempt_row arg (n + 1) t) d)"
  using assms next_backoff_curve [of "rlf_FirstBackoff arg" "rlf_MaxBackoff arg" "int n"]
  by (simp add: RecordLoginFailure_def failure_row_def checked_def attempt_row_def backoff_params_ok_def add.commute)

lemma record_failures_more:
  assumes "backoff_params_ok arg"
  shows "1 \<le> n \<Longrightarrow> int n + int (length ts) < 2 ^ 31 \<Longrightarrow>
    record_failures arg ts (put_attempt (attempt_row arg n s) d) =
      Inr (put_attempt (attempt_row arg (n + length ts) (last (s # ts))) d)"
proof (induction ts arbitrary: n s)
  case (Cons t ts)
  then show ?case
    using RecordLoginFailure_again [OF assms, of "put_attempt (attempt_row arg n s) d" n s t]
      Cons.IH [of "n + 1" t]
    by (simp add: login_attempts_put)
qed simp

text \<open>
  C20. The login backoff is exponential and capped for ever: the \<open>n\<close>th consecutive failure on
  a key is recorded, whatever \<open>n\<close> up to the counter's limit, and sets a window of
  \<open>first * 2 ^ (n - 1)\<close>, or the cap when that is longer. No other row changes.
\<close>

theorem backoff_curve:
  assumes "backoff_params_ok arg" "login_attempts d (rlf_Key arg) = None"
    and "ts \<noteq> []" "length ts < 2 ^ 31"
  shows "record_failures arg ts d = Inr (put_attempt
      \<lparr>la_Key = rlf_Key arg, la_FailureCount = int (length ts),
       la_BackoffUntil = Some (last ts +
         min (rlf_FirstBackoff arg * 2 ^ (length ts - 1)) (rlf_MaxBackoff arg)),
       la_UpdatedAt = last ts\<rparr> d)"
proof -
  obtain t us where ts: "ts = t # us" using assms(3) by (cases ts) auto
  have "int 1 + int (length us) < 2 ^ 31" using assms(4) by (simp add: ts)
  then have "record_failures arg ts d = Inr (put_attempt (attempt_row arg (1 + length us) (last (t # us))) d)"
    using RecordLoginFailure_first [OF assms(1,2), of t] record_failures_more [OF assms(1), of 1 us t d]
    by (simp add: ts)
  then show ?thesis by (simp add: ts attempt_row_def)
qed

definition empty_db :: database where
  "empty_db = \<lparr>households = (\<lambda>_. None), users = [], credentials = (\<lambda>_. None),
     sessions = (\<lambda>_. None), login_attempts = (\<lambda>_. None)\<rparr>"

definition default_backoff :: RecordLoginFailureParams where
  "default_backoff = \<lparr>rlf_Key = ''email:a@b.c'', rlf_FirstBackoff = 1000000, rlf_MaxBackoff = 300000000\<rparr>"

lemma default_backoff_ok: "backoff_params_ok default_backoff"
  by (simp add: backoff_params_ok_def default_backoff_def pg_text_def ValidString_ascii is_ascii_def)

theorem backoff_curve_witness:
  "record_failures default_backoff (replicate 10 7) empty_db = Inr (put_attempt
     \<lparr>la_Key = ''email:a@b.c'', la_FailureCount = 10, la_BackoffUntil = Some (7 + 300000000),
      la_UpdatedAt = 7\<rparr> empty_db)"
  using backoff_curve [OF default_backoff_ok, of empty_db "replicate 10 7"]
  by (simp add: default_backoff_def empty_db_def)

text \<open>
  Why the exponent is clamped: at the default first window of one second, the doubling
  itself leaves the range of \<open>interval\<close> exactly from the 45th failure on, where the clamped
  expression answers the cap.
\<close>

theorem unclamped_backoff_overflows:
  "(\<forall>n. interval_times_pow2 1000000 (int n) = Inl IntervalOutOfRange \<longleftrightarrow> 45 \<le> n + 1) \<and>
   (\<forall>n. next_backoff 1000000 300000000 (int n + 44) = Inr 300000000)"
proof (intro conjI allI)
  show "interval_times_pow2 1000000 (int n) = Inl IntervalOutOfRange \<longleftrightarrow> 45 \<le> n + 1" for n
  proof (cases "n \<le> 43")
    case True
    then have "(2 :: int) ^ n \<le> 2 ^ 43" by (intro power_increasing) simp_all
    moreover have "- (2 ^ 63) \<le> 1000000 * (2 :: int) ^ n" by (rule order_trans [of _ 0]) simp_all
    ultimately have "is_int64 (1000000 * 2 ^ n)" unfolding is_int64_def by (intro conjI) simp_all
    with True show ?thesis by (simp add: interval_times_pow2_def)
  next
    case False
    then have "(2 :: int) ^ 44 \<le> 2 ^ n" by (intro power_increasing) simp_all
    with False show ?thesis by (simp add: interval_times_pow2_def is_int64_def)
  qed
  show "next_backoff 1000000 300000000 (int n + 44) = Inr 300000000" for n
  proof -
    have "(2 :: int) ^ 44 \<le> 2 ^ nat (int n + 44)" by (intro power_increasing) simp_all
    then show ?thesis using next_backoff_curve [of 1000000 300000000 "int n + 44"] by simp
  qed
qed

end
