(* ===== verification/Request.thy ===== *)
theory Request
  imports Db
begin

text \<open>
  What a request carries into the handlers (\<open>backend/internal/auth/request.go\<close>, \<open>context.go\<close>):
  the client address, the sanitised User-Agent, the presented session token and the
  authenticated User. The request context is a record; \<open>None\<close> is a key that was never set.
\<close>

section \<open>Contexts\<close>

record ctx =
  cx_clientIP :: "string option"
  cx_userAgent :: "string option"
  cx_sessionToken :: "string option"
  cx_user :: "User option"
  cx_requestID :: "string option"
  cx_deadline :: "int option"
  cx_canceledAt :: "int option"

definition Background :: ctx where
  "Background = \<lparr>cx_clientIP = None, cx_userAgent = None, cx_sessionToken = None, cx_user = None,
     cx_requestID = None, cx_deadline = None, cx_canceledAt = None\<rparr>"

text \<open>\<open>ctx.Err()\<close> at an instant: the first of cancellation and deadline to have passed.\<close>

definition ctx_Err :: "int \<Rightarrow> ctx \<Rightarrow> ctx_err option" where
  "ctx_Err t c =
     (case (cx_canceledAt c, cx_deadline c) of
        (Some a, Some b) \<Rightarrow>
          if a \<le> t \<and> (b \<le> t \<longrightarrow> a < b) then Some Canceled
          else if b \<le> t then Some DeadlineExceeded else None
      | (Some a, None) \<Rightarrow> if a \<le> t then Some Canceled else None
      | (None, Some b) \<Rightarrow> if b \<le> t then Some DeadlineExceeded else None
      | (None, None) \<Rightarrow> None)"

definition WithoutCancel :: "ctx \<Rightarrow> ctx" where
  "WithoutCancel c = c\<lparr>cx_deadline := None, cx_canceledAt := None\<rparr>"

text \<open>\<open>context.WithTimeout\<close> keeps an earlier deadline.\<close>

definition WithTimeout :: "int \<Rightarrow> int \<Rightarrow> ctx \<Rightarrow> ctx" where
  "WithTimeout now d c =
     c\<lparr>cx_deadline := Some (case cx_deadline c of None \<Rightarrow> now + d | Some b \<Rightarrow> min b (now + d))\<rparr>"

definition WithUser :: "ctx \<Rightarrow> User \<Rightarrow> ctx" where
  "WithUser c user = c\<lparr>cx_user := Some user\<rparr>"

definition UserFromContext :: "ctx \<Rightarrow> User option" where
  "UserFromContext c = cx_user c"

definition clientIPFrom :: "ctx \<Rightarrow> string" where
  "clientIPFrom c = (case cx_clientIP c of None \<Rightarrow> [] | Some ip \<Rightarrow> ip)"

definition userAgentFrom :: "ctx \<Rightarrow> string" where
  "userAgentFrom c = (case cx_userAgent c of None \<Rightarrow> [] | Some ua \<Rightarrow> ua)"

definition sessionTokenFrom :: "ctx \<Rightarrow> string" where
  "sessionTokenFrom c = (case cx_sessionToken c of None \<Rightarrow> [] | Some token \<Rightarrow> token)"

section \<open>The User-Agent\<close>

definition HTAB :: char where "HTAB = CHR 0x09"
definition SP :: char where "SP = CHR '' ''"

definition maxUserAgentCodePoints :: nat where
  "maxUserAgentCodePoints = 512"

definition sanitizeUserAgent :: "string \<Rightarrow> string" where
  "sanitizeUserAgent raw0 =
     (let raw = Trim_ascii (replace_byte HTAB SP raw0) [SP]
      in if raw = [] then []
         else if \<not> ValidString raw then []
         else if RuneCountInString raw \<le> maxUserAgentCodePoints then raw
         else string_of_runes (take maxUserAgentCodePoints (go_runes raw)))"

section \<open>The client address\<close>

text \<open>\<open>net.SplitHostPort\<close>: \<open>None\<close> for each of its errors.\<close>

definition SplitHostPort :: "string \<Rightarrow> (string \<times> string) option" where
  "SplitHostPort hostport =
     (case Cut (rev hostport) (CHR '':'') of
        (_, _, False) \<Rightarrow> None
      | (rport, rhost, True) \<Rightarrow>
        if hd hostport = CHR ''['' then
          (case Cut hostport (CHR '']'') of
             (_, _, False) \<Rightarrow> None
           | (inner, after, True) \<Rightarrow>
             if after = [] \<or> rev rhost \<noteq> inner @ '']'' then None
             else if CHR ''['' \<in> set (tl hostport) \<or> CHR '']'' \<in> set after then None
             else Some (tl inner, rev rport))
        else if CHR '':'' \<in> set rhost then None
        else if CHR ''['' \<in> set hostport \<or> CHR '']'' \<in> set hostport then None
        else Some (rev rhost, rev rport))"

record http_request =
  rq_RemoteAddr :: string
  rq_UserAgent :: string
  rq_Cookies :: "(string \<times> string) list"

definition clientIP :: "http_request \<Rightarrow> string" where
  "clientIP r =
     (case SplitHostPort (TrimSpace (rq_RemoteAddr r)) of
        None \<Rightarrow> TrimSpace (rq_RemoteAddr r)
      | Some (host, _) \<Rightarrow> host)"

text \<open>\<open>r.Cookie(name)\<close>: the first cookie of that name.\<close>

definition SessionCookieName :: string where
  "SessionCookieName = ''afloat_session''"

definition request_cookie :: "http_request \<Rightarrow> string \<Rightarrow> string option" where
  "request_cookie r name = map_of (rq_Cookies r) name"

text \<open>The context the next handler is called with.\<close>

definition RequestContextMiddleware :: "http_request \<Rightarrow> ctx \<Rightarrow> ctx" where
  "RequestContextMiddleware r c =
     (let c1 = c\<lparr>cx_clientIP := Some (clientIP r)\<rparr>;
          c2 = c1\<lparr>cx_userAgent := Some (sanitizeUserAgent (rq_UserAgent r))\<rparr>
      in case request_cookie r SessionCookieName of
           None \<Rightarrow> c2
         | Some v \<Rightarrow> c2\<lparr>cx_sessionToken := Some v\<rparr>)"

section \<open>Sanitising\<close>

lemma tab_folded: "HTAB \<notin> set (replace_byte HTAB SP s)"
  by (auto simp: replace_byte_def HTAB_def SP_def)

lemma set_Trim_ascii: "set (Trim_ascii s cs) \<subseteq> set s"
  by (simp add: Trim_ascii_def set_trim_both)

lemma string_of_runes_append: "string_of_runes (xs @ ys) = string_of_runes xs @ string_of_runes ys"
  by (simp add: string_of_runes_def)

lemma truncated_prefix:
  assumes "ValidString s"
  obtains rest where "s = string_of_runes (take n (go_runes s)) @ rest"
  using ValidString_runes(2) [OF assms] string_of_runes_append [of "take n (go_runes s)" "drop n (go_runes s)"]
  by simp

lemma truncated_valid:
  assumes "ValidString s"
  shows "ValidString (string_of_runes (take n (go_runes s)))"
    and "RuneCountInString (string_of_runes (take n (go_runes s))) \<le> n"
proof -
  have v: "list_all valid_rune (take n (go_runes s))"
    using ValidString_runes(1) [OF assms] by (auto simp: list_all_iff dest: in_set_takeD)
  then show "ValidString (string_of_runes (take n (go_runes s)))" by simp
  show "RuneCountInString (string_of_runes (take n (go_runes s))) \<le> n"
    using v by (simp add: RuneCountInString_eq)
qed

lemma sanitize_prefix:
  "\<exists>rest. sanitizeUserAgent raw = [] \<or>
     Trim_ascii (replace_byte HTAB SP raw) [SP] = sanitizeUserAgent raw @ rest"
  using truncated_prefix [of "Trim_ascii (replace_byte HTAB SP raw) [SP]" maxUserAgentCodePoints]
  by (auto simp: sanitizeUserAgent_def Let_def)

text \<open>
  C34. Whatever bytes the header carries, what is stored of it is valid UTF-8 of at most 512
  code points without a tab, and without a zero byte when the header had none: the
  database accepts it.
\<close>

theorem sanitized_user_agent_storable:
  assumes "CHR 0x00 \<notin> set raw"
  shows "pg_text (sanitizeUserAgent raw) \<and> RuneCountInString (sanitizeUserAgent raw) \<le> 512 \<and>
    HTAB \<notin> set (sanitizeUserAgent raw)"
proof -
  let ?t = "Trim_ascii (replace_byte HTAB SP raw) [SP]"
  have "ValidString (sanitizeUserAgent raw) \<and> RuneCountInString (sanitizeUserAgent raw) \<le> 512"
    using truncated_valid [of ?t 512]
    by (auto simp: sanitizeUserAgent_def Let_def maxUserAgentCodePoints_def ValidString_def RuneCountInString_def)
  moreover have "set (sanitizeUserAgent raw) \<subseteq> set (replace_byte HTAB SP raw)"
    using sanitize_prefix [of raw] set_Trim_ascii [of "replace_byte HTAB SP raw" "[SP]"] by fastforce
  moreover have "CHR 0x00 \<notin> set (replace_byte HTAB SP raw)"
    using assms by (auto simp: replace_byte_def SP_def)
  ultimately show ?thesis using tab_folded [of raw] by (auto simp: pg_text_def)
qed

theorem sanitized_user_agent_storable_witness:
  "pg_text (sanitizeUserAgent [HTAB, CHR ''a'', CHR 0x85]) \<and>
   HTAB \<notin> set (sanitizeUserAgent [HTAB, CHR ''a'', CHR 0x85])"
  using sanitized_user_agent_storable [of "[HTAB, CHR ''a'', CHR 0x85]"] by (simp add: HTAB_def)

lemma dropWhile_append_all: "list_all P a \<Longrightarrow> dropWhile P (a @ s) = dropWhile P s"
  by (induction a) auto

lemma trim_both_surround:
  assumes "list_all P a" "list_all P b"
  shows "trim_both P (a @ s @ b) = trim_both P s"
proof (cases "dropWhile P s = []")
  case True
  then have "list_all P s" by (simp add: list_all_iff)
  with assms have "list_all P (a @ s @ b)" by simp
  with \<open>list_all P s\<close> show ?thesis by (simp only: trim_both_all)
next
  case False
  then have "dropWhile P (s @ b) = dropWhile P s @ b"
    by (metis dropWhile_append1 dropWhile_eq_Nil_conv)
  moreover have "list_all P (rev b)" using assms(2) by (simp add: list_all_iff)
  ultimately show ?thesis
    using assms(1) by (simp add: trim_both_def dropWhile_append_all)
qed

text \<open>
  The two connectors' readings of a folded header are stored alike: spaces and tabs
  around the value do not matter, and an inner tab counts as a space.
\<close>

theorem folded_user_agents_converge:
  assumes "set before \<subseteq> {SP, HTAB}" "set after \<subseteq> {SP, HTAB}"
    and "replace_byte HTAB SP raw' = replace_byte HTAB SP raw"
  shows "sanitizeUserAgent (before @ raw' @ after) = sanitizeUserAgent raw"
proof -
  let ?P = "\<lambda>c. c \<in> set [SP]" and ?f = "replace_byte HTAB SP"
  have "list_all ?P (?f w)" if "set w \<subseteq> {SP, HTAB}" for w
    using that by (auto simp: list_all_iff replace_byte_def)
  note trim_both_surround [OF this [OF assms(1)] this [OF assms(2)], of "?f raw"]
  moreover have "?f (before @ raw' @ after) = ?f before @ ?f raw @ ?f after"
    using assms(3) by (simp add: replace_byte_def)
  ultimately have "Trim_ascii (?f (before @ raw' @ after)) [SP] = Trim_ascii (?f raw) [SP]"
    by (simp only: Trim_ascii_def)
  then show ?thesis by (simp add: sanitizeUserAgent_def)
qed

theorem folded_user_agents_converge_witness:
  "sanitizeUserAgent ([SP, HTAB] @ [CHR ''a'', SP, CHR ''b''] @ [HTAB]) =
     sanitizeUserAgent [CHR ''a'', HTAB, CHR ''b'']"
  by (rule folded_user_agents_converge) (simp_all add: replace_byte_def HTAB_def SP_def)

section \<open>The client address does not depend on the port\<close>

definition JoinHostPort :: "string \<Rightarrow> string \<Rightarrow> string" where
  "JoinHostPort host port =
     (if CHR '':'' \<in> set host then ''['' @ host @ '']:'' @ port else host @ '':'' @ port)"

lemma SplitHostPort_Join:
  assumes "set host \<inter> {CHR ''['', CHR '']''} = {}"
    and "set port \<inter> {CHR ''['', CHR '']'', CHR '':''} = {}" and "host \<noteq> []"
  shows "SplitHostPort (JoinHostPort host port) = Some (host, port)"
proof -
  have cut: "Cut (rev port @ CHR '':'' # s) (CHR '':'') = (rev port, s, True)" for s
    using assms(2) by (intro Cut_append) auto
  have close: "Cut (CHR ''['' # host @ CHR '']'' # s) (CHR '']'') = (CHR ''['' # host, s, True)" for s
    using assms(1) Cut_append [of "CHR '']''" "CHR ''['' # host" s] by auto
  show ?thesis
  proof (cases "CHR '':'' \<in> set host")
    case True
    then show ?thesis using assms cut close by (auto simp: SplitHostPort_def JoinHostPort_def)
  next
    case False
    moreover have "hd host \<noteq> CHR ''[''" using assms(1) hd_in_set [OF assms(3)] by auto
    ultimately show ?thesis using assms cut by (auto simp: SplitHostPort_def JoinHostPort_def hd_append)
  qed
qed

text \<open>
  The per-address backoff key is the host the connection came from, whatever port it came
  from: for a remote address as the listener spells it, IPv6 in brackets, \<open>clientIP\<close> is the
  host.
\<close>

theorem clientIP_is_host:
  assumes "set host \<inter> {CHR ''['', CHR '']''} = {}" "host \<noteq> []" "list_all is_digit port"
    and "TrimSpace (JoinHostPort host port) = JoinHostPort host port"
    and "rq_RemoteAddr r = JoinHostPort host port"
  shows "clientIP r = host"
proof -
  have "set port \<inter> {CHR ''['', CHR '']'', CHR '':''} = {}"
    using assms(3) by (auto simp: list_all_iff is_digit_def byte_in_def)
  then show ?thesis using assms SplitHostPort_Join [of host port] by (simp add: clientIP_def)
qed

theorem clientIP_is_host_witness:
  "clientIP \<lparr>rq_RemoteAddr = ''[2001:db8::1]:443'', rq_UserAgent = [], rq_Cookies = []\<rparr> = ''2001:db8::1''"
  by (rule clientIP_is_host [of _ "''443''"])
    (simp_all add: JoinHostPort_def is_digit_def byte_in_def TrimSpace_ascii is_ascii_def trim_both_def IsSpace_def)

end
