(* ===== verification/Password.thy ===== *)
theory Password
  imports Go_Codec
begin

text \<open>
  Passwords (\<open>backend/internal/auth/password.go\<close>, \<open>common_passwords.go\<close>): the password policy
  with its denylist, the PHC string a hash is stored as, verification against a stored
  string, and the semaphore that bounds concurrent Argon2id work.

  Argon2id itself (golang.org/x/crypto/argon2) is the parameter \<open>idk\<close>; where a proof needs
  it, the hypothesis is its documented output length.
\<close>

section \<open>Constants\<close>

definition argonMemoryKiB :: nat where "argonMemoryKiB = 19 * 1024"
definition argonTime :: nat where "argonTime = 2"
definition argonThreads :: nat where "argonThreads = 1"
definition argonKeyLen :: nat where "argonKeyLen = 32"
definition argonSaltLen :: nat where "argonSaltLen = 16"
definition argonAlgo :: string where "argonAlgo = ''argon2id''"
definition argonConcurrencyCap :: nat where "argonConcurrencyCap = 4"
definition argonMaxMemory :: nat where "argonMaxMemory = 65536"
definition argonMaxTime :: nat where "argonMaxTime = 10"
definition minPasswordLen :: nat where "minPasswordLen = 10"
definition maxPasswordLen :: nat where "maxPasswordLen = 1024"

lemmas argon_consts =
  argonMemoryKiB_def argonTime_def argonThreads_def argonKeyLen_def argonSaltLen_def
  argonAlgo_def argonMaxMemory_def argonMaxTime_def

text \<open>\<open>argon2.Version\<close>, the version number of the library.\<close>

definition argon2_Version :: nat where "argon2_Version = 0x13"

section \<open>The password policy\<close>

definition newline :: char where "newline = CHR 0x0A"

definition common_password_lines :: "string list" where
  "common_password_lines =
    [''# Commonly-breached and locally-obvious passwords, one per line, lower-cased.'',
     ''# Compared case-insensitively; blank lines and #-comments ignored.'',
     ''#'',
     ''# Only entries at or above the 10-rune minimum can ever match, so shorter'',
     ''# classics (password, 123456) are already rejected by length.'',
     ''password123'',
     ''password1234'',
     ''password12345'',
     ''passw0rd123'',
     ''1234567890'',
     ''12345678901'',
     ''123456789012'',
     ''qwerty123456'',
     ''qwertyuiop123'',
     ''iloveyou123'',
     ''letmein123'',
     ''welcome123'',
     ''admin12345'',
     ''administrator'',
     ''football123'',
     ''superman123'',
     ''trustno1234'',
     ''sunshine123'',
     ''princess123'',
     ''starwars123'',
     ''whatever123'',
     ''liverpool123'',
     ''manchester123'',
     ''monkey123456'',
     ''dragon123456'',
     ''baseball123'',
     ''basketball1'',
     ''passwordpassword'',
     ''qwertyqwerty'',
     ''abcd12345678'',
     ''aaaaaaaaaa'',
     ''1qaz2wsx3edc'',
     ''zaq12wsxcde3'',
     ''indonesia123'',
     ''jakarta12345'',
     ''bismillah123'',
     ''alhamdulillah'',
     ''sayangkamu123'',
     ''akucintakamu'',
     '''']"

text \<open>The embedded file.\<close>

definition commonPasswordsRaw :: string where
  "commonPasswordsRaw = Join common_password_lines [newline]"

definition denylist_entry :: "(nat \<Rightarrow> nat) \<Rightarrow> string \<Rightarrow> string option" where
  "denylist_entry ulow line =
     (let entry = TrimSpace (ToLower ulow line)
      in if entry \<noteq> [] \<and> \<not> HasPrefix entry ''#'' then Some entry else None)"

definition commonPasswords :: "(nat \<Rightarrow> nat) \<Rightarrow> string set" where
  "commonPasswords ulow =
     set (List.map_filter (denylist_entry ulow) (Split commonPasswordsRaw newline))"

definition isCommonPassword :: "(nat \<Rightarrow> nat) \<Rightarrow> string \<Rightarrow> bool" where
  "isCommonPassword ulow password \<longleftrightarrow> ToLower ulow password \<in> commonPasswords ulow"

datatype policy_error = ErrPasswordTooShort | ErrPasswordTooLong | ErrPasswordCommon

definition ValidatePasswordPolicy :: "(nat \<Rightarrow> nat) \<Rightarrow> string \<Rightarrow> policy_error + unit" where
  "ValidatePasswordPolicy ulow password =
     (if RuneCountInString password < minPasswordLen then Inl ErrPasswordTooShort
      else if RuneCountInString password > maxPasswordLen then Inl ErrPasswordTooLong
      else if isCommonPassword ulow password then Inl ErrPasswordCommon
      else Inr ())"

section \<open>PHC strings\<close>

record argonParams =
  memory :: nat
  time :: nat
  threads :: nat

definition buildPHC :: "nat \<Rightarrow> nat \<Rightarrow> nat \<Rightarrow> string \<Rightarrow> string \<Rightarrow> string" where
  "buildPHC m t p salt digest =
     ''$'' @ argonAlgo @ ''$v='' @ format_nat argon2_Version @ ''$m='' @ format_nat m @
     '',t='' @ format_nat t @ '',p='' @ format_nat p @ ''$'' @
     RawStd_EncodeToString salt @ ''$'' @ RawStd_EncodeToString digest"

text \<open>
  The regular expression \<open>phcShape\<close>, matched left to right: each group is a maximal run of
  its class, which is exact because the literal after a group starts outside the class.
\<close>

definition strip_lit :: "string \<Rightarrow> string \<Rightarrow> string option" where
  "strip_lit lit s = (if HasPrefix s lit then Some (drop (length lit) s) else None)"

definition take_run :: "(char \<Rightarrow> bool) \<Rightarrow> nat \<Rightarrow> string \<Rightarrow> (string \<times> string) option" where
  "take_run P least s =
     (if length (takeWhile P s) \<ge> least then Some (takeWhile P s, dropWhile P s) else None)"

definition is_b64 :: "char \<Rightarrow> bool" where
  "is_b64 c \<longleftrightarrow> b64_val (CHR ''+'') (CHR ''/'') c \<noteq> None"

definition phcShape :: "string \<Rightarrow> (string \<times> string \<times> string \<times> string \<times> string) option" where
  "phcShape s =
     Option.bind (strip_lit ''$argon2id$v=19$m='' s) (\<lambda>s.
     Option.bind (take_run is_digit 1 s) (\<lambda>(m, s).
     Option.bind (strip_lit '',t='' s) (\<lambda>s.
     Option.bind (take_run is_digit 1 s) (\<lambda>(t, s).
     Option.bind (strip_lit '',p='' s) (\<lambda>s.
     Option.bind (take_run is_digit 1 s) (\<lambda>(p, s).
     Option.bind (strip_lit ''$'' s) (\<lambda>s.
     Option.bind (take_run is_b64 1 s) (\<lambda>(salt, s).
     Option.bind (strip_lit ''$'' s) (\<lambda>s.
     Option.bind (take_run is_b64 6 s) (\<lambda>(hash, s).
     if s = [] then Some (m, t, p, salt, hash) else None))))))))))"

datatype phc_error = NotPHC | ParamsOutOfRange | BadSalt | BadHash

definition parsePHC :: "string \<Rightarrow> phc_error + (argonParams \<times> string \<times> string)" where
  "parsePHC phc =
     (case phcShape phc of None \<Rightarrow> Inl NotPHC
      | Some (m1, m2, m3, m4, m5) \<Rightarrow>
        (case (ParseUint m1 32, ParseUint m2 32, ParseUint m3 8) of
           (Some m, Some iterations, Some p) \<Rightarrow>
             if iterations < 1 \<or> iterations > argonMaxTime \<or>
                p < 1 \<or> m < 8 * p \<or> m > argonMaxMemory
             then Inl ParamsOutOfRange
             else (case RawStd_DecodeString m4 of None \<Rightarrow> Inl BadSalt
                   | Some salt \<Rightarrow>
                     (case RawStd_DecodeString m5 of None \<Rightarrow> Inl BadHash
                      | Some hash \<Rightarrow>
                        Inr (\<lparr>memory = m, time = iterations, threads = p\<rparr>, salt, hash)))
         | _ \<Rightarrow> Inl ParamsOutOfRange))"

section \<open>Hashing and verifying\<close>

text \<open>
  \<open>idk password salt time memory threads keyLen\<close>. The library panics on a zero time or a
  zero number of threads: \<open>None\<close>.
\<close>

type_synonym argon2 = "string \<Rightarrow> string \<Rightarrow> nat \<Rightarrow> nat \<Rightarrow> nat \<Rightarrow> nat \<Rightarrow> string"

definition IDKey :: "argon2 \<Rightarrow> string \<Rightarrow> string \<Rightarrow> nat \<Rightarrow> nat \<Rightarrow> nat \<Rightarrow> nat \<Rightarrow> string option" where
  "IDKey idk password salt t m p keyLen =
     (if t < 1 \<or> p < 1 then None else Some (idk password salt t m p keyLen))"

definition idkey_length :: "argon2 \<Rightarrow> bool" where
  "idkey_length idk \<longleftrightarrow>
     (\<forall>password salt t m p keyLen. length (idk password salt t m p keyLen) = keyLen)"

definition ConstantTimeCompare :: "string \<Rightarrow> string \<Rightarrow> nat" where
  "ConstantTimeCompare a b = (if length a \<noteq> length b then 0 else of_bool (a = b))"

text \<open>\<open>None\<close> is a panic.\<close>

definition verifyHoldingPermit :: "argon2 \<Rightarrow> string \<Rightarrow> string \<Rightarrow> bool option" where
  "verifyHoldingPermit idk password phc =
     (case parsePHC phc of Inl _ \<Rightarrow> Some False
      | Inr (params, salt, want) \<Rightarrow>
        (case IDKey idk password salt (time params) (memory params) (threads params)
                (length want mod 2 ^ 32) of
           None \<Rightarrow> None
         | Some got \<Rightarrow> Some (ConstantTimeCompare got want = 1)))"

text \<open>
  \<open>HashPassword\<close> under the outcomes of its two effects: the salt \<open>crypto/rand\<close> fills in (or
  its failure) and the wait for a permit.
\<close>



datatype hash_error = GenerateSalt | WaitForPermit ctx_err | ArgonPanic

definition HashPassword ::
  "argon2 \<Rightarrow> string option \<Rightarrow> ctx_err + unit \<Rightarrow> string \<Rightarrow> hash_error + string" where
  "HashPassword idk salt_read permit password =
     (case salt_read of None \<Rightarrow> Inl GenerateSalt
      | Some salt \<Rightarrow>
        (case permit of Inl err \<Rightarrow> Inl (WaitForPermit err)
         | Inr _ \<Rightarrow>
           (case IDKey idk password salt argonTime argonMemoryKiB argonThreads argonKeyLen of
              None \<Rightarrow> Inl ArgonPanic
            | Some digest \<Rightarrow> Inr (buildPHC argonMemoryKiB argonTime argonThreads salt digest))))"

section \<open>The shape of a PHC string\<close>

lemma strip_lit_iff: "strip_lit lit s = Some r \<longleftrightarrow> s = lit @ r"
  by (auto simp: strip_lit_def HasPrefix_iff)

lemma take_run_iff:
  "take_run P n s = Some (w, r) \<longleftrightarrow>
     s = w @ r \<and> list_all P w \<and> n \<le> length w \<and> (r = [] \<or> \<not> P (hd r))"
proof
  assume "take_run P n s = Some (w, r)"
  then have w: "w = takeWhile P s" "r = dropWhile P s" "n \<le> length w"
    by (auto simp: take_run_def split: if_splits)
  then show "s = w @ r \<and> list_all P w \<and> n \<le> length w \<and> (r = [] \<or> \<not> P (hd r))"
    using hd_dropWhile [of P s] by (auto simp: list_all_iff dest: set_takeWhileD)
next
  assume a: "s = w @ r \<and> list_all P w \<and> n \<le> length w \<and> (r = [] \<or> \<not> P (hd r))"
  then have "takeWhile P r = []" "dropWhile P r = r" by (cases r; auto)+
  with a show "take_run P n s = Some (w, r)"
    by (auto simp: take_run_def list_all_iff)
qed

definition phc_text :: "string \<Rightarrow> string \<Rightarrow> string \<Rightarrow> string \<Rightarrow> string \<Rightarrow> string" where
  "phc_text m t p salt hash =
     ''$argon2id$v=19$m='' @ m @ '',t='' @ t @ '',p='' @ p @ ''$'' @ salt @ ''$'' @ hash"

definition phc_groups :: "string \<Rightarrow> string \<Rightarrow> string \<Rightarrow> string \<Rightarrow> string \<Rightarrow> bool" where
  "phc_groups m t p salt hash \<longleftrightarrow>
     (\<forall>d \<in> {m, t, p}. d \<noteq> [] \<and> list_all is_digit d) \<and>
     salt \<noteq> [] \<and> list_all is_b64 salt \<and> 6 \<le> length hash \<and> list_all is_b64 hash"

lemma separators [simp]:
  "\<not> is_digit (CHR '','')" "\<not> is_digit (CHR ''$'')" "\<not> is_b64 (CHR ''$'')"
  by (simp_all add: is_digit_def is_b64_def b64_val_def byte_in_def)

lemma phcShape_iff:
  "phcShape s = Some (m, t, p, salt, hash) \<longleftrightarrow>
     s = phc_text m t p salt hash \<and> phc_groups m t p salt hash"
proof
  assume "phcShape s = Some (m, t, p, salt, hash)"
  then show "s = phc_text m t p salt hash \<and> phc_groups m t p salt hash"
    by (auto simp: phcShape_def Option.bind_eq_Some_conv strip_lit_iff take_run_iff
        phc_text_def phc_groups_def split: if_splits)
next
  have lit: "strip_lit lit (lit @ r) = Some r" for lit r by (simp add: strip_lit_iff)
  have run: "take_run P n (w @ r) = Some (w, r)"
    if "list_all P w" "n \<le> length w" "r = [] \<or> \<not> P (hd r)" for P n w r
    using that by (simp add: take_run_iff)
  assume "s = phc_text m t p salt hash \<and> phc_groups m t p salt hash"
  then show "phcShape s = Some (m, t, p, salt, hash)"
    unfolding phc_text_def phcShape_def phc_groups_def
    using run [of is_b64 hash 6 "[]"]
    by (simp only: lit Option.bind.simps)
       (simp add: run strip_lit_def HasPrefix_def Suc_le_eq)
qed

section \<open>Parsing and building\<close>

definition params_ok :: "argonParams \<Rightarrow> bool" where
  "params_ok ps \<longleftrightarrow> 1 \<le> time ps \<and> time ps \<le> argonMaxTime \<and> 1 \<le> threads ps \<and> threads ps < 2 ^ 8 \<and>
     8 * threads ps \<le> memory ps \<and> memory ps \<le> argonMaxMemory"

lemma parsePHC_Inr_iff:
  "parsePHC phc = Inr (ps, salt, hash) \<longleftrightarrow>
     (\<exists>m t p b h. phc = phc_text m t p b h \<and> phc_groups m t p b h \<and>
        ParseUint m 32 = Some (memory ps) \<and> ParseUint t 32 = Some (time ps) \<and>
        ParseUint p 8 = Some (threads ps) \<and> params_ok ps \<and>
        RawStd_DecodeString b = Some salt \<and> RawStd_DecodeString h = Some hash)"
proof (cases "phcShape phc")
  case None
  then have "\<not> (phc = phc_text m t p b h \<and> phc_groups m t p b h)" for m t p b h
    using phcShape_iff [of phc m t p b h] by simp
  with None show ?thesis by (auto simp: parsePHC_def)
next
  case (Some g)
  then obtain m t p b h where g: "phcShape phc = Some (m, t, p, b, h)" by (cases g) auto
  have u: "m' = m \<and> t' = t \<and> p' = p \<and> b' = b \<and> h' = h"
    if "phc = phc_text m' t' p' b' h'" "phc_groups m' t' p' b' h'" for m' t' p' b' h'
    using g that phcShape_iff [of phc m' t' p' b' h'] by simp
  have "parsePHC phc = Inr (ps, salt, hash) \<longleftrightarrow>
      ParseUint m 32 = Some (memory ps) \<and> ParseUint t 32 = Some (time ps) \<and>
      ParseUint p 8 = Some (threads ps) \<and> params_ok ps \<and>
      RawStd_DecodeString b = Some salt \<and> RawStd_DecodeString h = Some hash"
    using g by (cases ps) (auto simp: parsePHC_def params_ok_def not_less Suc_le_eq
        dest: ParseUint_Some split: option.splits)
  moreover have "phc = phc_text m t p b h \<and> phc_groups m t p b h"
    using g by (simp only: phcShape_iff)
  ultimately show ?thesis using u by blast
qed

lemma is_b64_encode: "list_all is_b64 (RawStd_EncodeToString s)"
  using b64_encode_alphabet [OF b64_extra_std, of s]
  by (simp add: RawStd_EncodeToString_def list_all_iff is_b64_def)

lemma RawStd_length: "length (RawStd_EncodeToString s) = (length s * 4 + 2) div 3"
  by (simp add: RawStd_EncodeToString_def b64_encode_length)

lemma format_version: "format_nat argon2_Version = ''19''"
  by (simp add: argon2_Version_def format_nat.simps digit_char_def char_of_eq)

lemma buildPHC_text:
  "buildPHC m t p salt digest =
     phc_text (format_nat m) (format_nat t) (format_nat p)
       (RawStd_EncodeToString salt) (RawStd_EncodeToString digest)"
  by (simp add: buildPHC_def phc_text_def format_version argonAlgo_def)

lemma parsePHC_buildPHC:
  assumes "params_ok ps" "salt \<noteq> []" "4 \<le> length digest"
  shows "parsePHC (buildPHC (memory ps) (time ps) (threads ps) salt digest) = Inr (ps, salt, digest)"
proof -
  have "6 \<le> length (RawStd_EncodeToString digest)" using assms(3) by (simp add: RawStd_length)
  moreover have "RawStd_EncodeToString salt \<noteq> []"
    using assms(2) RawStd_length [of salt] by (cases salt) auto
  ultimately have "phc_groups (format_nat (memory ps)) (format_nat (time ps)) (format_nat (threads ps))
      (RawStd_EncodeToString salt) (RawStd_EncodeToString digest)"
    by (simp add: phc_groups_def is_b64_encode)
  moreover have "memory ps < 2 ^ 32" "time ps < 2 ^ 32" "threads ps < 2 ^ 8"
    using assms(1) by (simp_all add: params_ok_def argon_consts)
  note this [THEN ParseUint_format_nat]
  ultimately show ?thesis
    unfolding parsePHC_Inr_iff buildPHC_text using assms(1) b64_std.dec_enc by blast
qed

interpretation phc: codec
  "\<lambda>(ps, salt, digest). buildPHC (memory ps) (time ps) (threads ps) salt digest"
  "\<lambda>s. case parsePHC s of Inl _ \<Rightarrow> None | Inr r \<Rightarrow> Some r"
  "\<lambda>(ps, salt, digest). params_ok ps \<and> salt \<noteq> [] \<and> 4 \<le> length digest"
  by unfold_locales (auto simp: parsePHC_buildPHC)

lemma never_panics: "verifyHoldingPermit idk password phc \<noteq> None"
proof -
  have "params_ok ps" if "parsePHC phc = Inr (ps, salt, want)" for ps salt want
    using that unfolding parsePHC_Inr_iff by blast
  then show ?thesis
    by (force simp: verifyHoldingPermit_def IDKey_def params_ok_def split: sum.splits)
qed

text \<open>
  C32. Whatever string is stored as a hash, checking a password against it never panics; and
  a string the parser accepts names a cost inside the ceilings (at most 64 MiB and ten
  passes, at least one lane and 8 KiB per lane) and a digest of at least four bytes.
\<close>

theorem parsePHC_bounded:
  assumes "parsePHC phc = Inr (ps, salt, want)"
  shows "1 \<le> time ps \<and> time ps \<le> 10 \<and> 1 \<le> threads ps \<and> threads ps \<le> 255 \<and>
    8 * threads ps \<le> memory ps \<and> memory ps \<le> 65536 \<and> 4 \<le> length want \<and>
    (\<forall>phc'. verifyHoldingPermit idk password phc' \<noteq> None)"
proof -
  have ok: "params_ok ps" using assms unfolding parsePHC_Inr_iff by blast
  obtain h where "6 \<le> length h" "RawStd_DecodeString h = Some want"
    using assms unfolding parsePHC_Inr_iff phc_groups_def by blast
  then have "4 \<le> length want"
    using b64_decode_length [of "CHR ''+''" "CHR ''/''" h want] by (simp add: RawStd_DecodeString_def)
  then show ?thesis
    using ok never_panics by (simp add: params_ok_def argon_consts)
qed

definition other_cost_phc :: string where
  "other_cost_phc = buildPHC 8192 3 2 (replicate 16 (CHR ''s'')) (replicate 32 (CHR ''d''))"

lemma other_cost_parses:
  "parsePHC other_cost_phc =
     Inr (\<lparr>memory = 8192, time = 3, threads = 2\<rparr>, replicate 16 (CHR ''s''), replicate 32 (CHR ''d''))"
  unfolding other_cost_phc_def
  using parsePHC_buildPHC [of "\<lparr>memory = 8192, time = 3, threads = 2\<rparr>"
      "replicate 16 (CHR ''s'')" "replicate 32 (CHR ''d'')"]
  by (simp add: params_ok_def argon_consts)

theorem parsePHC_bounded_witness:
  "\<exists>ps salt want. parsePHC other_cost_phc = Inr (ps, salt, want) \<and> memory ps = 8192 \<and>
     1 \<le> time ps \<and> memory ps \<le> 65536 \<and> 4 \<le> length want \<and>
     verifyHoldingPermit (\<lambda>_ _ _ _ _ n. replicate n (CHR ''a'')) ''password'' other_cost_phc \<noteq> None"
  using other_cost_parses parsePHC_bounded [OF other_cost_parses]
  by (intro exI conjI) (rule other_cost_parses, simp_all)

text \<open>Checking a guess against a digest stored at the current cost.\<close>

lemma verify_built:
  assumes "idkey_length idk" "length salt = argonSaltLen"
  shows "verifyHoldingPermit idk guess (buildPHC 19456 2 1 salt (idk password salt 2 19456 1 32)) =
    Some (idk guess salt 2 19456 1 32 = idk password salt 2 19456 1 32)"
proof -
  let ?ps = "\<lparr>memory = 19456, time = 2, threads = 1\<rparr>" and ?d = "idk password salt 2 19456 1 32"
  have len: "length (idk guess salt 2 19456 1 32) = 32" for guess
    using assms(1) by (simp add: idkey_length_def)
  have "salt \<noteq> []" using assms(2) by (auto simp: argonSaltLen_def)
  then have parse: "parsePHC (buildPHC 19456 2 1 salt ?d) = Inr (?ps, salt, ?d)"
    using parsePHC_buildPHC [of ?ps salt ?d] len by (simp add: params_ok_def argon_consts)
  then show ?thesis
    using len by (simp add: verifyHoldingPermit_def IDKey_def ConstantTimeCompare_def)
qed

lemma HashPassword_built:
  "HashPassword idk (Some salt) (Inr ()) password =
     Inr (buildPHC 19456 2 1 salt (idk password salt 2 19456 1 32))"
  by (simp add: HashPassword_def IDKey_def argon_consts)

text \<open>
  C31. A freshly hashed password verifies: \<open>HashPassword\<close> returns a string against which a
  password checks out exactly when Argon2id maps it, under that salt and cost, to the same
  32 bytes. In particular the password itself does.
\<close>

theorem hash_then_verify:
  assumes "idkey_length idk" "length salt = argonSaltLen"
  shows "\<exists>phc. HashPassword idk (Some salt) (Inr ()) password = Inr phc \<and>
    verifyHoldingPermit idk password phc = Some True \<and>
    (\<forall>guess. verifyHoldingPermit idk guess phc =
       Some (idk guess salt 2 19456 1 32 = idk password salt 2 19456 1 32))"
  using verify_built [OF assms] by (simp add: HashPassword_built)

definition toy_idk :: argon2 where
  "toy_idk password salt t m p keyLen = take keyLen (password @ replicate keyLen (CHR ''=''))"

lemma toy_idk_length: "idkey_length toy_idk"
  by (auto simp: idkey_length_def toy_idk_def min_def)

theorem hash_then_verify_witness:
  "\<exists>phc. HashPassword toy_idk (Some (replicate 16 (CHR ''s''))) (Inr ()) ''right'' = Inr phc \<and>
     verifyHoldingPermit toy_idk ''right'' phc = Some True \<and>
     verifyHoldingPermit toy_idk ''wrong'' phc = Some False"
  using hash_then_verify [OF toy_idk_length, of "replicate 16 (CHR ''s'')" "''right''"]
  by (fastforce simp: argonSaltLen_def toy_idk_def)

section \<open>The denylist\<close>

definition listed :: "string \<Rightarrow> bool" where
  "listed line \<longleftrightarrow> line \<noteq> [] \<and> hd line \<noteq> CHR ''#''"

definition plain_line :: "string \<Rightarrow> bool" where
  "plain_line line \<longleftrightarrow> line = [] \<or>
     list_all (\<lambda>c. 32 \<le> (of_char c :: nat) \<and> of_char c < (0x80 :: nat)) line \<and>
     hd line \<noteq> CHR '' '' \<and> last line \<noteq> CHR '' '' \<and>
     (hd line = CHR ''#'' \<or>
      list_all (\<lambda>c. of_char c < (65 :: nat) \<or> (90 :: nat) < of_char c) line \<and>
      10 \<le> length line \<and> length line \<le> 1024)"

lemma lines_plain: "list_all plain_line common_password_lines"
  by (simp add: common_password_lines_def plain_line_def)

lemma plain_line_ascii: "plain_line line \<Longrightarrow> is_ascii line"
  by (auto simp: plain_line_def is_ascii_def list_all_iff)

lemma not_IsSpace: "32 \<le> n \<Longrightarrow> n < 0x80 \<Longrightarrow> n \<noteq> 32 \<Longrightarrow> \<not> IsSpace n"
  by (auto simp: IsSpace_def)

lemma denylist_entry_plain:
  assumes "plain_line line"
  shows "denylist_entry ulow line = (if listed line then Some line else None)"
proof (cases "line = []")
  case True
  then show ?thesis
    by (simp add: denylist_entry_def ToLower_def is_ascii_def TrimSpace_def trim_both_def listed_def)
next
  case False
  let ?l = "map lower_byte line"
  have asc: "is_ascii ?l" by (intro is_ascii_lower plain_line_ascii assms)
  have "\<not> IsSpace (of_char (lower_byte c))" if "c \<in> {hd line, last line}" for c
  proof -
    have "c \<in> set line" using that False by auto
    then have "32 \<le> (of_char c :: nat)" "of_char c < (0x80 :: nat)" "c \<noteq> CHR '' ''"
      using assms that False by (auto simp: plain_line_def list_all_iff)
    moreover have "(of_char c :: nat) \<noteq> 32" using \<open>c \<noteq> CHR '' ''\<close> of_char_eq_iff [where 'a = nat, of c "CHR '' ''"] by simp
    ultimately show ?thesis by (intro not_IsSpace) (auto simp: of_char_lower_byte ascii_lower_def)
  qed
  then have "TrimSpace ?l = ?l"
    unfolding TrimSpace_ascii [OF asc] by (intro trim_both_id) (use False in \<open>simp add: hd_map last_map\<close>)
  moreover have "lower_byte (hd line) = CHR ''#'' \<longleftrightarrow> hd line = CHR ''#''"
    using of_char_eq_iff [where 'a = nat, of "lower_byte (hd line)" "CHR ''#''"]
      of_char_eq_iff [where 'a = nat, of "hd line" "CHR ''#''"]
    by (simp add: of_char_lower_byte ascii_lower_def split: if_splits)
  moreover have "?l = line" if "hd line \<noteq> CHR ''#''"
    using assms False that by (auto simp: plain_line_def list_all_iff lower_byte_id intro!: map_idI)
  ultimately show ?thesis
    using False plain_line_ascii [OF assms]
    by (cases line) (auto simp: denylist_entry_def ToLower_ascii listed_def HasPrefix_def)
qed

lemma commonPasswords_eq: "commonPasswords ulow = set (filter listed common_password_lines)"
proof -
  have "newline \<notin> set line" if "plain_line line" for line
    using that by (force simp: plain_line_def list_all_iff newline_def)
  then have "list_all (\<lambda>line. newline \<notin> set line) common_password_lines"
    using lines_plain by (simp add: list_all_iff)
  then have "Split commonPasswordsRaw newline = common_password_lines"
    unfolding commonPasswordsRaw_def by (intro Split_Join) (simp_all add: common_password_lines_def)
  moreover have "List.map_filter (denylist_entry ulow) ls = filter listed ls" if "list_all plain_line ls" for ls
    using that by (induction ls) (simp_all add: List.map_filter_simps denylist_entry_plain)
  ultimately show ?thesis using lines_plain by (simp add: commonPasswords_def)
qed

text \<open>
  A listed password is refused as common in any spelling of its letters' case, and the
  denylist has no dead entry: the refusal is never by length first.
\<close>

theorem denylist_refuses_case_variants:
  assumes "is_ascii password" and "map lower_byte password \<in> commonPasswords ulow"
  shows "ValidatePasswordPolicy ulow password = Inl ErrPasswordCommon"
proof -
  have "plain_line (map lower_byte password)" "listed (map lower_byte password)"
    using assms(2) lines_plain by (auto simp: commonPasswords_eq list_all_iff)
  then have "10 \<le> length password" "length password \<le> 1024"
    by (auto simp: plain_line_def listed_def)
  with assms show ?thesis
    by (simp add: ValidatePasswordPolicy_def RuneCountInString_ascii isCommonPassword_def
        ToLower_ascii minPasswordLen_def maxPasswordLen_def)
qed

theorem denylist_refuses_case_variants_witness:
  "ValidatePasswordPolicy id ''Password1234'' = Inl ErrPasswordCommon"
proof (rule denylist_refuses_case_variants)
  show "is_ascii ''Password1234''" by (simp add: is_ascii_def)
  have "map lower_byte ''Password1234'' = ''password1234''"
    by (simp add: lower_byte_def ascii_lower_def byte_of_def char_of_eq)
  then show "map lower_byte ''Password1234'' \<in> commonPasswords id"
    by (simp add: commonPasswords_eq common_password_lines_def listed_def)
qed

end
