(* ===== verification/Httperr.thy ===== *)
theory Httperr
  imports Go_Json "HOL-Library.List_Lexorder"
begin

text \<open>
  The error envelope (\<open>backend/internal/httperr\<close>): the codes, the response \<open>Write\<close> ends with,
  and the mapping of a validator failure. The validator library is seen through the list
  of field errors it returns, in its order.
\<close>

definition CodeValidation :: string where "CodeValidation = ''VALIDATION''"
definition CodeInvalidJSONBody :: string where "CodeInvalidJSONBody = ''INVALID_JSON_BODY''"
definition CodeInvalidCredentials :: string where "CodeInvalidCredentials = ''INVALID_CREDENTIALS''"
definition CodeTooManyAttempts :: string where "CodeTooManyAttempts = ''TOO_MANY_ATTEMPTS''"
definition CodeUnauthorized :: string where "CodeUnauthorized = ''UNAUTHORIZED''"
definition CodeCrossSiteRequestBlocked :: string where
  "CodeCrossSiteRequestBlocked = ''CROSS_SITE_REQUEST_BLOCKED''"
definition CodeInternal :: string where "CodeInternal = ''INTERNAL''"

lemmas code_defs =
  CodeValidation_def CodeInvalidJSONBody_def CodeInvalidCredentials_def CodeTooManyAttempts_def
  CodeUnauthorized_def CodeCrossSiteRequestBlocked_def CodeInternal_def

text \<open>\<open>Args\<close> as an association list; an empty one is an omitted field.\<close>

record Envelope =
  env_Code :: string
  env_Args :: "(string \<times> string) list"

text \<open>A map is encoded in the order of its keys.\<close>

definition envelope_json :: "Envelope \<Rightarrow> json" where
  "envelope_json env = JObject ((''code'', JString (env_Code env)) #
     (if env_Args env = [] then []
      else [(''args'', JObject (map (\<lambda>(k, v). (k, JString v)) (sort_key fst (env_Args env))))]))"

record reply =
  rp_status :: nat
  rp_contentType :: string
  rp_envelope :: Envelope

definition Write :: "nat \<Rightarrow> string \<Rightarrow> (string \<times> string) list \<Rightarrow> reply" where
  "Write status code args =
     \<lparr>rp_status = status, rp_contentType = ''application/json'',
      rp_envelope = \<lparr>env_Code = code, env_Args = args\<rparr>\<rparr>"

record FieldError =
  fe_Field :: string
  fe_StructField :: string
  fe_Tag :: string

text \<open>
  How the validator names a field: the name of its \<open>json\<close> tag up to the first comma, or the
  field's own where the tag has none.
\<close>

definition tag_name :: "string \<Rightarrow> string \<Rightarrow> string" where
  "tag_name json_tag field =
     (let name = fst (Cut json_tag (CHR '','')) in if name = [] \<or> name = ''-'' then field else name)"

definition jsonFieldName :: "FieldError \<Rightarrow> string" where
  "jsonFieldName fe = (if fe_Field fe \<noteq> [] then fe_Field fe else fe_StructField fe)"

text \<open>\<open>None\<close>: the error is no \<open>validator.ValidationErrors\<close>.\<close>

definition WriteValidation :: "FieldError list option \<Rightarrow> reply" where
  "WriteValidation err =
     (case err of
        Some (first # _) \<Rightarrow>
          Write 400 CodeValidation [(''field'', jsonFieldName first), (''rule'', fe_Tag first)]
      | _ \<Rightarrow> Write 400 CodeValidation [])"

text \<open>
  A failure is reported under the name the contract knows: of a tag such as
  \<open>display_name,omitempty\<close> the part before the comma.
\<close>

lemma tag_name_tagged:
  assumes "CHR '','' \<notin> set name" "name \<noteq> []" "name \<noteq> ''-''"
  shows "tag_name name field = name" "tag_name (name @ CHR '','' # options) field = name"
  using assms by (simp_all add: tag_name_def Cut_absent Cut_append)

lemma tag_name_untagged: "tag_name [] field = field" "tag_name ''-'' field = field" "tag_name (CHR '','' # options) field = field"
  by (simp_all add: tag_name_def)

end
