(* ===== verification/Session.thy ===== *)
theory Session
  imports Request Password Httperr
begin

text \<open>
  Server-side sessions (\<open>backend/internal/auth/session.go\<close>, \<open>handlers.go\<close>) over the queries of
  theory Db. The world a handler runs in has the database, the process clock
  (nanoseconds), the database clock (microseconds), what goes wrong and how long it takes
  at each statement, what happens while a request queues for an Argon2 permit (how long it
  waits and what other requests do to the database meanwhile), the outcomes of \<open>crypto/rand\<close> and the log.
\<close>

section \<open>The world\<close>

datatype fault = NoFault | LostBefore | LostAfter

datatype level = Info | Warn | Error

record world =
  w_db :: database
  w_clock :: int
  w_dbclock :: int
  w_script :: "(nat \<times> fault) list"
  w_queue :: "(nat \<times> (database \<Rightarrow> database)) list"
  w_rand :: "string option list"
  w_log :: "(level \<times> string) list"

text \<open>Time passes, on both clocks.\<close>

definition elapse :: "nat \<Rightarrow> world \<Rightarrow> world" where
  "elapse ns w = w\<lparr>w_clock := w_clock w + int ns, w_dbclock := w_dbclock w + int (ns div 1000)\<rparr>"

definition next_fault :: "world \<Rightarrow> nat \<times> fault" where
  "next_fault w = (case w_script w of [] \<Rightarrow> (0, NoFault) | f # _ \<Rightarrow> f)"

definition slog :: "level \<Rightarrow> string \<Rightarrow> world \<Rightarrow> world" where
  "slog l msg w = w\<lparr>w_log := w_log w @ [(l, msg)]\<rparr>"

text \<open>
  One statement on a context. It fails when the context has ended or the connection is
  lost, which may be before or after the database executed it.
\<close>

definition stmt_error :: "ctx \<Rightarrow> fault \<Rightarrow> world \<Rightarrow> query_error option" where
  "stmt_error c f w =
     (case ctx_Err (w_clock w) c of
        Some e \<Rightarrow> Some (CtxEnded e)
      | None \<Rightarrow> if f = NoFault then None else Some ConnectionFailed)"

definition run :: "ctx \<Rightarrow> 'a query \<Rightarrow> world \<Rightarrow> (query_error + 'a) \<times> world" where
  "run c q w =
     (let (ns, f) = next_fault w;
          w1 = elapse ns (w\<lparr>w_script := tl (w_script w)\<rparr>);
          answer = q (w_dbclock w1) (w_db w1)
      in case stmt_error c f w1 of
           Some e \<Rightarrow>
             (Inl e, case answer of Inr (_, d) \<Rightarrow> if f = LostAfter then w1\<lparr>w_db := d\<rparr> else w1
                                  | Inl _ \<Rightarrow> w1)
         | None \<Rightarrow>
             (case answer of Inl e \<Rightarrow> (Inl e, w1) | Inr (x, d) \<Rightarrow> (Inr x, w1\<lparr>w_db := d\<rparr>)))"

text \<open>\<open>rand.Read\<close> into a fresh slice.\<close>

definition rand_Read :: "world \<Rightarrow> string option \<times> world" where
  "rand_Read w = (case w_rand w of [] \<Rightarrow> (None, w) | r # rs \<Rightarrow> (r, w\<lparr>w_rand := rs\<rparr>))"

definition logQueryError :: "string \<Rightarrow> query_error \<Rightarrow> world \<Rightarrow> world" where
  "logQueryError msg err w = (if err = CtxEnded Canceled then slog Warn msg w else slog Error msg w)"

section \<open>Handlers\<close>

text \<open>\<open>now\<close> reads the process clock through the seam tests replace.\<close>

record Handlers =
  sessionTTL :: int
  sessionMaxLifetime :: int
  cookieSecure :: bool
  firstBackoff :: int
  maxBackoff :: int
  now_fn :: "int \<Rightarrow> int"

record Deps =
  dep_SessionTTL :: int
  dep_SessionMaxLifetime :: int
  dep_CookieSecure :: bool
  dep_FirstBackoff :: int
  dep_MaxBackoff :: int
  dep_Now :: "(int \<Rightarrow> int) option"

definition New :: "Deps \<Rightarrow> Handlers" where
  "New d =
     \<lparr>sessionTTL = dep_SessionTTL d, sessionMaxLifetime = dep_SessionMaxLifetime d,
      cookieSecure = dep_CookieSecure d, firstBackoff = dep_FirstBackoff d,
      maxBackoff = dep_MaxBackoff d,
      now_fn = (case dep_Now d of None \<Rightarrow> (\<lambda>t. t) | Some f \<Rightarrow> f)\<rparr>"

text \<open>The code the package calls and does not contain.\<close>

record externals =
  ext_idk :: argon2
  ext_sha256 :: "string \<Rightarrow> string"
  ext_pg_lower :: "string \<Rightarrow> string"
  ext_ulow :: "nat \<Rightarrow> nat"

definition h_now :: "Handlers \<Rightarrow> world \<Rightarrow> int" where
  "h_now h w = now_fn h (w_clock w)"

text \<open>A \<open>time.Time\<close> as a \<open>timestamptz\<close>, and back; a \<open>time.Duration\<close> as an interval.\<close>

definition to_pg :: "int \<Rightarrow> timestamptz" where "to_pg ns = ns div 1000"
definition from_pg :: "timestamptz \<Rightarrow> int" where "from_pg us = us * 1000"

definition intervalFrom :: "int \<Rightarrow> interval" where
  "intervalFrom d = d sdiv 1000"

definition nullString :: "string \<Rightarrow> string option" where
  "nullString s = (if s = [] then None else Some s)"

section \<open>Tokens and cookies\<close>

definition newSessionToken :: "world \<Rightarrow> string option \<times> world" where
  "newSessionToken w =
     (case rand_Read w of (None, w1) \<Rightarrow> (None, w1)
      | (Some b, w1) \<Rightarrow> (Some (RawURL_EncodeToString b), w1))"

definition HashToken :: "externals \<Rightarrow> string \<Rightarrow> string" where
  "HashToken ext plaintext = hex_EncodeToString (ext_sha256 ext plaintext)"

datatype same_site = SameSiteLaxMode

record cookie =
  ck_Name :: string
  ck_Value :: string
  ck_Path :: string
  ck_Expires :: int
  ck_MaxAge :: int
  ck_HttpOnly :: bool
  ck_Secure :: bool
  ck_SameSite :: same_site

text \<open>\<open>math.Ceil(d.Seconds())\<close>, on the exact number of seconds.\<close>

definition ceil_seconds :: "int \<Rightarrow> int" where
  "ceil_seconds d = - ((- d) div 1000000000)"

definition sessionCookie :: "Handlers \<Rightarrow> string \<Rightarrow> int \<Rightarrow> world \<Rightarrow> cookie" where
  "sessionCookie h token expires w =
     (let maxAge = max (ceil_seconds (expires - h_now h w)) 1
      in \<lparr>ck_Name = SessionCookieName, ck_Value = token, ck_Path = ''/'', ck_Expires = expires,
          ck_MaxAge = maxAge, ck_HttpOnly = True, ck_Secure = cookieSecure h,
          ck_SameSite = SameSiteLaxMode\<rparr>)"

definition ClearedSessionCookie :: "Handlers \<Rightarrow> cookie" where
  "ClearedSessionCookie h =
     \<lparr>ck_Name = SessionCookieName, ck_Value = [], ck_Path = ''/'', ck_Expires = 0,
      ck_MaxAge = -1, ck_HttpOnly = True, ck_Secure = cookieSecure h,
      ck_SameSite = SameSiteLaxMode\<rparr>"

datatype issue_error = TokenFailed | CreateSessionFailed query_error

definition IssueSession ::
  "externals \<Rightarrow> Handlers \<Rightarrow> ctx \<Rightarrow> uuid option \<Rightarrow> string \<Rightarrow> world \<Rightarrow> (issue_error + cookie) \<times> world" where
  "IssueSession ext h c userID userAgent w =
     (case newSessionToken w of
        (None, w1) \<Rightarrow> (Inl TokenFailed, w1)
      | (Some token, w1) \<Rightarrow>
        let expiresAt = h_now h w1 + sessionTTL h in
        (case run c (CreateSession
                 \<lparr>csp_ID = HashToken ext token, csp_UserID = userID,
                  csp_ExpiresAt = to_pg expiresAt, csp_UserAgent = nullString userAgent\<rparr>) w1 of
           (Inl e, w2) \<Rightarrow> (Inl (CreateSessionFailed e), w2)
         | (Inr _, w2) \<Rightarrow> (Inr (sessionCookie h token expiresAt w2), w2)))"

section \<open>The middleware\<close>

text \<open>
  \<open>setSessionCookie\<close> and \<open>ClearSessionCookie\<close> add a \<open>Set-Cookie\<close> header to the response under
  way: the headers added are a list.
\<close>

definition setSessionCookie ::
  "Handlers \<Rightarrow> cookie list \<Rightarrow> string \<Rightarrow> int \<Rightarrow> world \<Rightarrow> cookie list" where
  "setSessionCookie h hdrs token expires w = hdrs @ [sessionCookie h token expires w]"

definition ClearSessionCookie :: "Handlers \<Rightarrow> cookie list \<Rightarrow> cookie list" where
  "ClearSessionCookie h hdrs = hdrs @ [ClearedSessionCookie h]"

definition touchIfStale ::
  "Handlers \<Rightarrow> ctx \<Rightarrow> cookie list \<Rightarrow> Session \<Rightarrow> string \<Rightarrow> world \<Rightarrow> cookie list \<times> world" where
  "touchIfStale h c hdrs session token w =
     (let remaining = from_pg (ses_ExpiresAt session) - w_clock w
      in if remaining > sessionTTL h sdiv 2 then (hdrs, w)
         else
           let newExpiry = h_now h w + sessionTTL h in
           (case run c (TouchSession \<lparr>tsp_ID = ses_ID session, tsp_ExpiresAt = to_pg newExpiry\<rparr>) w of
              (Inl e, w1) \<Rightarrow> (hdrs, slog Warn ''touch session'' w1)
            | (Inr _, w1) \<Rightarrow> (setSessionCookie h hdrs token newExpiry w1, w1)))"

text \<open>What \<open>next\<close> is called with: its context, the response headers so far, the world.\<close>

definition SessionMiddleware ::
  "externals \<Rightarrow> Handlers \<Rightarrow> http_request \<Rightarrow> ctx \<Rightarrow> cookie list \<Rightarrow> world \<Rightarrow> ctx \<times> cookie list \<times> world" where
  "SessionMiddleware ext h r c hdrs w =
     (case request_cookie r SessionCookieName of
        None \<Rightarrow> (c, hdrs, w)
      | Some v \<Rightarrow>
        if v = [] then (c, hdrs, w)
        else
          (case run c (GetLiveSession \<lparr>gls_ID = HashToken ext v,
                         gls_MaxLifetime = intervalFrom (sessionMaxLifetime h)\<rparr>) w of
             (Inl e, w1) \<Rightarrow>
               if e = ErrNoRows then (c, ClearSessionCookie h hdrs, w1)
               else (c, hdrs, logQueryError ''session lookup'' e w1)
           | (Inr session, w1) \<Rightarrow>
             (case run c (GetUserByID (ses_UserID session)) w1 of
                (Inl e, w2) \<Rightarrow>
                  if e = ErrNoRows then (c, ClearSessionCookie h hdrs, w2)
                  else (c, hdrs, logQueryError ''session user lookup'' e w2)
              | (Inr user, w2) \<Rightarrow>
                let (hdrs', w3) = touchIfStale h c hdrs session v w2
                in (WithUser c user, hdrs', w3))))"

text \<open>\<open>RequireAuth\<close>: the error response, or \<open>None\<close> when \<open>next\<close> is called.\<close>

definition RequireAuth :: "ctx \<Rightarrow> reply option" where
  "RequireAuth c =
     (case UserFromContext c of None \<Rightarrow> Some (Write 401 CodeUnauthorized []) | Some _ \<Rightarrow> None)"

section \<open>One statement\<close>

text \<open>What a statement does to the world: nothing but the database, the clocks and the script.\<close>

lemma run_Inr:
  assumes "run c q w = (Inr x, w')"
  shows "q (w_dbclock w') (w_db w) = Inr (x, w_db w')" and "w_log w' = w_log w" and "w_rand w' = w_rand w"
    and "w_clock w \<le> w_clock w'" and "w_dbclock w \<le> w_dbclock w'"
  using assms unfolding run_def
  by (auto simp: Let_def elapse_def split: prod.splits option.splits sum.splits)

lemma run_dbclock: "run c q w = (res, w') \<Longrightarrow> w_dbclock w \<le> w_dbclock w'"
  unfolding run_def
  by (auto simp: Let_def elapse_def split: prod.splits option.splits sum.splits if_splits)

definition calm :: "ctx \<Rightarrow> world \<Rightarrow> bool" where
  "calm c w \<longleftrightarrow> w_script w = [] \<and> ctx_Err (w_clock w) c = None"

lemma calm_WithUser [simp]: "calm (WithUser c u) w = calm c w"
  by (simp add: calm_def WithUser_def ctx_Err_def)

lemma calm_RequestContext [simp]: "calm (RequestContextMiddleware r c) w = calm c w"
  by (simp add: calm_def RequestContextMiddleware_def ctx_Err_def Let_def split: option.split)

lemma run_calm:
  assumes "calm c w"
  shows "run c q w =
    (case q (w_dbclock w) (w_db w) of Inl e \<Rightarrow> (Inl e, w) | Inr (x, d) \<Rightarrow> (Inr x, w\<lparr>w_db := d\<rparr>))"
proof -
  have "elapse 0 (w\<lparr>w_script := []\<rparr>) = w"
    using assms by (simp add: calm_def elapse_def)
  moreover have "w_script w = []" "ctx_Err (w_clock w) c = None" using assms by (simp_all add: calm_def)
  ultimately show ?thesis by (simp only: run_def Let_def next_fault_def stmt_error_def list.case prod.case list.sel option.case if_True refl)
qed

lemma calm_update [simp]:
  "calm c (w\<lparr>w_db := d\<rparr>) = calm c w" "calm c (w\<lparr>w_rand := rs\<rparr>) = calm c w"
  "calm c (w\<lparr>w_log := l\<rparr>) = calm c w"
  by (simp_all add: calm_def)

lemma CreateSession_Inr:
  assumes "CreateSession arg t d = Inr (s, d')"
  shows "pg_text (csp_ID arg)" "users d' = users d"
    "\<exists>uid. csp_UserID arg = Some uid \<and> user_row d uid \<noteq> None \<and>
       sessions d' = (sessions d)(csp_ID arg := Some
         \<lparr>ses_ID = csp_ID arg, ses_UserID = uid, ses_CreatedAt = t,
          ses_ExpiresAt = csp_ExpiresAt arg, ses_LastSeenAt = t, ses_UserAgent = csp_UserAgent arg\<rparr>)"
  using assms by (auto simp: CreateSession_def checked_def Let_def split: if_splits option.splits)

section \<open>Cookies\<close>

lemma ceil_seconds_bounds: "d \<le> ceil_seconds d * 1000000000" "(ceil_seconds d - 1) * 1000000000 < d"
proof -
  define q m where "q = (- d) div 1000000000" and "m = (- d) mod 1000000000"
  have "- d = q * 1000000000 + m" "0 \<le> m" "m < 1000000000" by (simp_all add: q_def m_def)
  moreover have "ceil_seconds d = - q" by (simp add: ceil_seconds_def q_def)
  ultimately show "d \<le> ceil_seconds d * 1000000000" "(ceil_seconds d - 1) * 1000000000 < d" by simp_all
qed

text \<open>
  A session cookie's Max-Age is at least one second, never ends before the session
  expires, and overshoots the expiry by less than a second as long as the session has time
  left. It is host-only, for the whole site, and unreadable to scripts.
\<close>

theorem session_cookie_max_age:
  "let ck = sessionCookie h token expires w; left = expires - h_now h w in
     1 \<le> ck_MaxAge ck \<and> left \<le> ck_MaxAge ck * 1000000000 \<and>
     (left \<le> 0 \<or> (ck_MaxAge ck - 1) * 1000000000 < left) \<and>
     ck_Value ck = token \<and> ck_Path ck = ''/'' \<and> ck_HttpOnly ck \<and> ck_Secure ck = cookieSecure h"
proof -
  let ?left = "expires - h_now h w"
  have "?left \<le> max (ceil_seconds ?left) 1 * 1000000000"
    using ceil_seconds_bounds(1) [of ?left] by (simp add: max_def)
  moreover have "?left \<le> 0 \<or> (max (ceil_seconds ?left) 1 - 1) * 1000000000 < ?left"
    using ceil_seconds_bounds(2) [of ?left] by (auto simp: max_def)
  ultimately show ?thesis by (simp add: sessionCookie_def Let_def)
qed

section \<open>The session table under every statement\<close>

text \<open>
  Any statement of the query set, by any handler, at any database time, except one that
  creates a session with the id under watch.
\<close>

inductive statement :: "string \<Rightarrow> database \<Rightarrow> database \<Rightarrow> bool" for i where
  st_clear: "ClearLoginAttempts keys now d = Inr (x, d') \<Longrightarrow> statement i d d'"
| st_create: "CreateSession arg now d = Inr (s, d') \<Longrightarrow> csp_ID arg \<noteq> i \<Longrightarrow> statement i d d'"
| st_sweep: "DeleteExpiredSessions now d = Inr (x, d') \<Longrightarrow> statement i d d'"
| st_delete: "DeleteSession j now d = Inr (x, d') \<Longrightarrow> statement i d d'"
| st_delete_user: "DeleteSessionsForUser u now d = Inr (x, d') \<Longrightarrow> statement i d d'"
| st_credential: "GetCredentialByUserID u now d = Inr (cr, d') \<Longrightarrow> statement i d d'"
| st_household: "GetHouseholdByID u now d = Inr (hh, d') \<Longrightarrow> statement i d d'"
| st_live: "GetLiveSession g now d = Inr (s, d') \<Longrightarrow> statement i d d'"
| st_backoff: "GetLoginBackoff keys now d = Inr (b, d') \<Longrightarrow> statement i d d'"
| st_email: "GetUserByEmail f e now d = Inr (us, d') \<Longrightarrow> statement i d d'"
| st_user: "GetUserByID u now d = Inr (us, d') \<Longrightarrow> statement i d d'"
| st_record: "RecordLoginFailure r now d = Inr (x, d') \<Longrightarrow> statement i d d'"
| st_touch: "TouchSession t now d = Inr (x, d') \<Longrightarrow> statement i d d'"
| st_upsert: "UpsertCredential uc now d = Inr (x, d') \<Longrightarrow> statement i d d'"
| st_ping: "Ping now d = Inr (p, d') \<Longrightarrow> statement i d d'"

text \<open>
  The contract the session lifetimes rest on: a statement may delete a session or move its
  expiry, and never changes when it was created or for whom.
\<close>

locale session_store =
  fixes find :: "'d \<Rightarrow> string \<Rightarrow> Session option" and stmt :: "string \<Rightarrow> 'd \<Rightarrow> 'd \<Rightarrow> bool"
  assumes keeps_origin: "stmt i d d' \<Longrightarrow> find d' i = Some s' \<Longrightarrow>
    \<exists>s. find d i = Some s \<and> ses_CreatedAt s' = ses_CreatedAt s \<and> ses_UserID s' = ses_UserID s"
begin

lemma origin:
  "(stmt i)\<^sup>*\<^sup>* d d' \<Longrightarrow> find d' i = Some s' \<Longrightarrow>
     \<exists>s. find d i = Some s \<and> ses_CreatedAt s' = ses_CreatedAt s \<and> ses_UserID s' = ses_UserID s"
proof (induction arbitrary: s' rule: rtranclp_induct)
  case (step d1 d2)
  then show ?case using keeps_origin [OF step.hyps(2) step.prems] by fastforce
qed simp

lemma gone: "(stmt i)\<^sup>*\<^sup>* d d' \<Longrightarrow> find d i = None \<Longrightarrow> find d' i = None"
  using origin by (cases "find d' i") fastforce+

end

lemmas statement_defs =
  ClearLoginAttempts_def CreateSession_def DeleteExpiredSessions_def DeleteSession_def
  DeleteSessionsForUser_def GetCredentialByUserID_def GetHouseholdByID_def GetLiveSession_def
  GetLoginBackoff_def GetUserByEmail_def GetUserByID_def RecordLoginFailure_def TouchSession_def
  UpsertCredential_def Ping_def checked_def one_row_def delete_sessions_where_def put_attempt_def

interpretation sessions_table: session_store sessions statement
proof
  show "\<exists>s. sessions d i = Some s \<and> ses_CreatedAt s' = ses_CreatedAt s \<and> ses_UserID s' = ses_UserID s"
    if "statement i d d'" "sessions d' i = Some s'" for i d d' s'
    using that
    by cases (auto simp: statement_defs Let_def res_bind_eq_Inr
        split: if_splits option.splits)
qed

text \<open>
  C21. The absolute lifetime cannot be slid: whatever statements run after a session was
  created, refreshes to any expiry included, the lookup answers it only within
  \<open>maxLifetime\<close> of its creation, and for the User it was created for.
\<close>

theorem session_cap_absolute:
  assumes "CreateSession arg t0 d = Inr (s, d1)"
    and "(statement (csp_ID arg))\<^sup>*\<^sup>* d1 d2"
    and "GetLiveSession \<lparr>gls_ID = csp_ID arg, gls_MaxLifetime = m\<rparr> t d2 = Inr (s', d3)"
  shows "t < t0 + m \<and> t < ses_ExpiresAt s' \<and> csp_UserID arg = Some (ses_UserID s')"
proof -
  have "sessions d1 (csp_ID arg) = Some s" "ses_CreatedAt s = t0" "csp_UserID arg = Some (ses_UserID s)"
    using assms(1) by (auto simp: CreateSession_def checked_def Let_def split: if_splits option.splits)
  moreover have "sessions d2 (csp_ID arg) = Some s'" "live m t s'"
    using assms(3) by (auto simp: GetLiveSession_def checked_def one_row_def split: if_splits option.splits)
  ultimately show ?thesis
    using sessions_table.origin [OF assms(2), of s'] by (auto simp: live_def)
qed

definition one_user :: User where
  "one_user = \<lparr>usr_ID = ''u1'', usr_HouseholdID = ''h1'', usr_Email = ''a@b.c'', usr_DisplayName = ''A'',
     usr_Locale = ''en-GB'', usr_TimeZone = ''Asia/Jakarta'', usr_CreatedAt = 0, usr_UpdatedAt = 0,
     usr_DeletedAt = None\<rparr>"

definition one_household :: Household where
  "one_household = \<lparr>hh_ID = ''h1'', hh_DisplayName = ''Home'', hh_ReportingCurrency = ''IDR'', hh_PeriodStartDay = 25,
     hh_DayStartsAt = Some 0, hh_ExpectedMonthlyIncome = None, hh_AllowanceMode = ''adaptive'',
     hh_CreatedAt = 0, hh_UpdatedAt = 0, hh_DeletedAt = None\<rparr>"

definition one_user_db :: database where
  "one_user_db = empty_db\<lparr>households := [''h1'' \<mapsto> one_household], users := [one_user]\<rparr>"

definition one_session :: CreateSessionParams where
  "one_session = \<lparr>csp_ID = ''aa'', csp_UserID = Some ''u1'', csp_ExpiresAt = 50, csp_UserAgent = None\<rparr>"

lemma pg_text_aa: "pg_text ''aa''"
  by (simp add: pg_text_def ValidString_ascii is_ascii_def)

lemmas one_session_simps =
  one_session_def one_user_db_def one_user_def empty_db_def statement_defs user_row_def pg_text_aa Let_def

theorem session_cap_absolute_witness:
  "\<exists>s d1 d2 s' d3. CreateSession one_session 10 one_user_db = Inr (s, d1) \<and>
     TouchSession \<lparr>tsp_ID = ''aa'', tsp_ExpiresAt = 100000\<rparr> 40 d1 = Inr ((), d2) \<and>
     GetLiveSession \<lparr>gls_ID = ''aa'', gls_MaxLifetime = 90\<rparr> 99 d2 = Inr (s', d3) \<and>
     99 < 10 + (90 :: int) \<and> ses_UserID s' = ''u1''"
proof -
  let ?t = "\<lparr>tsp_ID = ''aa'', tsp_ExpiresAt = 100000\<rparr>"
  obtain s d1 where c: "CreateSession one_session 10 one_user_db = Inr (s, d1)"
    by (simp add: one_session_simps)
  obtain d2 where t: "TouchSession ?t 40 d1 = Inr ((), d2)" by (simp add: statement_defs pg_text_aa)
  obtain s' d3 where g: "GetLiveSession \<lparr>gls_ID = ''aa'', gls_MaxLifetime = 90\<rparr> 99 d2 = Inr (s', d3)"
    using c t by (auto simp: one_session_simps live_def)
  have "(statement ''aa'')\<^sup>*\<^sup>* d1 d2" using t by (blast intro: st_touch)
  then show ?thesis
    using session_cap_absolute [OF c, of d2 90 99 s' d3] c t g by (auto simp: one_session_def)
qed

text \<open>
  Revocation is final: once a session row is deleted, no later statement but the creation
  of that very id makes the lookup answer it again.
\<close>

theorem revoked_session_stays_revoked:
  assumes "DeleteSession i t0 d = Inr ((), d1)" and "(statement i)\<^sup>*\<^sup>* d1 d2"
  shows "GetLiveSession \<lparr>gls_ID = i, gls_MaxLifetime = m\<rparr> t d2 = Inl ErrNoRows"
proof -
  have "sessions d1 i = None" "pg_text i"
    using assms(1) by (auto simp: DeleteSession_def checked_def split: if_splits)
  then show ?thesis
    using sessions_table.gone [OF assms(2)] by (simp add: GetLiveSession_def checked_def one_row_def)
qed

theorem revoked_session_stays_revoked_witness:
  "\<exists>d1. DeleteSession ''aa'' 5 one_user_db = Inr ((), d1) \<and>
     GetLiveSession \<lparr>gls_ID = ''aa'', gls_MaxLifetime = 90\<rparr> 6 d1 = Inl ErrNoRows"
proof -
  obtain d1 where d: "DeleteSession ''aa'' 5 one_user_db = Inr ((), d1)"
    by (simp add: DeleteSession_def checked_def pg_text_aa)
  with revoked_session_stays_revoked [OF d] show ?thesis by blast
qed

section \<open>The middleware\<close>

lemma run_ErrNoRows: "run c q w = (Inl ErrNoRows, w') \<Longrightarrow>
    q (w_dbclock w') (w_db w) = Inl ErrNoRows \<and> w_db w' = w_db w \<and> w_dbclock w \<le> w_dbclock w'"
  unfolding run_def
  by (auto simp: Let_def elapse_def stmt_error_def split: prod.splits option.splits sum.splits if_splits)

lemma GetLiveSession_Inr:
  "GetLiveSession \<lparr>gls_ID = i, gls_MaxLifetime = m\<rparr> t d = Inr (s, d') \<longleftrightarrow>
     pg_text i \<and> sessions d i = Some s \<and> live m t s \<and> d' = d"
  by (auto simp: GetLiveSession_def checked_def one_row_def split: option.splits if_splits)

definition find_user :: "database \<Rightarrow> uuid \<Rightarrow> User option" where
  "find_user d i = List.find (\<lambda>u. usr_ID u = i \<and> usr_DeletedAt u = None) (users d)"

lemma GetUserByID_eq:
  "GetUserByID i t d = (case find_user d i of None \<Rightarrow> Inl ErrNoRows | Some u \<Rightarrow> Inr (u, d))"
  by (simp add: GetUserByID_def one_row_def find_user_def)

lemma find_user_Some: "find_user d i = Some u \<Longrightarrow> u \<in> set (users d) \<and> usr_ID u = i \<and> usr_DeletedAt u = None"
  by (auto simp: find_user_def find_Some_iff)

definition session_of :: "externals \<Rightarrow> Handlers \<Rightarrow> http_request \<Rightarrow> timestamptz \<Rightarrow> database \<Rightarrow> (Session \<times> User) option" where
  "session_of ext h r t d =
     (case request_cookie r SessionCookieName of None \<Rightarrow> None
      | Some v \<Rightarrow>
        (case sessions d (HashToken ext v) of None \<Rightarrow> None
         | Some s \<Rightarrow> if live (intervalFrom (sessionMaxLifetime h)) t s
                     then map_option (Pair s) (find_user d (ses_UserID s)) else None))"

lemma touchIfStale_headers:
  "touchIfStale h c hdrs s v w = (hdrs', w') \<Longrightarrow> \<exists>new. hdrs' = hdrs @ new \<and> ClearedSessionCookie h \<notin> set new"
  by (auto simp: touchIfStale_def setSessionCookie_def ClearedSessionCookie_def sessionCookie_def Let_def
      split: if_splits prod.splits sum.splits)

lemma touchIfStale_dbclock: "touchIfStale h c hdrs s v w = (hdrs', w') \<Longrightarrow> w_dbclock w \<le> w_dbclock w'"
  by (auto simp: touchIfStale_def Let_def slog_def dest!: run_dbclock split: if_splits prod.splits sum.splits)

text \<open>The two lookups, seen from the session they establish or rule out.\<close>

lemma live_lookup:
  assumes "request_cookie r SessionCookieName = Some v"
    and "run c (GetLiveSession \<lparr>gls_ID = HashToken ext v,
           gls_MaxLifetime = intervalFrom (sessionMaxLifetime h)\<rparr>) w = (res, w1)"
  shows "res = Inl ErrNoRows \<Longrightarrow>
      w_dbclock w \<le> w_dbclock w1 \<and> session_of ext h r (w_dbclock w1) (w_db w) = None"
    and "res = Inr s \<Longrightarrow> w_dbclock w \<le> w_dbclock w1 \<and> w_db w1 = w_db w \<and>
      session_of ext h r (w_dbclock w1) (w_db w) = map_option (Pair s) (find_user (w_db w) (ses_UserID s))"
proof -
  show "w_dbclock w \<le> w_dbclock w1 \<and> session_of ext h r (w_dbclock w1) (w_db w) = None" if "res = Inl ErrNoRows"
    using run_ErrNoRows [OF assms(2) [unfolded that]] assms(1)
    by (auto simp: session_of_def GetLiveSession_def checked_def one_row_def split: option.splits if_splits)
  show "w_dbclock w \<le> w_dbclock w1 \<and> w_db w1 = w_db w \<and>
      session_of ext h r (w_dbclock w1) (w_db w) = map_option (Pair s) (find_user (w_db w) (ses_UserID s))"
    if "res = Inr s"
    using run_Inr [OF assms(2) [unfolded that]] assms(1) by (simp add: GetLiveSession_Inr session_of_def)
qed

lemma user_lookup:
  assumes "run c (GetUserByID i) w = (res, w1)"
  shows "res = Inl ErrNoRows \<Longrightarrow> find_user (w_db w) i = None"
    and "res = Inr u \<Longrightarrow> find_user (w_db w) i = Some u"
  using run_ErrNoRows [of c "GetUserByID i" w w1] run_Inr(1) [of c "GetUserByID i" w u w1] assms
  by (auto simp: GetUserByID_eq split: option.splits)

lemma SessionMiddleware_cases:
  assumes "SessionMiddleware ext h r c hdrs w = (c', hdrs', w')"
  obtains (anonymous) "c' = c" "hdrs' = hdrs"
  | (cleared) t where "c' = c" "hdrs' = hdrs @ [ClearedSessionCookie h]" "w_dbclock w \<le> t"
      "session_of ext h r t (w_db w) = None" "t \<le> w_dbclock w'"
  | (signed_in) t s u where "c' = WithUser c u" "w_dbclock w \<le> t" "session_of ext h r t (w_db w) = Some (s, u)"
      "\<exists>new. hdrs' = hdrs @ new \<and> ClearedSessionCookie h \<notin> set new" "t \<le> w_dbclock w'"
proof (cases "request_cookie r SessionCookieName = None \<or> request_cookie r SessionCookieName = Some []")
  case True
  then show thesis using assms by (intro anonymous) (auto simp: SessionMiddleware_def)
next
  case False
  then obtain v where v: "request_cookie r SessionCookieName = Some v" "v \<noteq> []" by auto
  obtain r1 w1 where q1: "run c (GetLiveSession \<lparr>gls_ID = HashToken ext v,
      gls_MaxLifetime = intervalFrom (sessionMaxLifetime h)\<rparr>) w = (r1, w1)" by force
  note first = live_lookup [OF v(1) q1]
  show thesis
  proof (cases r1)
    case (Inl e)
    then show thesis
      using assms v q1 first(1) by (cases "e = ErrNoRows")
        (auto intro: anonymous cleared simp: SessionMiddleware_def ClearSessionCookie_def)
  next
    case (Inr s)
    obtain r2 w2 where q2: "run c (GetUserByID (ses_UserID s)) w1 = (r2, w2)" by force
    note second = user_lookup [OF q2] and c2 = run_dbclock [OF q2]
    show thesis
    proof (cases r2)
      case (Inl e)
      then show thesis
        using assms v q1 Inr q2 first(2) [OF Inr] second(1) c2 by (cases "e = ErrNoRows")
          (auto intro: anonymous cleared simp: SessionMiddleware_def ClearSessionCookie_def)
    next
      case u: (Inr u)
      obtain hdrs3 w3 where t: "touchIfStale h c hdrs s v w2 = (hdrs3, w3)" by force
      show thesis
        using assms v q1 Inr q2 u t first(2) [OF Inr] second(2) [OF u] touchIfStale_headers [OF t]
          order_trans [OF c2 touchIfStale_dbclock [OF t]]
        by (intro signed_in) (auto simp: SessionMiddleware_def)
    qed
  qed
qed

text \<open>
  C22. The middleware neither signs in without a live session nor signs out without cause: a
  User it attaches is the undeleted owner of the session the presented token hashes to,
  inside both lifetimes at an instant of the database's clock between the start and the end of the
  lookups; and it clears the cookie only when at such an instant there was no such session. A
  session that is live throughout is so never signed out, whatever queries fail.
\<close>

theorem middleware_sound:
  assumes "SessionMiddleware ext h r c hdrs w = (c', hdrs', w')" and "UserFromContext c = None"
    and "ClearedSessionCookie h \<notin> set hdrs"
  shows "(\<forall>u. UserFromContext c' = Some u \<longrightarrow>
       (\<exists>t s. w_dbclock w \<le> t \<and> t \<le> w_dbclock w' \<and> session_of ext h r t (w_db w) = Some (s, u))) \<and>
    (ClearedSessionCookie h \<in> set hdrs' \<longrightarrow>
       UserFromContext c' = None \<and>
       (\<exists>t. w_dbclock w \<le> t \<and> t \<le> w_dbclock w' \<and> session_of ext h r t (w_db w) = None))"
  using assms(1)
proof (cases rule: SessionMiddleware_cases)
  case anonymous
  then show ?thesis using assms(2,3) by auto
next
  case cleared
  then show ?thesis using assms(2) by auto
next
  case (signed_in t s u)
  then show ?thesis using assms(2,3) by (auto simp: UserFromContext_def WithUser_def)
qed

section \<open>An issued session authenticates\<close>

lemma IssueSession_Inr:
  assumes "IssueSession ext h c userID ua w = (Inr ck, w')"
  obtains b rs uid where "userID = Some uid" "w_rand w = Some b # rs" "ck_Value ck = RawURL_EncodeToString b"
    "pg_text (HashToken ext (ck_Value ck))"
    "sessions (w_db w') (HashToken ext (ck_Value ck)) =
       Some \<lparr>ses_ID = HashToken ext (ck_Value ck), ses_UserID = uid, ses_CreatedAt = w_dbclock w',
             ses_ExpiresAt = to_pg (ck_Expires ck), ses_LastSeenAt = w_dbclock w',
             ses_UserAgent = nullString ua\<rparr>"
    "ck_Expires ck = h_now h w + sessionTTL h" "users (w_db w') = users (w_db w)"
proof -
  obtain b rs where b: "w_rand w = Some b # rs"
    using assms by (auto simp: IssueSession_def newSessionToken_def rand_Read_def split: list.splits option.splits)
  define w1 where "w1 = w\<lparr>w_rand := rs\<rparr>"
  define t where "t = RawURL_EncodeToString b"
  define arg where "arg = \<lparr>csp_ID = HashToken ext t, csp_UserID = userID,
      csp_ExpiresAt = to_pg (h_now h w1 + sessionTTL h), csp_UserAgent = nullString ua\<rparr>"
  have now: "h_now h w1 = h_now h w" "users (w_db w1) = users (w_db w)" by (simp_all add: h_now_def w1_def)
  have "newSessionToken w = (Some t, w1)" by (simp add: newSessionToken_def rand_Read_def b t_def w1_def)
  then have "(case run c (CreateSession arg) w1 of (Inl e, w2) \<Rightarrow> (Inl (CreateSessionFailed e), w2)
      | (Inr _, w2) \<Rightarrow> (Inr (sessionCookie h t (h_now h w1 + sessionTTL h) w2), w2)) = (Inr ck, w')"
    using assms by (simp add: IssueSession_def Let_def arg_def)
  then obtain s where q: "run c (CreateSession arg) w1 = (Inr s, w')"
    and ck: "ck = sessionCookie h t (h_now h w1 + sessionTTL h) w'"
    by (auto split: prod.splits sum.splits)
  have val: "ck_Value ck = t" "ck_Expires ck = h_now h w + sessionTTL h"
    by (simp_all add: ck sessionCookie_def now Let_def)
  have "CreateSession arg (w_dbclock w') (w_db w1) = Inr (s, w_db w')" by (rule run_Inr(1) [OF q])
  note CreateSession_Inr [OF this]
  then show thesis using that [OF _ b] val now by (auto simp: t_def arg_def)
qed

lemma b64_encode_nonempty: "s \<noteq> [] \<Longrightarrow> RawURL_EncodeToString s \<noteq> []"
  using b64_encode_length [of "CHR ''-''" "CHR ''_''" s]
  by (cases s) (auto simp: RawURL_EncodeToString_def)

text \<open>
  A session that was issued authenticates: while its row stands, a request that presents
  the issued cookie before the expiry and inside the absolute lifetime reaches the handlers
  with the User it was issued to, and \<open>RequireAuth\<close> lets it through.
\<close>

theorem issued_session_authenticates:
  assumes "IssueSession ext h c (Some userID) ua w = (Inr ck, w1)"
    and "\<forall>b. Some b \<in> set (w_rand w) \<longrightarrow> length b = 32"
    and "request_cookie r SessionCookieName = Some (ck_Value ck)"
    and "calm c2 w2" "w_db w2 = w_db w1"
    and "w_dbclock w2 < to_pg (ck_Expires ck)"
    and "w_dbclock w2 < w_dbclock w1 + intervalFrom (sessionMaxLifetime h)"
    and "find_user (w_db w) userID = Some u"
  shows "\<exists>hdrs' w3. SessionMiddleware ext h r c2 hdrs w2 = (WithUser c2 u, hdrs', w3) \<and>
    RequireAuth (WithUser c2 u) = None"
proof -
  obtain b rs where b: "w_rand w = Some b # rs" "ck_Value ck = RawURL_EncodeToString b"
    and tx: "pg_text (HashToken ext (ck_Value ck))"
    and row: "sessions (w_db w1) (HashToken ext (ck_Value ck)) =
       Some \<lparr>ses_ID = HashToken ext (ck_Value ck), ses_UserID = userID, ses_CreatedAt = w_dbclock w1,
             ses_ExpiresAt = to_pg (ck_Expires ck), ses_LastSeenAt = w_dbclock w1,
             ses_UserAgent = nullString ua\<rparr>" (is "_ = Some ?s")
    and us: "users (w_db w1) = users (w_db w)"
    using IssueSession_Inr [OF assms(1)] by blast
  have "b \<noteq> []" using assms(2) b(1) by auto
  then have v: "ck_Value ck \<noteq> []" by (simp add: b(2) b64_encode_nonempty)
  have "live (intervalFrom (sessionMaxLifetime h)) (w_dbclock w2) ?s"
    using assms(6,7) by (simp add: live_def)
  then have first: "run c2 (GetLiveSession \<lparr>gls_ID = HashToken ext (ck_Value ck),
      gls_MaxLifetime = intervalFrom (sessionMaxLifetime h)\<rparr>) w2 = (Inr ?s, w2)"
    using assms(4,5) row tx by (simp add: run_calm GetLiveSession_def checked_def one_row_def)
  moreover have "run c2 (GetUserByID userID) w2 = (Inr u, w2)"
    using assms(4,5,8) us by (simp add: run_calm GetUserByID_eq find_user_def)
  ultimately show ?thesis
    using assms(3) v by (auto simp: SessionMiddleware_def RequireAuth_def UserFromContext_def WithUser_def split: prod.split)
qed

section \<open>Concrete worlds\<close>

definition toy_ext :: externals where
  "toy_ext = \<lparr>ext_idk = toy_idk, ext_sha256 = take 2, ext_pg_lower = map lower_byte, ext_ulow = id\<rparr>"

definition month_handlers :: Handlers where
  "month_handlers = New \<lparr>dep_SessionTTL = 720 * 3600 * 1000000000, dep_SessionMaxLifetime = 2160 * 3600 * 1000000000,
     dep_CookieSecure = True, dep_FirstBackoff = 1000000000, dep_MaxBackoff = 300 * 1000000000, dep_Now = None\<rparr>"

definition fresh_token_bytes :: string where
  "fresh_token_bytes = replicate 32 (CHR ''a'')"

definition quiet_world :: world where
  "quiet_world = \<lparr>w_db = one_user_db, w_clock = 1000000, w_dbclock = 1000, w_script = [], w_queue = [],
     w_rand = [Some fresh_token_bytes], w_log = []\<rparr>"

definition toy_token :: string where "toy_token = RawURL_EncodeToString fresh_token_bytes"

lemma month_handlers_simps [simp]:
  "sessionTTL month_handlers = 2592000000000000" "sessionMaxLifetime month_handlers = 7776000000000000"
  "now_fn month_handlers = (\<lambda>t. t)" "firstBackoff month_handlers = 1000000000"
  "maxBackoff month_handlers = 300000000000" "cookieSecure month_handlers = True"
  by (simp_all add: month_handlers_def New_def)

lemma intervalFrom_month [simp]: "intervalFrom 7776000000000000 = 7776000000000"
  by (simp add: intervalFrom_def signed_divide_int_def)

lemma hex_char_no_NUL: "n < 16 \<Longrightarrow> of_char (hex_char n) < (0x80 :: nat) \<and> hex_char n \<noteq> CHR 0x00"
proof -
  assume "n < 16"
  then have "of_char (hex_char n) = (if n < 10 then 48 + n else 87 + n)" by (simp add: hex_char_def)
  then show ?thesis
    using \<open>n < 16\<close> of_char_eq_iff [where 'a = nat, of "hex_char n" "CHR 0x00"] by (auto split: if_splits)
qed

text \<open>A session id is always storable text.\<close>

lemma pg_text_HashToken: "pg_text (HashToken ext token)"
proof -
  have "of_char c < (0x80 :: nat) \<and> c \<noteq> CHR 0x00" if c: "c \<in> set (hex_EncodeToString s)" for c s
  proof -
    obtain d n where "c = hex_char n" "n = of_char d div 16 \<or> n = of_char d mod (16 :: nat)"
      using c by (auto simp: hex_EncodeToString_def)
    moreover have "of_char d div 16 < (16 :: nat)"
      using of_char_lt_256 [of d] by (simp add: less_mult_imp_div_less)
    ultimately show ?thesis using hex_char_no_NUL by auto
  qed
  then show ?thesis
    by (force simp: pg_text_def HashToken_def is_ascii_def list_all_iff intro: ValidString_ascii)
qed

definition quiet_request :: http_request where
  "quiet_request = \<lparr>rq_RemoteAddr = ''10.0.0.1:5'', rq_UserAgent = [],
     rq_Cookies = [(SessionCookieName, toy_token)]\<rparr>"

lemma calm_quiet: "calm Background w \<longleftrightarrow> w_script w = []"
  by (simp add: calm_def Background_def ctx_Err_def)

lemma quiet_issue:
  "\<exists>ck w1. IssueSession toy_ext month_handlers Background (Some ''u1'') [] quiet_world = (Inr ck, w1) \<and>
     ck_Value ck = toy_token \<and> ck_Expires ck = 2592000001000000 \<and> w_dbclock w1 = 1000 \<and> w_script w1 = []"
proof -
  let ?w = "quiet_world\<lparr>w_rand := []\<rparr>"
  have "calm Background ?w" by (simp add: calm_quiet quiet_world_def)
  then show ?thesis
    using pg_text_HashToken [of toy_ext toy_token]
    by (simp add: IssueSession_def newSessionToken_def rand_Read_def quiet_world_def Let_def run_calm
        CreateSession_def checked_def one_user_db_def empty_db_def user_row_def one_user_def
        nullString_def sessionCookie_def h_now_def toy_token_def)
qed

lemma toy_token_nonempty: "toy_token \<noteq> []"
  by (simp add: toy_token_def b64_encode_nonempty fresh_token_bytes_def)

theorem issued_session_authenticates_witness:
  "\<exists>ck w1. IssueSession toy_ext month_handlers Background (Some ''u1'') [] quiet_world = (Inr ck, w1) \<and>
     (\<exists>hdrs w3. SessionMiddleware toy_ext month_handlers quiet_request Background [] (w1\<lparr>w_dbclock := 5000000\<rparr>) =
        (WithUser Background one_user, hdrs, w3))"
proof -
  obtain ck w1 where i: "IssueSession toy_ext month_handlers Background (Some ''u1'') [] quiet_world = (Inr ck, w1)"
    and ck: "ck_Value ck = toy_token" "ck_Expires ck = 2592000001000000" "w_dbclock w1 = 1000" "w_script w1 = []"
    using quiet_issue by blast
  have "\<exists>hdrs' w3. SessionMiddleware toy_ext month_handlers quiet_request Background [] (w1\<lparr>w_dbclock := 5000000\<rparr>) =
        (WithUser Background one_user, hdrs', w3) \<and> RequireAuth (WithUser Background one_user) = None"
    by (rule issued_session_authenticates [OF i])
      (use ck in \<open>simp_all add: quiet_world_def fresh_token_bytes_def quiet_request_def request_cookie_def
        calm_quiet to_pg_def find_user_def one_user_db_def one_user_def\<close>)
  with i show ?thesis by blast
qed

theorem middleware_sound_witness:
  "\<exists>c' hdrs' w'. SessionMiddleware toy_ext month_handlers quiet_request Background [] quiet_world = (c', hdrs', w') \<and>
     ClearedSessionCookie month_handlers \<in> set hdrs' \<and> UserFromContext c' = None \<and>
     (\<exists>t. 1000 \<le> t \<and> t \<le> w_dbclock w' \<and> session_of toy_ext month_handlers quiet_request t one_user_db = None)"
proof -
  have q: "run Background (GetLiveSession \<lparr>gls_ID = HashToken toy_ext toy_token, gls_MaxLifetime = m\<rparr>) quiet_world =
      (Inl ErrNoRows, quiet_world)" for m
    using pg_text_HashToken [of toy_ext toy_token]
    by (simp add: run_calm calm_quiet quiet_world_def GetLiveSession_def checked_def one_row_def one_user_db_def empty_db_def)
  have m: "SessionMiddleware toy_ext month_handlers quiet_request Background [] quiet_world =
      (Background, [ClearedSessionCookie month_handlers], quiet_world)"
    by (simp add: SessionMiddleware_def quiet_request_def request_cookie_def toy_token_nonempty q ClearSessionCookie_def)
  then show ?thesis
    using middleware_sound [OF m] by (simp add: UserFromContext_def Background_def quiet_world_def)
qed

end
