(* ===== verification/Conf_Session.thy ===== *)
theory Conf_Session
  imports Conf_Cookie Session
begin

text \<open>
  The backend's cookies in front of the conformance harness: the \<open>Set-Cookie\<close> line a session
  cookie is sent as, parsed by the harness and held to the expectation its cases write.

  \<open>fmt\<close> is the rendering of an instant in \<open>http.TimeFormat\<close>.
\<close>

section \<open>The line\<close>

text \<open>\<open>(*http.Cookie).String\<close> on the fields the handlers set.\<close>

definition cookie_byte :: "char \<Rightarrow> bool" where
  "cookie_byte c \<longleftrightarrow> byte_in 0x20 0x7E c \<and> c \<notin> {QUOTE, CHR '';'', BSL}"

definition sanitizeCookieValue :: "string \<Rightarrow> string" where
  "sanitizeCookieValue v0 =
     (let v = filter cookie_byte v0 in if ContainsAny v '' ,'' then [QUOTE] @ v @ [QUOTE] else v)"

fun same_site_text :: "same_site \<Rightarrow> string" where
  "same_site_text SameSiteLaxMode = ''SameSite=Lax''"

text \<open>An \<open>Expires\<close> before the year 1601 is left out.\<close>

definition cookie_attributes :: "(int \<Rightarrow> string) \<Rightarrow> cookie \<Rightarrow> string list" where
  "cookie_attributes fmt ck =
     (if ck_Path ck \<noteq> [] then [''Path='' @ ck_Path ck] else []) @
     (if - 11644473600 * Second \<le> ck_Expires ck then [''Expires='' @ fmt (ck_Expires ck)] else []) @
     (if 0 < ck_MaxAge ck then [''Max-Age='' @ format_int (ck_MaxAge ck)]
      else if ck_MaxAge ck < 0 then [''Max-Age=0''] else []) @
     (if ck_HttpOnly ck then [''HttpOnly''] else []) @
     (if ck_Secure ck then [''Secure''] else []) @
     [same_site_text (ck_SameSite ck)]"

definition cookie_String :: "(int \<Rightarrow> string) \<Rightarrow> cookie \<Rightarrow> string" where
  "cookie_String fmt ck =
     Join ((ck_Name ck @ ''='' @ sanitizeCookieValue (ck_Value ck)) # cookie_attributes fmt ck) ''; ''"

section \<open>Parsing it\<close>

definition trimmed :: "string \<Rightarrow> bool" where
  "trimmed s \<longleftrightarrow> is_ascii s \<and> (s = [] \<or> \<not> IsSpace (of_char (hd s)) \<and> \<not> IsSpace (of_char (last s)))"

lemma trimmedI: "(\<And>c. c \<in> set s \<Longrightarrow> of_char c < (128 :: nat) \<and> \<not> IsSpace (of_char c)) \<Longrightarrow> trimmed s"
  by (cases "s = []") (simp_all add: trimmed_def is_ascii_def list_all_iff)

lemma TrimSpace_trimmed: "trimmed s \<Longrightarrow> TrimSpace s = s"
  by (auto simp: trimmed_def TrimSpace_ascii trim_both_id)

lemma TrimSpace_blank: "trimmed s \<Longrightarrow> TrimSpace (CHR '' '' # s) = s"
proof -
  assume t: "trimmed s"
  then have "is_ascii (CHR '' '' # s)" by (simp add: trimmed_def is_ascii_def)
  then have "TrimSpace (CHR '' '' # s) = trim_both (\<lambda>c. IsSpace (of_char c)) s"
    by (simp add: TrimSpace_ascii trim_both_def IsSpace_def)
  then show ?thesis using t TrimSpace_trimmed [OF t] by (simp add: trimmed_def TrimSpace_ascii)
qed

lemma Split_Join_semicolon:
  "list_all (\<lambda>p. CHR '';'' \<notin> set p) (p # ps) \<Longrightarrow> Split (Join (p # ps) ''; '') (CHR '';'') = p # map ((#) (CHR '' '')) ps"
proof (induction ps arbitrary: p)
  case (Cons q qs)
  have "Split (CHR '' '' # s) (CHR '';'') = (case Split s (CHR '';'') of w # ws \<Rightarrow> (CHR '' '' # w) # ws)" for s
    by (cases "Split s (CHR '';'')") simp_all
  then show ?case using Cons by (simp add: Split_append Join_Cons)
qed (simp add: Split_absent)

lemma trimmed_pair: "trimmed k \<Longrightarrow> k \<noteq> [] \<Longrightarrow> trimmed v \<Longrightarrow> trimmed (k @ CHR ''='' # v)"
  by (auto simp: trimmed_def is_ascii_def IsSpace_def)

lemma put_attr_value:
  assumes "trimmed k" "k \<noteq> []" "CHR ''='' \<notin> set k" "trimmed v"
  shows "put_attr ulow (CHR '' '' # k @ CHR ''='' # v) attrs = AList.update (map lower_byte k) v attrs"
  using assms trimmed_pair [OF assms(1,2,4)]
  by (simp add: put_attr_def TrimSpace_blank Cut_append TrimSpace_trimmed ToLower_def trimmed_def)

lemma put_attr_flag:
  assumes "trimmed k" "k \<noteq> []" "CHR ''='' \<notin> set k"
  shows "put_attr ulow (CHR '' '' # k) attrs = AList.update (map lower_byte k) [] attrs"
  using assms by (simp add: put_attr_def TrimSpace_blank TrimSpace_trimmed ToLower_def trimmed_def)
    (simp add: TrimSpace_ascii is_ascii_def trim_both_def)

text \<open>What the harness relies on of the two renderings of an instant: whole seconds survive.\<close>

definition http_time :: "(string \<Rightarrow> int option) \<Rightarrow> (int \<Rightarrow> string) \<Rightarrow> bool" where
  "http_time ParseTime fmt \<longleftrightarrow> (\<forall>t. 0 \<le> t \<longrightarrow> t < 253402300800 * Second \<longrightarrow>
     ParseTime (fmt t) = Some (t div Second * Second) \<and> trimmed (fmt t) \<and> CHR '';'' \<notin> set (fmt t))"

definition token_text :: "string \<Rightarrow> bool" where
  "token_text v \<longleftrightarrow> list_all (\<lambda>c. b64_val (CHR ''-'') (CHR ''_'') c \<noteq> None) v"

lemma token_byte:
  assumes "b64_val (CHR ''-'') (CHR ''_'') c \<noteq> None"
  shows "cookie_byte c \<and> c \<notin> {CHR '' '', CHR '','', CHR '';''} \<and> of_char c < (128 :: nat) \<and> \<not> IsSpace (of_char c)"
proof -
  have "byte_in 65 90 c \<or> byte_in 97 122 c \<or> byte_in 48 57 c \<or> c = CHR ''-'' \<or> c = CHR ''_''"
    using assms by (simp add: b64_val_def split: if_splits)
  then show ?thesis
    by (elim disjE) (auto simp: byte_in_def cookie_byte_def QUOTE_def BSL_def IsSpace_def)
qed

lemma token_text_plain:
  assumes "token_text v"
  shows "sanitizeCookieValue v = v" "trimmed v" "CHR '';'' \<notin> set v"
proof -
  have b: "\<forall>c \<in> set v. cookie_byte c \<and> c \<notin> {CHR '' '', CHR '','', CHR '';''} \<and> of_char c < (128 :: nat) \<and> \<not> IsSpace (of_char c)"
    using assms token_byte by (auto simp: token_text_def list_all_iff)
  then have "filter cookie_byte v = v" "\<not> ContainsAny v '' ,''"
    by (auto simp: filter_id_conv ContainsAny_def list_ex_iff)
  then show "sanitizeCookieValue v = v" by (simp add: sanitizeCookieValue_def)
  show "trimmed v" using b by (intro trimmedI) blast
  show "CHR '';'' \<notin> set v" using b by blast
qed

lemma digits_plain: "list_all is_digit s \<Longrightarrow> trimmed s \<and> CHR '';'' \<notin> set s"
proof -
  assume "list_all is_digit s"
  then have "\<forall>c \<in> set s. of_char c < (128 :: nat) \<and> \<not> IsSpace (of_char c) \<and> c \<noteq> CHR '';''"
    by (auto simp: list_all_iff is_digit_def byte_in_def IsSpace_def)
  then show ?thesis by (intro conjI trimmedI) blast+
qed

text \<open>The shape of both cookies the handlers send.\<close>

definition session_shaped :: "cookie \<Rightarrow> bool" where
  "session_shaped ck \<longleftrightarrow> ck_Name ck = SessionCookieName \<and> token_text (ck_Value ck) \<and> ck_Path ck = ''/'' \<and>
     0 \<le> ck_Expires ck \<and> ck_Expires ck < 253402300800 * Second \<and> ck_MaxAge ck \<noteq> 0 \<and> ck_HttpOnly ck"

definition max_age_text :: "cookie \<Rightarrow> string" where
  "max_age_text ck = (if 0 < ck_MaxAge ck then format_int (ck_MaxAge ck) else ''0'')"

lemma max_age_plain: "trimmed (max_age_text ck)" "CHR '';'' \<notin> set (max_age_text ck)"
  using digits_plain [OF format_nat_digits, of "nat (ck_MaxAge ck)"]
  by (auto simp: max_age_text_def format_int_def trimmed_def is_ascii_def IsSpace_def)

definition session_attrs :: "(int \<Rightarrow> string) \<Rightarrow> cookie \<Rightarrow> (string \<times> string) list" where
  "session_attrs fmt ck =
     [(''path'', ''/''), (''expires'', fmt (ck_Expires ck)), (''max-age'', max_age_text ck), (''httponly'', [])] @
     (if ck_Secure ck then [(''secure'', [])] else []) @ [(''samesite'', ''Lax'')]"

lemma lower_letters:
  "lower_byte (CHR ''P'') = CHR ''p''" "lower_byte (CHR ''E'') = CHR ''e''" "lower_byte (CHR ''M'') = CHR ''m''"
  "lower_byte (CHR ''A'') = CHR ''a''" "lower_byte (CHR ''H'') = CHR ''h''" "lower_byte (CHR ''O'') = CHR ''o''"
  "lower_byte (CHR ''S'') = CHR ''s''"
  by code_simp+

lemma trimmed_names:
  "trimmed ''Path''" "trimmed ''Expires''" "trimmed ''Max-Age''" "trimmed ''HttpOnly''" "trimmed ''Secure''" "trimmed ''SameSite''"
  "trimmed ''/''" "trimmed ''Lax''"
  by (simp_all add: trimmed_def is_ascii_def IsSpace_def)

lemma cookie_attributes_eq:
  assumes "session_shaped ck"
  shows "cookie_attributes fmt ck =
    [''Path'' @ CHR ''='' # ''/'', ''Expires'' @ CHR ''='' # fmt (ck_Expires ck), ''Max-Age'' @ CHR ''='' # max_age_text ck, ''HttpOnly''] @
    (if ck_Secure ck then [''Secure''] else []) @ [''SameSite'' @ CHR ''='' # ''Lax'']"
  using assms by (cases "ck_SameSite ck") (auto simp: cookie_attributes_def session_shaped_def Second_def max_age_text_def)

lemma attributes_parsed:
  assumes "session_shaped ck" "http_time ParseTime fmt"
  shows "fold (put_attr ulow) (map ((#) (CHR '' '')) (cookie_attributes fmt ck)) [] = session_attrs fmt ck"
proof -
  have f: "trimmed (fmt (ck_Expires ck))" using assms by (simp add: session_shaped_def http_time_def)
  note lower = lower_letters lower_byte_id
  have u: "put_attr ulow '' Path=/'' m = AList.update ''path'' ''/'' m"
    "put_attr ulow ('' Expires='' @ fmt (ck_Expires ck)) m = AList.update ''expires'' (fmt (ck_Expires ck)) m"
    "put_attr ulow ('' Max-Age='' @ max_age_text ck) m = AList.update ''max-age'' (max_age_text ck) m"
    "put_attr ulow '' HttpOnly'' m = AList.update ''httponly'' [] m" "put_attr ulow '' Secure'' m = AList.update ''secure'' [] m"
    "put_attr ulow '' SameSite=Lax'' m = AList.update ''samesite'' ''Lax'' m" for m
    using put_attr_value [OF trimmed_names(1) _ _ trimmed_names(7), of ulow m] put_attr_value [OF trimmed_names(2) _ _ f, of ulow m]
      put_attr_value [OF trimmed_names(3) _ _ max_age_plain(1), of ulow ck m] put_attr_flag [OF trimmed_names(4), of ulow m]
      put_attr_flag [OF trimmed_names(5), of ulow m] put_attr_value [OF trimmed_names(6) _ _ trimmed_names(8), of ulow m]
    by (simp_all add: lower)
  show ?thesis
    unfolding cookie_attributes_eq [OF assms(1)] session_attrs_def using u [simplified append.simps] by simp
qed

lemma line_parsed:
  assumes "session_shaped ck" "http_time ParseTime fmt"
  shows "parse_line ulow (cookie_String fmt ck) =
    Some \<lparr>sc_Name = SessionCookieName, sc_Value = ck_Value ck, sc_Attrs = session_attrs fmt ck, sc_Raw = cookie_String fmt ck\<rparr>"
proof -
  let ?first = "SessionCookieName @ CHR ''='' # ck_Value ck"
  have n: "trimmed SessionCookieName" "CHR ''='' \<notin> set SessionCookieName" "CHR '';'' \<notin> set SessionCookieName" "SessionCookieName \<noteq> []"
    by (simp_all add: SessionCookieName_def trimmed_def is_ascii_def IsSpace_def)
  note v = token_text_plain [of "ck_Value ck"]
  have ck: "token_text (ck_Value ck)" "ck_Name ck = SessionCookieName" using assms(1) by (simp_all add: session_shaped_def)
  have "CHR '';'' \<notin> set (fmt (ck_Expires ck))" using assms by (simp add: session_shaped_def http_time_def)
  then have "list_all (\<lambda>p. CHR '';'' \<notin> set p) (cookie_attributes fmt ck)"
    using max_age_plain(2) [of ck] by (simp add: cookie_attributes_eq [OF assms(1)])
  then have "Split (cookie_String fmt ck) (CHR '';'') = ?first # map ((#) (CHR '' '')) (cookie_attributes fmt ck)"
    using n v ck by (simp add: cookie_String_def Split_Join_semicolon)
  moreover have "trimmed ?first" by (rule trimmed_pair [OF n(1,4) v(2) [OF ck(1)]])
  ultimately show ?thesis
    using n v ck attributes_parsed [OF assms] by (simp add: parse_line_def TrimSpace_trimmed Cut_append)
qed

section \<open>The harness accepts what the handlers send\<close>

text \<open>
  The expectation \<open>cases/login.yaml\<close> writes for a session cookie, for a server run with
  \<open>SESSION_TTL=720h\<close> and \<open>COOKIE_SECURE=false\<close>, and the one the cases write for a cleared one.
\<close>

definition token_pattern :: string where
  "token_pattern = ''[A-Za-z0-9_-]{43}''"

definition session_expect :: CookieExpect where
  "session_expect =
     \<lparr>x_Value = None, x_ValuePattern = token_pattern, x_Path = Some ''/'', x_Domain = [], x_MaxAge = Some 2592000,
      x_HttpOnly = Some True, x_Secure = Some False, x_SameSite = ''Lax'', x_Expires = ExpiresMaxAge\<rparr>"

text \<open>What the harness relies on of \<open>regexp\<close>: the one pattern means what it reads as.\<close>

definition token_char :: "char \<Rightarrow> bool" where
  "token_char c \<longleftrightarrow> byte_in 65 90 c \<or> byte_in 97 122 c \<or> byte_in 48 57 c \<or> c = CHR ''_'' \<or> c = CHR ''-''"

definition token_regexp :: "(string \<Rightarrow> string \<Rightarrow> bool option) \<Rightarrow> bool" where
  "token_regexp matches \<longleftrightarrow> (\<forall>s. matches token_pattern s = Some (length s = 43 \<and> list_all token_char s))"

definition cleared_expect :: "bool \<Rightarrow> CookieExpect" where
  "cleared_expect secure =
     \<lparr>x_Value = Some [], x_ValuePattern = [], x_Path = Some ''/'', x_Domain = [], x_MaxAge = Some 0,
      x_HttpOnly = Some True, x_Secure = Some secure, x_SameSite = ''Lax'', x_Expires = ExpiresPast\<rparr>"

lemma session_attr_values:
  assumes "sc_Attrs c = session_attrs fmt ck"
  shows "attr c ''path'' = ''/''" "attr c ''expires'' = fmt (ck_Expires ck)" "attr c ''max-age'' = max_age_text ck"
    "attr c ''samesite'' = ''Lax''" "\<not> has_attr c ''domain''" "has_attr c ''max-age''" "has_attr c ''httponly''"
    "has_attr c ''secure'' \<longleftrightarrow> ck_Secure ck" "filter (\<lambda>k. k \<notin> set known_attrs) (map fst (sc_Attrs c)) = []"
    "map_of (sc_Attrs c) ''expires'' = Some (fmt (ck_Expires ck))"
  using assms by (simp_all add: attr_def has_attr_def session_attrs_def known_attrs_def)

lemma expires_of_session:
  assumes "session_shaped ck" "http_time ParseTime fmt" "sc_Attrs c = session_attrs fmt ck"
  shows "expiresRelation ParseTime ParseUnpadded c (Some d) =
    (let t = ck_Expires ck div Second * Second in
     if t \<le> d then Inr (ExpiresPast, 0) else Inr (ExpiresFuture, time_Sub t d))"
proof -
  have "ParseTime (fmt (ck_Expires ck)) = Some (ck_Expires ck div Second * Second)"
    using assms(1,2) by (simp add: session_shaped_def http_time_def)
  then show ?thesis by (simp add: expiresRelation_def session_attr_values(10) [OF assms(3)] Let_def)
qed

text \<open>The arithmetic of two whole-second clocks around one \<open>Max-Age\<close>.\<close>

lemma expires_close:
  assumes "3 * Second \<le> expires - now" "expires - now \<le> 2 ^ 62" "date mod Second = 0"
    and "now - 2 * Second \<le> date" "date \<le> now + Second" "maxAge = max (ceil_seconds (expires - now)) 1"
  shows "date < expires div Second * Second"
    "in_tolerance ExpiresTolerance (wrap64 (time_Sub (expires div Second * Second) date - wrap64 (maxAge * Second)))"
proof -
  define e where "e = expires div Second * Second"
  have s: "Second = 1000000000" by (simp add: Second_def)
  have "expires = e + expires mod Second" "0 \<le> expires mod Second" "expires mod Second < Second"
    by (simp_all add: e_def s)
  then have e: "e \<le> expires" "expires < e + Second" by linarith+
  have m: "expires - now \<le> maxAge * Second" "maxAge * Second < expires - now + Second"
    using ceil_seconds_bounds [of "expires - now"] assms(1,6) by (simp_all add: Second_def max_def)
  have lt: "date < e" using assms(1,5) e s by linarith
  then show "date < expires div Second * Second" by (simp add: e_def)
  have "time_Sub e date = e - date" using lt assms(2,4) e s by (simp add: time_Sub_def)
  moreover have "wrap64 (maxAge * Second) = maxAge * Second"
    using m assms(1,2) s by (intro wrap64_id) (simp add: is_int64_def)
  moreover have d: "e - date - maxAge * Second \<le> 2 * Second" "- 3 * Second < e - date - maxAge * Second"
    using m e assms(4,5) by linarith+
  then have "wrap64 (e - date - maxAge * Second) = e - date - maxAge * Second"
    using s by (intro wrap64_id) (simp add: is_int64_def)
  moreover have "- 2 * Second \<le> e - date - maxAge * Second"
  proof -
    have "Second dvd date" using assms(3) by (simp add: dvd_eq_mod_eq_0)
    then have "Second dvd e - date - maxAge * Second" by (simp add: e_def)
    then obtain k where "e - date - maxAge * Second = Second * k" by (rule dvdE)
    moreover from this have "- 3 < k" using d(2) unfolding s by linarith
    ultimately show ?thesis unfolding s by linarith
  qed
  ultimately show "in_tolerance ExpiresTolerance (wrap64 (time_Sub (expires div Second * Second) date - wrap64 (maxAge * Second)))"
    using d(1) by (simp add: in_tolerance_def ExpiresTolerance_def flip: e_def)
qed

lemma sent_line_checked:
  assumes "session_shaped ck" "http_time ParseTime fmt"
    and "\<And>c. sc_Attrs c = session_attrs fmt ck \<Longrightarrow> sc_Value c = ck_Value ck \<Longrightarrow>
      cookie_mismatches ParseTime ParseUnpadded matches c want date = Some []"
  shows "\<exists>c. ParseSetCookies ulow [cookie_String fmt ck] = Inr [c] \<and> sc_Name c = SessionCookieName \<and>
    CheckCookie ParseTime ParseUnpadded matches render c want date = Some []"
  using line_parsed [OF assms(1,2), of ulow] assms(3) by (simp add: CheckCookie_def)

text \<open>A token is 43 characters of the URL alphabet, and its cookie that of the clock after the insert.\<close>

lemma token_of_bytes:
  assumes "length b = 32"
  shows "length (RawURL_EncodeToString b) = 43" "token_text (RawURL_EncodeToString b)"
    "list_all token_char (RawURL_EncodeToString b)"
proof -
  show "length (RawURL_EncodeToString b) = 43" using assms by (simp add: RawURL_EncodeToString_def b64_encode_length)
  show t: "token_text (RawURL_EncodeToString b)"
    using b64_encode_alphabet [OF b64_extra_url, of b] by (simp add: token_text_def RawURL_EncodeToString_def)
  have "token_char c" if "b64_val (CHR ''-'') (CHR ''_'') c \<noteq> None" for c
    using that by (auto simp: b64_val_def token_char_def split: if_splits)
  then show "list_all token_char (RawURL_EncodeToString b)" using t by (auto simp: token_text_def list_all_iff)
qed

lemma IssueSession_cookie:
  assumes "IssueSession ext h c uid ua w = (Inr ck, w')" "w_rand w = Some b # rs"
  shows "ck = sessionCookie h (RawURL_EncodeToString b) (h_now h w + sessionTTL h) w'"
  using assms by (auto simp: IssueSession_def newSessionToken_def rand_Read_def h_now_def Let_def split: prod.splits sum.splits)

text \<open>A window of whole seconds, less than one of which has passed, still rounds up to itself.\<close>

lemma ceil_seconds_whole:
  assumes "0 \<le> e" "e < Second"
  shows "ceil_seconds (n * Second - e) = n"
proof -
  have "e - n * Second = Second * (- n) + e" by simp
  then have "(e - n * Second) div Second = - n" using assms by (simp only: div_mult_self4) simp
  then show ?thesis by (simp add: ceil_seconds_def Second_def)
qed

text \<open>
  C39. The harness accepts the cookie a login sends. For a server run as the harness runs it, with
  sessions of 720 hours and cookies allowed over plain HTTP, the cookie \<open>IssueSession\<close> returns,
  sent as a \<open>Set-Cookie\<close> line and parsed back, meets the expectation of \<open>cases/login.yaml\<close>
  attribute by attribute: a value of 43 characters of the URL alphabet, \<open>Path=/\<close>, no domain,
  \<open>Max-Age=2592000\<close>, \<open>HttpOnly\<close>, not \<open>Secure\<close>, \<open>SameSite=Lax\<close>, and an \<open>Expires\<close> at \<open>Date\<close>
  plus \<open>Max-Age\<close>. It does so whatever the clock's fraction of a second and however much time below
  a second the insert of the session takes, as long as \<open>Date\<close> is stamped no more than a second
  ahead of the clock and two behind it, and the expiry lies before the year 10000.
\<close>

theorem session_cookie_accepted:
  assumes "http_time ParseTime fmt" "token_regexp matches"
    and "sessionTTL h = 720 * 3600 * Second" "\<not> cookieSecure h"
    and "w_rand w = Some b # rs" "length b = 32"
    and "IssueSession ext h c uid ua w = (Inr ck, w')"
    and "0 \<le> h_now h w" "h_now h w < 250000000000 * Second"
    and "h_now h w \<le> h_now h w'" "h_now h w' < h_now h w + Second"
    and "date mod Second = 0" "h_now h w' - 2 * Second \<le> date" "date \<le> h_now h w' + Second"
  shows "\<exists>sc. ParseSetCookies ulow [cookie_String fmt ck] = Inr [sc] \<and> sc_Name sc = SessionCookieName \<and>
    CheckCookie ParseTime ParseUnpadded matches render sc session_expect (Some date) = Some []"
proof (rule sent_line_checked [OF _ assms(1)])
  define token expires where "token = RawURL_EncodeToString b" and "expires = h_now h w + sessionTTL h"
  note t = token_of_bytes [OF assms(6), folded token_def]
  have ck: "ck = sessionCookie h token expires w'"
    unfolding token_def expires_def by (rule IssueSession_cookie [OF assms(7,5)])
  have left: "expires - h_now h w' = 2592000 * Second - (h_now h w' - h_now h w)" by (simp add: expires_def assms(3))
  have age: "ceil_seconds (expires - h_now h w') = 2592000"
    unfolding left using assms(10,11) by (intro ceil_seconds_whole) simp_all
  then have f: "ck_Expires ck = expires" "ck_Value ck = token" "ck_Secure ck = False" "ck_MaxAge ck = 2592000"
    using assms(4) by (simp_all add: ck sessionCookie_def Let_def)
  show s: "session_shaped ck"
    using t(2) f assms(3,8,9) by (simp add: session_shaped_def ck sessionCookie_def Let_def expires_def Second_def)
  have "3 * Second \<le> expires - h_now h w'" "expires - h_now h w' \<le> 2 ^ 62"
    unfolding left using assms(10,11) by (simp_all add: Second_def)
  note close = expires_close [OF this assms(12-14), of 2592000]
  fix sc :: SetCookie
  assume c: "sc_Attrs sc = session_attrs fmt ck" "sc_Value sc = ck_Value ck"
  have "max_age_text ck = format_int 2592000" by (simp add: max_age_text_def f(4))
  moreover have "matches token_pattern (sc_Value sc) = Some True" using assms(2) t c(2) f(2) by (simp add: token_regexp_def)
  ultimately show "cookie_mismatches ParseTime ParseUnpadded matches sc session_expect (Some date) = Some []"
    using close age
    by (simp add: cookie_mismatches_def session_expect_def session_attr_values [OF c(1)] f(1,3) expires_mismatches_def
        expires_of_session [OF s assms(1) c(1)] Let_def)
qed

text \<open>
  The harness accepts the cookie a logout sends: empty, with \<open>Max-Age=0\<close> and an \<open>Expires\<close> in
  the past.
\<close>

theorem cleared_cookie_accepted:
  assumes "http_time ParseTime fmt" "0 \<le> date"
  shows "\<exists>c. ParseSetCookies ulow [cookie_String fmt (ClearedSessionCookie h)] = Inr [c] \<and> sc_Name c = SessionCookieName \<and>
    CheckCookie ParseTime ParseUnpadded matches render c (cleared_expect (cookieSecure h)) (Some date) = Some []"
proof (rule sent_line_checked [OF _ assms(1)])
  let ?ck = "ClearedSessionCookie h"
  show s: "session_shaped ?ck" by (simp add: session_shaped_def ClearedSessionCookie_def token_text_def Second_def)
  have "format_int 0 = ''0''" by code_simp
  then have m: "max_age_text ?ck = format_int 0" by (simp add: max_age_text_def ClearedSessionCookie_def)
  have ck: "ck_Expires ?ck = 0" "ck_Value ?ck = []" "ck_Secure ?ck = cookieSecure h" by (simp_all add: ClearedSessionCookie_def)
  fix c :: SetCookie
  assume c: "sc_Attrs c = session_attrs fmt ?ck" "sc_Value c = ck_Value ?ck"
  show "cookie_mismatches ParseTime ParseUnpadded matches c (cleared_expect (cookieSecure h)) (Some date) = Some []"
    using assms(2) c(2)
    by (simp add: cookie_mismatches_def cleared_expect_def session_attr_values [OF c(1)] ck m expires_mismatches_def
        expires_of_session [OF s assms(1) c(1)] ExpiresPast_def ExpiresMaxAge_def)
qed

section \<open>Witnesses\<close>

text \<open>Seconds since the epoch as the rendering of an instant.\<close>

definition plain_fmt :: "int \<Rightarrow> string" where
  "plain_fmt t = format_nat (nat (t div Second))"

definition plain_time :: "string \<Rightarrow> int option" where
  "plain_time s = Some (int (digits_value s) * Second)"

lemma plain_http_time: "http_time plain_time plain_fmt"
  using digits_plain [OF format_nat_digits]
  by (auto simp: http_time_def plain_time_def plain_fmt_def Second_def nat_div_distrib)

text \<open>
  The server the harness runs, on a database whose insert takes three tenths of a second, and the
  one pattern as a predicate.
\<close>

definition plain_handlers :: Handlers where
  "plain_handlers = month_handlers\<lparr>cookieSecure := False\<rparr>"

definition slow_world :: world where
  "slow_world = quiet_world\<lparr>w_script := [(300000000, NoFault)]\<rparr>"

definition plain_matches :: "string \<Rightarrow> string \<Rightarrow> bool option" where
  "plain_matches p s = (if p = token_pattern then Some (length s = 43 \<and> list_all token_char s) else None)"

lemma slow_issue:
  "\<exists>ck w'. IssueSession toy_ext plain_handlers Background (Some ''u1'') [] slow_world = (Inr ck, w') \<and> w_clock w' = 301000000"
  using pg_text_HashToken [of toy_ext toy_token]
  by (simp add: IssueSession_def newSessionToken_def rand_Read_def slow_world_def quiet_world_def plain_handlers_def Let_def
      run_def next_fault_def stmt_error_def elapse_def Background_def ctx_Err_def
      CreateSession_def checked_def one_user_db_def empty_db_def user_row_def one_user_def
      nullString_def sessionCookie_def h_now_def toy_token_def)

theorem session_cookie_accepted_witness:
  "\<exists>ck w' sc. IssueSession toy_ext plain_handlers Background (Some ''u1'') [] slow_world = (Inr ck, w') \<and>
     ParseSetCookies id [cookie_String plain_fmt ck] = Inr [sc] \<and> sc_Name sc = SessionCookieName \<and>
     CheckCookie plain_time plain_time plain_matches (\<lambda>_. []) sc session_expect (Some 0) = Some []"
proof -
  obtain ck w' where i: "IssueSession toy_ext plain_handlers Background (Some ''u1'') [] slow_world = (Inr ck, w')"
    and w': "w_clock w' = 301000000"
    using slow_issue by blast
  have "\<exists>sc. ParseSetCookies id [cookie_String plain_fmt ck] = Inr [sc] \<and> sc_Name sc = SessionCookieName \<and>
     CheckCookie plain_time plain_time plain_matches (\<lambda>_. []) sc session_expect (Some 0) = Some []"
    by (rule session_cookie_accepted [OF plain_http_time _ _ _ _ _ i, where b = fresh_token_bytes and rs = "[]"])
      (simp_all add: token_regexp_def plain_matches_def plain_handlers_def slow_world_def quiet_world_def fresh_token_bytes_def
        h_now_def w' Second_def)
  with i show ?thesis by blast
qed

theorem cleared_cookie_accepted_witness:
  "\<exists>c. ParseSetCookies id [cookie_String plain_fmt (ClearedSessionCookie month_handlers)] = Inr [c] \<and>
     CheckCookie plain_time plain_time (\<lambda>_ _. None) (\<lambda>_. []) c (cleared_expect True) (Some 0) = Some []"
  using cleared_cookie_accepted [OF plain_http_time, of 0 id month_handlers plain_time "\<lambda>_ _. None" "\<lambda>_. []"] by auto

end
