(* ===== verification/Conf_Db.thy ===== *)
theory Conf_Db
  imports Conf_Permitted "HOL-Library.AList" "HOL-Library.Multiset"
begin

text \<open>
  The databases behind the conformance harness (\<open>contract/conformance/db.go\<close>): taking a database
  away and giving it back, resetting it to the seed, reading rows, and the comparison of the
  state two backends left behind.

  A \<open>float64\<close> is the rational number it stands for, its operations rounded to 53 bits; neither
  infinities nor subnormal numbers are modelled. PostgreSQL answers through parameters: the
  table list, the columns of a table, the rows of a query. \<open>Sanitize\<close> quotes an identifier,
  \<open>Quote\<close> is the verb \<open>%q\<close>, \<open>fmt1\<close> the verb \<open>%+.1f\<close>.
\<close>

section \<open>Floating point\<close>

fun bit_length :: "nat \<Rightarrow> nat" where
  "bit_length n = (if n = 0 then 0 else Suc (bit_length (n div 2)))"

declare bit_length.simps [simp del]

definition pow2 :: "int \<Rightarrow> rat" where
  "pow2 e = (if 0 \<le> e then 2 ^ nat e else 1 / 2 ^ nat (- e))"

definition round_half_even :: "rat \<Rightarrow> int" where
  "round_half_even x =
     (let f = \<lfloor>x\<rfloor>; d = x - of_int f
      in if d < 1 / 2 then f else if 1 / 2 < d then f + 1 else if even f then f else f + 1)"

text \<open>The exponent with which a positive number has a significand of 53 bits.\<close>

definition exponent53 :: "rat \<Rightarrow> int" where
  "exponent53 x =
     (case quotient_of x of (a, b) \<Rightarrow>
        let e = int (bit_length (nat a)) - int (bit_length (nat b)) - 53
        in if 2 ^ 53 \<le> x / pow2 e then e + 1 else e)"

definition round_positive :: "rat \<Rightarrow> rat" where
  "round_positive x = of_int (round_half_even (x / pow2 (exponent53 x))) * pow2 (exponent53 x)"

definition float64 :: "rat \<Rightarrow> rat" where
  "float64 x = (if x = 0 then 0 else if x < 0 then - round_positive (- x) else round_positive x)"

text \<open>\<open>time.Duration(f)\<close> truncates; out of range it is the least \<open>int64\<close>, as on amd64.\<close>

definition trunc :: "rat \<Rightarrow> int" where
  "trunc x = (if 0 \<le> x then \<lfloor>x\<rfloor> else \<lceil>x\<rceil>)"

definition Duration_of :: "rat \<Rightarrow> int" where
  "Duration_of x = (if is_int64 (trunc x) then trunc x else - (2 ^ 63))"

section \<open>Outages\<close>

text \<open>What the harness touches of a PostgreSQL server: who may connect to what, and who is connected.\<close>

record pg_server =
  srv_allow :: "string \<Rightarrow> bool"
  srv_activity :: "(nat \<times> string) list"

record DB =
  db_pid :: nat
  db_admin :: nat
  db_name :: string

text \<open>An \<open>Exec\<close> that fails changes nothing.\<close>

definition admin_exec :: "bool \<Rightarrow> (pg_server \<Rightarrow> pg_server) \<Rightarrow> pg_server \<Rightarrow> bool \<times> pg_server" where
  "admin_exec fails stmt s = (if fails then (False, s) else (True, stmt s))"

definition allow_connections :: "string \<Rightarrow> bool \<Rightarrow> pg_server \<Rightarrow> pg_server" where
  "allow_connections name b s = s\<lparr>srv_allow := (srv_allow s)(name := b)\<rparr>"

definition terminate_backends :: "string \<Rightarrow> nat \<Rightarrow> pg_server \<Rightarrow> pg_server" where
  "terminate_backends name pid s = s\<lparr>srv_activity := filter (\<lambda>(p, n). \<not> (n = name \<and> p \<noteq> pid)) (srv_activity s)\<rparr>"

definition Outage :: "bool \<Rightarrow> bool \<Rightarrow> DB \<Rightarrow> pg_server \<Rightarrow> bool \<times> pg_server" where
  "Outage fails1 fails2 d s =
     (case admin_exec fails1 (allow_connections (db_name d) False) s of
        (False, s1) \<Rightarrow> (False, s1)
      | (True, s1) \<Rightarrow> admin_exec fails2 (terminate_backends (db_name d) (db_pid d)) s1)"

definition Restore :: "bool \<Rightarrow> DB \<Rightarrow> pg_server \<Rightarrow> bool \<times> pg_server" where
  "Restore fails d s = admin_exec fails (allow_connections (db_name d) True) s"

text \<open>
  A connection is opened when the server can be reached and the database accepts connections,
  under the process id the server gives it.
\<close>

definition pg_connect :: "bool \<Rightarrow> nat \<Rightarrow> string \<Rightarrow> pg_server \<Rightarrow> bool \<times> pg_server" where
  "pg_connect fails pid name s =
     (if fails \<or> \<not> srv_allow s name then (False, s) else (True, s\<lparr>srv_activity := (pid, name) # srv_activity s\<rparr>))"

definition pg_close :: "nat \<Rightarrow> pg_server \<Rightarrow> pg_server" where
  "pg_close pid s = s\<lparr>srv_activity := filter (\<lambda>(p, _). p \<noteq> pid) (srv_activity s)\<rparr>"

datatype open_error = ConnectFailed | ParseFailed | MaintenanceFailed | RestoreFailed

text \<open>
  \<open>ParseConfig\<close> gives the database a URL names. The connections fail by \<open>fails1\<close> and \<open>fails2\<close>
  and get the ids \<open>pid\<close> and \<open>admin\<close>. When \<open>Restore\<close> fails the handle is returned with the error.
\<close>

definition OpenDB :: "(string \<Rightarrow> string option) \<Rightarrow> bool \<Rightarrow> bool \<Rightarrow> bool \<Rightarrow> nat \<Rightarrow> nat \<Rightarrow> string \<Rightarrow> pg_server \<Rightarrow>
    open_error option \<times> DB option \<times> pg_server" where
  "OpenDB ParseConfig fails1 fails2 fails3 pid admin url s =
     (case ParseConfig url of
        None \<Rightarrow> (Some ConnectFailed, None, s)
      | Some target \<Rightarrow>
        (case pg_connect fails1 pid target s of
           (False, s1) \<Rightarrow> (Some ConnectFailed, None, s1)
         | (True, s1) \<Rightarrow>
           (case ParseConfig url of
              None \<Rightarrow> (Some ParseFailed, None, pg_close pid s1)
            | Some name \<Rightarrow>
              (case pg_connect fails2 admin ''postgres'' s1 of
                 (False, s2) \<Rightarrow> (Some MaintenanceFailed, None, pg_close pid s2)
               | (True, s2) \<Rightarrow>
                 let d = \<lparr>db_pid = pid, db_admin = admin, db_name = name\<rparr>
                 in case Restore fails3 d s2 of
                      (ok, s3) \<Rightarrow> (if ok then None else Some RestoreFailed, Some d, s3)))))"

definition CloseDB :: "DB \<Rightarrow> pg_server \<Rightarrow> pg_server" where
  "CloseDB d s = pg_close (db_admin d) (pg_close (db_pid d) s)"

text \<open>A step's SQL, one batch that fails as a whole (\<open>None\<close>).\<close>

definition Exec :: "(string \<Rightarrow> 'r \<Rightarrow> 'r option) \<Rightarrow> string \<Rightarrow> 'r \<Rightarrow> bool \<times> 'r" where
  "Exec apply_sql sql s = (case apply_sql sql s of None \<Rightarrow> (False, s) | Some s' \<Rightarrow> (True, s'))"

section \<open>The seed\<close>

definition migrationHistory :: "string list" where
  "migrationHistory = [''goose_db_version'', ''flyway_schema_history'']"

text \<open>The base tables of the public schema with their rows.\<close>

type_synonym 'r tables_of = "(string \<times> 'r list) list"

definition db_tables :: "'r tables_of \<Rightarrow> string list" where
  "db_tables s = sort (filter (\<lambda>t. t \<notin> set migrationHistory) (map fst s))"

definition truncate_tables :: "string list \<Rightarrow> 'r tables_of \<Rightarrow> 'r tables_of" where
  "truncate_tables ts s = map (\<lambda>(t, rows). (t, if t \<in> set ts then [] else rows)) s"

datatype reset_error = ListTables | SeedUnreadable | TruncateFailed | SeedFailed

text \<open>
  \<open>listed\<close> and \<open>truncated\<close> say whether these two statements reach the server; without a table
  to name, \<open>TRUNCATE\<close> is a syntax error. \<open>apply_seed\<close> is the seed file's SQL, \<open>None\<close> when it fails.
\<close>

definition Reset :: "bool \<Rightarrow> string option \<Rightarrow> bool \<Rightarrow> (string \<Rightarrow> 'r tables_of \<Rightarrow> 'r tables_of option) \<Rightarrow>
    'r tables_of \<Rightarrow> (reset_error option \<times> 'r tables_of)" where
  "Reset listed seed truncated apply_seed s =
     (if \<not> listed then (Some ListTables, s)
      else case seed of
        None \<Rightarrow> (Some SeedUnreadable, s)
      | Some sql \<Rightarrow>
        let tables = db_tables s in
        if \<not> truncated \<or> tables = [] then (Some TruncateFailed, s)
        else let s1 = truncate_tables tables s in
          case apply_seed sql s1 of None \<Rightarrow> (Some SeedFailed, s1) | Some s2 \<Rightarrow> (None, s2))"

section \<open>Rows of a query\<close>

datatype pgval =
    PNull | PText string | PBool bool | PInt16 int | PInt32 int | PInt64 int | PFloat64 rat | POther string

datatype rowval = RNull | RText string | RBool bool | RNum rat

datatype query_failure = QueryFailed | ColumnType string

fun row_value :: "pgval \<Rightarrow> rowval option" where
  "row_value PNull = Some RNull"
| "row_value (PText s) = Some (RText s)"
| "row_value (PBool b) = Some (RBool b)"
| "row_value (PInt16 i) = Some (RNum (float64 (of_int i)))"
| "row_value (PInt32 i) = Some (RNum (float64 (of_int i)))"
| "row_value (PInt64 i) = Some (RNum (float64 (of_int i)))"
| "row_value _ = None"

fun query_row :: "(string \<times> rowval) list \<Rightarrow> (string \<times> pgval) list \<Rightarrow> query_failure + (string \<times> rowval) list" where
  "query_row row [] = Inr row"
| "query_row row ((name, v) # vals) =
     (case row_value v of
        None \<Rightarrow> Inl (ColumnType name)
      | Some x \<Rightarrow> query_row (AList.update name x row) vals)"

text \<open>The rows the server sends, \<open>None\<close> for an error in their stead, and whether it ends in one.\<close>

fun query_rows :: "string list \<Rightarrow> pgval list option list \<Rightarrow> bool \<Rightarrow> query_failure + (string \<times> rowval) list list" where
  "query_rows names [] ends_well = (if ends_well then Inr [] else Inl QueryFailed)"
| "query_rows names (None # rows) ends_well = Inl QueryFailed"
| "query_rows names (Some vals # rows) ends_well =
     res_bind (query_row [] (zip names vals)) (\<lambda>row. res_bind (query_rows names rows ends_well) (\<lambda>rest. Inr (row # rest)))"

definition Query :: "(string list \<times> pgval list option list \<times> bool) option \<Rightarrow> query_failure + (string \<times> rowval) list list" where
  "Query answer =
     (case answer of None \<Rightarrow> Inl QueryFailed | Some (names, rows, ends_well) \<Rightarrow> query_rows names rows ends_well)"

section \<open>Snapshots\<close>

record SnapshotCell =
  cell_Text :: "string option"
  cell_Offset :: "rat option"

type_synonym SnapshotRow = "(string \<times> SnapshotCell) list"
type_synonym Snapshot = "(string \<times> SnapshotRow list) list"

definition SnapshotCell_String :: "(string \<Rightarrow> string) \<Rightarrow> (rat \<Rightarrow> string) \<Rightarrow> SnapshotCell \<Rightarrow> string" where
  "SnapshotCell_String Quote fmt1 c =
     (case cell_Offset c of
        Some f \<Rightarrow> ''now'' @ fmt1 f @ ''s''
      | None \<Rightarrow> (case cell_Text c of Some t \<Rightarrow> Quote t | None \<Rightarrow> ''NULL''))"

definition sorted_row :: "SnapshotRow \<Rightarrow> SnapshotRow" where
  "sorted_row r = sort_key fst r"

definition row_key :: "(string \<Rightarrow> string) \<Rightarrow> (rat \<Rightarrow> string) \<Rightarrow> SnapshotRow \<Rightarrow> string" where
  "row_key Quote fmt1 r =
     concat (map (\<lambda>(n, c). if cell_Offset c = None then SnapshotCell_String Quote fmt1 c @ [CHR 0x00] else [])
       (sorted_row r))"

definition SnapshotRow_String :: "(string \<Rightarrow> string) \<Rightarrow> (rat \<Rightarrow> string) \<Rightarrow> SnapshotRow \<Rightarrow> string" where
  "SnapshotRow_String Quote fmt1 r =
     ''{'' @ Join (map (\<lambda>(n, c). n @ ''='' @ SnapshotCell_String Quote fmt1 c) (sorted_row r)) '' '' @ ''}''"

fun cell_of :: "pgval \<Rightarrow> SnapshotCell" where
  "cell_of (PText s) = \<lparr>cell_Text = Some s, cell_Offset = None\<rparr>"
| "cell_of (PFloat64 f) = \<lparr>cell_Text = None, cell_Offset = Some f\<rparr>"
| "cell_of _ = \<lparr>cell_Text = None, cell_Offset = None\<rparr>"

definition column_expr :: "(string \<Rightarrow> string) \<Rightarrow> string \<times> string \<Rightarrow> string" where
  "column_expr Sanitize c =
     (if HasPrefix (snd c) ''timestamp'' then ''extract(epoch FROM ('' @ Sanitize (fst c) @ '' - now()))::float8''
      else Sanitize (fst c) @ ''::text'')"

definition snapshot_query :: "(string \<Rightarrow> string) \<Rightarrow> string \<Rightarrow> (string \<times> string) list \<Rightarrow> string" where
  "snapshot_query Sanitize t kept =
     ''SELECT '' @ Join (map (column_expr Sanitize) kept) '', '' @ '' FROM '' @ Sanitize t"

text \<open>
  The answers of the server: the tables, the columns of each with their types, and the rows of
  a query; \<open>None\<close> is an error. \<open>sortSlice\<close> is \<open>sort.Slice\<close> on the key of a row.
\<close>

record catalogue =
  cat_tables :: "string list option"
  cat_columns :: "string \<Rightarrow> (string \<times> string) list option"
  cat_select :: "string \<Rightarrow> pgval list list option"

fun snapshot_tables :: "(string \<Rightarrow> string) \<Rightarrow> (SnapshotRow list \<Rightarrow> SnapshotRow list) \<Rightarrow> catalogue \<Rightarrow>
    (string \<Rightarrow> string \<Rightarrow> bool) \<Rightarrow> Snapshot \<Rightarrow> string list \<Rightarrow> Snapshot option" where
  "snapshot_tables Sanitize sortSlice cat masked snap [] = Some snap"
| "snapshot_tables Sanitize sortSlice cat masked snap (t # ts) =
     (case cat_columns cat t of
        None \<Rightarrow> None
      | Some cs \<Rightarrow>
        let kept = filter (\<lambda>c. \<not> masked t (fst c)) cs in
        if kept = [] then snapshot_tables Sanitize sortSlice cat masked snap ts
        else case cat_select cat (snapshot_query Sanitize t kept) of
          None \<Rightarrow> None
        | Some rows \<Rightarrow>
          let rs = map (\<lambda>vals. fold (\<lambda>(n, v). AList.update n (cell_of v)) (zip (map fst kept) vals) []) rows
          in snapshot_tables Sanitize sortSlice cat masked
               (if rs = [] then snap else AList.update t (sortSlice rs) snap) ts)"

definition take_Snapshot :: "(string \<Rightarrow> string) \<Rightarrow> (SnapshotRow list \<Rightarrow> SnapshotRow list) \<Rightarrow> catalogue \<Rightarrow>
    (string \<Rightarrow> string \<Rightarrow> bool) \<Rightarrow> Snapshot option" where
  "take_Snapshot Sanitize sortSlice cat masked =
     (case cat_tables cat of None \<Rightarrow> None | Some ts \<Rightarrow> snapshot_tables Sanitize sortSlice cat masked [] ts)"

section \<open>Comparing them\<close>

definition StateTolerance :: int where "StateTolerance = 2 * 1000000000"

definition offset_difference :: "rat \<Rightarrow> rat \<Rightarrow> int" where
  "offset_difference a b = Duration_of (float64 (float64 (a - b) * 1000000000))"

definition cells_equal :: "SnapshotCell \<Rightarrow> SnapshotCell \<Rightarrow> bool" where
  "cells_equal c d =
     (case (cell_Offset c, cell_Offset d) of
        (Some a, Some b) \<Rightarrow> - StateTolerance \<le> offset_difference a b \<and> offset_difference a b \<le> StateTolerance
      | _ \<Rightarrow>
        (case (cell_Text c, cell_Text d) of
           (Some s, Some t) \<Rightarrow> s = t
         | _ \<Rightarrow> cell_Offset c = None \<and> cell_Offset d = None \<and> cell_Text c = None \<and> cell_Text d = None))"

definition row_equal :: "SnapshotRow \<Rightarrow> SnapshotRow \<Rightarrow> bool" where
  "row_equal r s \<longleftrightarrow> length r = length s \<and>
     list_all (\<lambda>(n, c). case map_of s n of None \<Rightarrow> False | Some d \<Rightarrow> cells_equal c d) r"

datatype snapshot_mismatch =
    RowCount string "SnapshotRow list" "SnapshotRow list" | RowDiffers string nat SnapshotRow SnapshotRow

definition rows_of :: "Snapshot \<Rightarrow> string \<Rightarrow> SnapshotRow list" where
  "rows_of s t = (case map_of s t of None \<Rightarrow> [] | Some rows \<Rightarrow> rows)"

definition table_parity :: "Snapshot \<Rightarrow> Snapshot \<Rightarrow> string \<Rightarrow> snapshot_mismatch list" where
  "table_parity a b t =
     (let ar = rows_of a t; br = rows_of b t
      in if length ar \<noteq> length br then [RowCount t ar br]
         else concat (map (\<lambda>(i, x, y). if row_equal x y then [] else [RowDiffers t i x y]) (enumerate 0 (zip ar br))))"

definition SnapshotParity :: "Snapshot \<Rightarrow> Snapshot \<Rightarrow> snapshot_mismatch list" where
  "SnapshotParity a b = concat (map (table_parity a b) (sort (remdups (map fst a @ map fst b))))"

section \<open>Outages and resets\<close>

text \<open>
  An outage is total and ends: once it has succeeded, nothing but the harness's own connection
  is left to the database and none can be opened; restoring lets them in again and touches no
  other database.
\<close>

theorem outage_then_restore:
  assumes "Outage fails1 fails2 d s = (True, s1)" "Restore fails3 d s1 = (True, s2)"
  shows "\<not> srv_allow s1 (db_name d) \<and> (\<forall>p. (p, db_name d) \<in> set (srv_activity s1) \<longrightarrow> p = db_pid d) \<and>
    ((db_pid d, db_name d) \<in> set (srv_activity s) \<longrightarrow> (db_pid d, db_name d) \<in> set (srv_activity s1)) \<and>
    srv_allow s2 (db_name d) \<and> (\<forall>n. n \<noteq> db_name d \<longrightarrow> srv_allow s2 n = srv_allow s n \<and>
      (\<forall>p. (p, n) \<in> set (srv_activity s2) \<longleftrightarrow> (p, n) \<in> set (srv_activity s)))"
  using assms
  by (auto simp: Outage_def Restore_def admin_exec_def allow_connections_def terminate_backends_def split: if_splits)

definition two_clients :: pg_server where
  "two_clients = \<lparr>srv_allow = (\<lambda>_. True), srv_activity = [(7, ''go''), (9, ''go''), (8, ''kotlin'')]\<rparr>"

theorem outage_then_restore_witness:
  "\<exists>s1 s2. Outage False False \<lparr>db_pid = 9, db_admin = 10, db_name = ''go''\<rparr> two_clients = (True, s1) \<and>
     Restore False \<lparr>db_pid = 9, db_admin = 10, db_name = ''go''\<rparr> s1 = (True, s2) \<and> \<not> srv_allow s1 ''go'' \<and> (7, ''go'') \<notin> set (srv_activity s1)"
proof -
  let ?d = "\<lparr>db_pid = 9, db_admin = 10, db_name = ''go''\<rparr>"
  obtain s1 where o: "Outage False False ?d two_clients = (True, s1)" by (simp add: Outage_def admin_exec_def)
  obtain s2 where r: "Restore False ?d s1 = (True, s2)" by (simp add: Restore_def admin_exec_def)
  show ?thesis using outage_then_restore [OF o r] o r by auto
qed

text \<open>
  Connections are accounted for: with ids that are new to the server, a failed opening leaves
  none behind and a handle that is closed takes both of its own with it and nobody else's.
\<close>

lemma pg_close_connected:
  assumes "pg_connect fails pid name s = (True, s')" "pid \<notin> fst ` set (srv_activity s)"
  shows "pg_close pid s' = s"
proof -
  have "filter (\<lambda>(p, _). p \<noteq> pid) (srv_activity s) = srv_activity s"
    using assms(2) by (intro filter_True) force
  then show ?thesis using assms(1) by (auto simp: pg_connect_def pg_close_def split: if_splits)
qed

lemma pg_close_commute: "pg_close p (pg_close q s) = pg_close q (pg_close p s)"
  by (simp add: pg_close_def conj_commute case_prod_unfold)

lemma CloseDB_opened:
  assumes "OpenDB ParseConfig fails1 fails2 fails3 pid admin url s = (err, h, s')"
    and "pid \<notin> fst ` set (srv_activity s)" "admin \<notin> insert pid (fst ` set (srv_activity s))"
  shows "case h of None \<Rightarrow> err \<noteq> None \<and> s' = s
    | Some d \<Rightarrow> srv_activity (CloseDB d s') = srv_activity s \<and> (err = None \<longrightarrow> srv_allow s' (db_name d))"
proof -
  obtain ok1 s1 where c1: "pg_connect fails1 pid (the (ParseConfig url)) s = (ok1, s1)" by force
  obtain ok2 s2 where c2: "pg_connect fails2 admin ''postgres'' s1 = (ok2, s2)" by force
  have n1: "\<not> ok1 \<Longrightarrow> s1 = s" and n2: "\<not> ok2 \<Longrightarrow> s2 = s1"
    using c1 c2 by (auto simp: pg_connect_def split: if_splits)
  have "ok1 \<Longrightarrow> srv_activity s1 = (pid, the (ParseConfig url)) # srv_activity s"
    using c1 by (auto simp: pg_connect_def split: if_splits)
  then have e1: "ok1 \<Longrightarrow> pg_close pid s1 = s" and e2: "ok1 \<Longrightarrow> ok2 \<Longrightarrow> pg_close admin s2 = s1"
    using pg_close_connected c1 c2 assms(2,3) by auto
  have e3: "ok1 \<Longrightarrow> ok2 \<Longrightarrow> srv_activity (pg_close admin (pg_close pid s2)) = srv_activity s"
    using e1 e2 pg_close_commute by metis
  have e4: "srv_activity (pg_close admin (pg_close pid (allow_connections n b s2))) = srv_activity (pg_close admin (pg_close pid s2))" for n b
    by (simp add: pg_close_def allow_connections_def)
  show ?thesis
    using assms(1) c1 c2 n1 n2 e1 e3 e4
    by (auto simp: OpenDB_def CloseDB_def Restore_def admin_exec_def Let_def allow_connections_def split: option.splits bool.splits if_splits prod.splits)
qed

text \<open>
  An outage that was never restored cannot be undone by opening the database again: the first
  connection is to the database itself, which refuses it, so \<open>Restore\<close> is not reached.
\<close>

lemma outage_blocks_reopening:
  assumes "Outage fails1 fails2 d s = (True, s1)" "ParseConfig url = Some (db_name d)"
  shows "OpenDB ParseConfig f1 f2 f3 pid admin url s1 = (Some ConnectFailed, None, s1)"
proof -
  have "\<not> srv_allow s1 (db_name d)"
    using assms(1) by (auto simp: Outage_def admin_exec_def allow_connections_def terminate_backends_def split: if_splits)
  then show ?thesis by (simp add: OpenDB_def pg_connect_def assms(2))
qed

lemma outage_blocks_reopening_example:
  "OpenDB Some False False False 11 12 ''go'' (snd (Outage False False \<lparr>db_pid = 9, db_admin = 10, db_name = ''go''\<rparr> two_clients)) =
     (Some ConnectFailed, None, snd (Outage False False \<lparr>db_pid = 9, db_admin = 10, db_name = ''go''\<rparr> two_clients))"
  by (rule outage_blocks_reopening [where d = "\<lparr>db_pid = 9, db_admin = 10, db_name = ''go''\<rparr>" and s = two_clients
        and ?fails1.0 = False and ?fails2.0 = False]) (simp_all add: Outage_def admin_exec_def)

text \<open>
  Each case starts from the same rows: after a reset, what the tables held before is gone.
  Two databases of the same tables that agree on the migration history are equal after it,
  whatever earlier cases left in them.
\<close>

theorem reset_forgets:
  assumes "map fst s = map fst s'" "\<And>t. t \<in> set migrationHistory \<Longrightarrow> map_of s t = map_of s' t"
    and "distinct (map fst s)"
    and "Reset True (Some sql) True apply_seed s = (None, r)" "Reset True (Some sql) True apply_seed s' = (None, r')"
  shows "r = r'"
proof -
  have "truncate_tables (db_tables s) s = truncate_tables (db_tables s') s'"
  proof (rule nth_equalityI)
    show l: "length (truncate_tables (db_tables s) s) = length (truncate_tables (db_tables s') s')"
      using arg_cong [OF assms(1), of length] by (simp add: truncate_tables_def)
    fix i assume "i < length (truncate_tables (db_tables s) s)"
    then have i: "i < length s" "i < length s'" using l by (simp_all add: truncate_tables_def)
    obtain t x y where t: "s ! i = (t, x)" "s' ! i = (t, y)"
      using arg_cong [OF assms(1), of "\<lambda>l. l ! i"] i by (cases "s ! i"; cases "s' ! i") simp
    have m: "(t, x) \<in> set s" "(t, y) \<in> set s'" using t i nth_mem by metis+
    have "x = y" if "t \<in> set migrationHistory"
      using map_of_is_SomeI [OF assms(3) m(1)] map_of_is_SomeI [OF assms(3) [unfolded assms(1)] m(2)] assms(2) [OF that] by simp
    moreover have "t \<in> set (db_tables s) \<longleftrightarrow> t \<notin> set migrationHistory" using m(1) by (force simp: db_tables_def)
    moreover have "db_tables s = db_tables s'" using assms(1) by (simp add: db_tables_def)
    ultimately show "truncate_tables (db_tables s) s ! i = truncate_tables (db_tables s') s' ! i"
      using i t by (auto simp: truncate_tables_def)
  qed
  then show ?thesis using assms(4,5) by (auto simp: Reset_def Let_def split: if_splits option.splits)
qed

theorem reset_forgets_witness:
  "Reset True (Some []) True (\<lambda>_. Some) [(''users'', [1 :: nat])] = Reset True (Some []) True (\<lambda>_. Some) [(''users'', [2, 3])]"
proof -
  have e: "Reset True (Some []) True (\<lambda>_. Some) [(''users'', rows :: nat list)] = (None, [(''users'', [])])" for rows
    by (simp add: Reset_def db_tables_def migrationHistory_def truncate_tables_def Let_def)
  have "[(''users'', [] :: nat list)] = [(''users'', [])]"
    by (rule reset_forgets [OF _ _ _ e [of "[1]"] e [of "[2, 3]"]]) (auto simp: migrationHistory_def)
  then show ?thesis by (simp add: e)
qed

section \<open>Integers read as floating-point numbers\<close>

lemma bit_length_le: "n < 2 ^ m \<Longrightarrow> bit_length n \<le> m"
proof (induction n arbitrary: m rule: bit_length.induct)
  case (1 n)
  show ?case
  proof (cases "n = 0")
    case True
    then show ?thesis by (simp add: bit_length.simps)
  next
    case False
    then obtain k where k: "m = Suc k" using 1(2) by (cases m) auto
    then have "n div 2 < 2 ^ k" using 1(2) by simp
    from 1(1) [OF False this] show ?thesis using False k by (simp add: bit_length.simps [of n])
  qed
qed

lemma bit_length_eq: "2 ^ m \<le> n \<Longrightarrow> n < 2 ^ Suc m \<Longrightarrow> bit_length n = Suc m"
proof (induction m arbitrary: n)
  case 0
  then have "n = 1" by simp
  then show ?case by (simp add: bit_length.simps)
next
  case (Suc m)
  then have "2 ^ m \<le> n div 2" "n div 2 < 2 ^ Suc m" by auto
  from Suc.IH [OF this] have "bit_length (n div 2) = Suc m" .
  moreover have "n \<noteq> 0" using Suc.prems(1) zero_less_power [of "2 :: nat" "Suc m"] by linarith
  ultimately show ?case by (subst bit_length.simps) simp
qed

lemma bit_length_1: "bit_length 1 = 1" by (simp add: bit_length.simps)

lemma round_half_even_int [simp]: "round_half_even (of_int i) = i"
  by (simp add: round_half_even_def Let_def)

lemma round_positive_small:
  assumes "0 < v" "v < 2 ^ 53"
  shows "round_positive (of_int v) = of_int v"
proof -
  have "bit_length (nat v) \<le> 53" using assms by (intro bit_length_le) (simp add: nat_less_iff)
  then have e: "exponent53 (of_int v) \<le> 0"
    using bit_length_1 by (simp add: exponent53_def Let_def quotient_of_int)
  define k where "k = nat (- exponent53 (of_int v))"
  have p: "pow2 (exponent53 (of_int v)) = 1 / 2 ^ k" using e by (auto simp: pow2_def k_def)
  have q: "(of_int v :: rat) / (1 / 2 ^ k) = of_int (v * 2 ^ k)" by simp
  show ?thesis unfolding round_positive_def p q round_half_even_int by simp
qed

lemma round_positive_2_53: "round_positive (2 ^ 53) = 2 ^ 53"
proof -
  have "bit_length (2 ^ 53) = 54" using bit_length_eq [of 53 "2 ^ 53"] by simp
  then have "exponent53 (2 ^ 53) = 1"
    using bit_length_1 quotient_of_int [of "2 ^ 53"] by (simp add: exponent53_def Let_def pow2_def)
  then show ?thesis using round_half_even_int [of "2 ^ 52"] by (simp add: round_positive_def pow2_def)
qed

text \<open>
  Integer assertions are exact up to \<open>2 ^ 53\<close>: an integer column within it reaches the
  comparison as itself, so two different ones are told apart.
\<close>

theorem query_integers_exact:
  assumes "\<bar>v\<bar> \<le> 2 ^ 53"
  shows "row_value (PInt64 v) = Some (RNum (of_int v))"
proof -
  have "round_positive (of_int n) = of_int n" if "0 < n" "n \<le> 2 ^ 53" for n
    using round_positive_small [of n] round_positive_2_53 that by (cases "n = 2 ^ 53") auto
  from this [of v] this [of "- v"] show ?thesis using assms by (simp add: float64_def abs_le_iff)
qed

theorem query_integers_exact_witness: "row_value (PInt64 2592000) = Some (RNum 2592000)"
  using query_integers_exact [of 2592000] by simp

text \<open>Beyond it they are not: an assertion on the one passes on the other.\<close>

lemma query_integers_collide: "row_value (PInt64 (2 ^ 53 + 1)) = row_value (PInt64 (2 ^ 53))"
proof -
  have "bit_length (2 ^ 53 + 1) = 54" using bit_length_eq [of 53 "2 ^ 53 + 1"] by simp
  then have "exponent53 (2 ^ 53 + 1) = 1"
    using bit_length_1 quotient_of_int [of "2 ^ 53 + 1"] by (simp add: exponent53_def Let_def pow2_def)
  moreover have "round_half_even ((2 ^ 53 + 1) / 2) = 2 ^ 52"
  proof -
    have "\<lfloor>(2 ^ 53 + 1) / 2 :: rat\<rfloor> = 2 ^ 52" by (simp add: floor_eq_iff)
    then show ?thesis by (simp add: round_half_even_def Let_def)
  qed
  ultimately have "round_positive (2 ^ 53 + 1) = 2 ^ 53" by (simp add: round_positive_def pow2_def)
  then show ?thesis using round_positive_2_53 by (simp add: float64_def)
qed

section \<open>Parity of snapshots\<close>

lemma float64_neg: "float64 (- x) = - float64 x"
  by (simp add: float64_def)

lemma trunc_neg: "trunc (- x) = - trunc x"
  by (cases "x = 0") (auto simp: trunc_def ceiling_def)

lemma close_sym:
  assumes "- StateTolerance \<le> offset_difference a b" "offset_difference a b \<le> StateTolerance"
  shows "- StateTolerance \<le> offset_difference b a \<and> offset_difference b a \<le> StateTolerance"
proof -
  let ?x = "float64 (float64 (a - b) * 1000000000)"
  have "float64 (b - a) = - float64 (a - b)" using float64_neg [of "a - b"] by simp
  then have "offset_difference b a = Duration_of (- ?x)"
    using float64_neg [of "float64 (a - b) * 1000000000"] by (simp add: offset_difference_def)
  moreover have "is_int64 (trunc ?x) \<and> Duration_of ?x = trunc ?x"
    using assms by (auto simp: offset_difference_def Duration_of_def StateTolerance_def split: if_splits)
  ultimately show ?thesis
    using assms by (auto simp: offset_difference_def Duration_of_def trunc_neg is_int64_def StateTolerance_def)
qed

lemma cells_equal_sym: "cells_equal c d \<Longrightarrow> cells_equal d c"
  by (auto simp: cells_equal_def close_sym split: option.splits)

lemma row_equal_sym:
  assumes "row_equal r s" "distinct (map fst r)" "distinct (map fst s)"
  shows "row_equal s r"
proof -
  have l: "length r = length s" and all: "\<And>n c. (n, c) \<in> set r \<Longrightarrow> \<exists>d. map_of s n = Some d \<and> cells_equal c d"
    using assms(1) by (fastforce simp: row_equal_def list_all_iff split: option.splits)+
  have "fst ` set r \<subseteq> fst ` set s" using all by (force dest: map_of_SomeD)
  moreover have "card (fst ` set r) = card (fst ` set s)"
    using l distinct_card [OF assms(2)] distinct_card [OF assms(3)] by simp
  ultimately have k: "fst ` set s = fst ` set r" using card_subset_eq by (metis finite_imageI finite_set)
  have "case map_of r n of None \<Rightarrow> False | Some c \<Rightarrow> cells_equal d c" if d: "(n, d) \<in> set s" for n d
  proof -
    obtain c where c: "(n, c) \<in> set r" using k d by force
    then show ?thesis
      using all [OF c] map_of_is_SomeI [OF assms(3) d] map_of_is_SomeI [OF assms(2) c] cells_equal_sym by auto
  qed
  then show ?thesis using l by (auto simp: row_equal_def list_all_iff)
qed

text \<open>What two snapshots that agree have in common.\<close>

definition snapshots_agree :: "Snapshot \<Rightarrow> Snapshot \<Rightarrow> bool" where
  "snapshots_agree a b \<longleftrightarrow> (\<forall>t. list_all2 row_equal (rows_of a t) (rows_of b t))"

lemma table_parity_Nil: "table_parity a b t = [] \<longleftrightarrow> list_all2 row_equal (rows_of a t) (rows_of b t)"
proof -
  let ?f = "\<lambda>(i, x, y). if row_equal x y then [] else [RowDiffers t i x y]"
  have "(\<forall>p \<in> set (enumerate n (zip xs ys)). ?f p = []) \<longleftrightarrow> list_all2 row_equal xs ys" if "length xs = length ys" for n xs ys
    using that by (induction xs ys arbitrary: n rule: list_induct2) simp_all
  then show ?thesis by (auto simp: table_parity_def Let_def dest: list_all2_lengthD)
qed

lemma SnapshotParity_Nil: "SnapshotParity a b = [] \<longleftrightarrow> snapshots_agree a b"
proof -
  have "SnapshotParity a b = [] \<longleftrightarrow> (\<forall>t \<in> fst ` set a \<union> fst ` set b. table_parity a b t = [])"
    by (auto simp: SnapshotParity_def)
  moreover have "table_parity a b t = []" if "t \<notin> fst ` set a \<union> fst ` set b" for t
    using that map_of_eq_None_iff [of a t] map_of_eq_None_iff [of b t] by (auto simp: table_parity_Nil rows_of_def)
  ultimately show ?thesis unfolding snapshots_agree_def table_parity_Nil by blast
qed

section \<open>What two seconds are\<close>

lemma pow2_pos [simp]: "0 < pow2 e" "pow2 e \<noteq> 0"
  by (simp_all add: pow2_def)

lemma pow2_Suc: "pow2 (e + 1) = 2 * pow2 e"
proof -
  consider "0 \<le> e" | "e = -1" | "e < -1" by linarith
  then show ?thesis
  proof cases
    case 1
    then have "nat (e + 1) = Suc (nat e)" by simp
    then show ?thesis using 1 by (simp add: pow2_def)
  next
    case 3
    then have "nat (- e) = Suc (nat (- (e + 1)))" by simp
    then show ?thesis using 3 by (simp add: pow2_def)
  qed (simp add: pow2_def)
qed

lemma pow2_diff: "pow2 (int a - int b) = 2 ^ a / 2 ^ b"
proof (cases "b \<le> a")
  case True
  then have "nat (int a - int b) = a - b" by simp
  then show ?thesis using True by (simp add: pow2_def power_diff)
next
  case False
  then have "nat (- (int a - int b)) = b - a" "\<not> 0 \<le> int a - int b" by simp_all
  then show ?thesis using False by (simp add: pow2_def power_diff)
qed

lemma bit_length_bounds: "0 < n \<Longrightarrow> 2 ^ bit_length n \<le> 2 * n \<and> n < 2 ^ bit_length n"
proof (induction n rule: bit_length.induct)
  case (1 n)
  show ?case
  proof (cases "n div 2 = 0")
    case True
    then have "n = 1" using "1.prems" by linarith
    then show ?thesis by (simp add: bit_length_1 [unfolded One_nat_def])
  next
    case False
    then have "2 ^ bit_length (n div 2) \<le> 2 * (n div 2) \<and> n div 2 < 2 ^ bit_length (n div 2)"
      using 1 by simp
    then show ?thesis using "1.prems" by (simp add: bit_length.simps [of n]) linarith
  qed
qed

text \<open>The significand has 53 bits.\<close>

lemma exponent53_bounds:
  assumes "0 < x"
  shows "2 ^ 52 \<le> x / pow2 (exponent53 x)" "x / pow2 (exponent53 x) < 2 ^ 53"
proof -
  obtain a b where q: "quotient_of x = (a, b)" by force
  have b: "0 < b" by (rule quotient_of_denom_pos [OF q])
  have x: "x = of_int a / of_int b" by (rule quotient_of_div [OF q])
  then have a: "0 < a" using assms b by (simp add: zero_less_divide_iff)
  define la lb where "la = bit_length (nat a)" and "lb = bit_length (nat b)"
  have A: "2 ^ la \<le> 2 * (of_int a :: rat)" "of_int a < (2 ^ la :: rat)"
    and B: "2 ^ lb \<le> 2 * (of_int b :: rat)" "of_int b < (2 ^ lb :: rat)"
  proof -
    have *: "2 ^ bit_length (nat z) \<le> 2 * (of_int z :: rat)" "of_int z < (2 ^ bit_length (nat z) :: rat)" if "0 < z" for z
    proof -
      have "2 ^ bit_length (nat z) \<le> 2 * nat z" "nat z < 2 ^ bit_length (nat z)" using bit_length_bounds [of "nat z"] that by simp_all
      then have "of_nat (2 ^ bit_length (nat z)) \<le> (of_nat (2 * nat z) :: rat)" "of_nat (nat z) < (of_nat (2 ^ bit_length (nat z)) :: rat)"
        by (simp_all only: of_nat_le_iff of_nat_less_iff)
      then show "2 ^ bit_length (nat z) \<le> 2 * (of_int z :: rat)" "of_int z < (2 ^ bit_length (nat z) :: rat)"
        using that by simp_all
    qed
    show "2 ^ la \<le> 2 * (of_int a :: rat)" "of_int a < (2 ^ la :: rat)" "2 ^ lb \<le> 2 * (of_int b :: rat)" "of_int b < (2 ^ lb :: rat)"
      unfolding la_def lb_def using * [OF a] * [OF b] by blast+
  qed
  define e where "e = int la - int (lb + 53)"
  have p: "pow2 e = 2 ^ la / 2 ^ (lb + 53)" unfolding e_def by (rule pow2_diff)
  have r: "x / pow2 e = (of_int a / 2 ^ la) * (2 ^ lb / of_int b) * 2 ^ 53"
    by (simp add: p x power_add field_simps)
  have u: "1 / 2 \<le> (of_int a / 2 ^ la :: rat)" "(of_int a / 2 ^ la :: rat) < 1" using A by (simp_all add: field_simps)
  have v: "1 < (2 ^ lb / of_int b :: rat)" "(2 ^ lb / of_int b :: rat) \<le> 2" using B b by (simp_all add: field_simps)
  have lo: "1 / 2 \<le> (of_int a / 2 ^ la) * (2 ^ lb / of_int b :: rat)"
    using mult_mono [OF u(1) less_imp_le [OF v(1)]] u by simp
  have hi: "(of_int a / 2 ^ la) * (2 ^ lb / of_int b :: rat) < 2"
    using mult_strict_right_mono [OF u(2), of "2 ^ lb / of_int b :: rat"] v by linarith
  have z: "2 ^ 52 \<le> x / pow2 e" "x / pow2 e < 2 ^ 54"
    using mult_right_mono [OF lo, of "2 ^ 53"] mult_strict_right_mono [OF hi, of "2 ^ 53"] unfolding r by simp_all
  have half: "x / pow2 (e + 1) = x / pow2 e / 2" by (simp add: pow2_Suc)
  have e53: "exponent53 x = (if 2 ^ 53 \<le> x / pow2 e then e + 1 else e)"
    by (simp add: exponent53_def q Let_def e_def la_def lb_def diff_diff_eq)
  show "2 ^ 52 \<le> x / pow2 (exponent53 x)" "x / pow2 (exponent53 x) < 2 ^ 53"
    using z half by (auto simp: e53 split: if_splits)
qed

lemma round_half_even_near: "\<bar>of_int (round_half_even y) - y\<bar> \<le> 1 / 2"
  using floor_correct [of y] by (auto simp: round_half_even_def Let_def abs_le_iff)

text \<open>Rounding to a \<open>float64\<close> is exact up to one part in \<open>2 ^ 53\<close>.\<close>

lemma float64_near: "\<bar>float64 x - x\<bar> \<le> \<bar>x\<bar> / 2 ^ 53"
proof -
  have pos: "\<bar>round_positive x - x\<bar> \<le> x / 2 ^ 53" if "0 < x" for x
  proof -
    let ?p = "pow2 (exponent53 x)"
    have "round_positive x - x = (of_int (round_half_even (x / ?p)) - x / ?p) * ?p"
      by (simp add: round_positive_def algebra_simps)
    then have "\<bar>round_positive x - x\<bar> = \<bar>of_int (round_half_even (x / ?p)) - x / ?p\<bar> * ?p"
      by (simp only: abs_mult abs_of_pos [OF pow2_pos(1)])
    also have "\<dots> \<le> 1 / 2 * ?p" using round_half_even_near [of "x / ?p"] less_imp_le [OF pow2_pos(1)] by (rule mult_right_mono)
    also have "\<dots> \<le> x / 2 ^ 53" using exponent53_bounds(1) [OF that] by (simp add: field_simps)
    finally show ?thesis .
  qed
  consider "x = 0" | "0 < x" | "x < 0" by linarith
  then show ?thesis
  proof cases
    case 3
    then show ?thesis using pos [of "- x"] by (simp add: float64_def abs_minus_commute)
  qed (use pos [of x] in \<open>simp_all add: float64_def\<close>)
qed

lemma trunc_within: "\<bar>trunc y\<bar> \<le> n \<longleftrightarrow> \<bar>y\<bar> < of_int n + 1"
proof (cases "0 \<le> y")
  case True
  then show ?thesis by (simp add: trunc_def) linarith
next
  case False
  then show ?thesis by (simp add: trunc_def) linarith
qed

text \<open>
  The comparison of two offsets takes them for equal when they are two seconds apart or less, and
  only when they are less than two seconds and two nanoseconds apart: the conversion to a duration
  truncates.
\<close>

lemma offset_difference_within:
  "\<bar>a - b\<bar> \<le> 2 \<Longrightarrow> - StateTolerance \<le> offset_difference a b \<and> offset_difference a b \<le> StateTolerance"
  "- StateTolerance \<le> offset_difference a b \<Longrightarrow> offset_difference a b \<le> StateTolerance \<Longrightarrow> \<bar>a - b\<bar> < 2 + 2 / 10 ^ 9"
proof -
  define d x y where "d = a - b" and "x = float64 d" and "y = float64 (x * 10 ^ 9)"
  have o: "offset_difference a b = Duration_of y" by (simp add: offset_difference_def y_def x_def d_def)
  have near: "\<bar>float64 z\<bar> \<le> \<bar>z\<bar> + \<bar>z\<bar> / 2 ^ 53" "\<bar>z\<bar> \<le> \<bar>float64 z\<bar> + \<bar>z\<bar> / 2 ^ 53" for z
    using float64_near [of z] abs_triangle_ineq2 [of "float64 z" z] abs_triangle_ineq2 [of z "float64 z"]
    by (simp_all add: abs_minus_commute)
  have x: "\<bar>x\<bar> \<le> \<bar>d\<bar> + \<bar>d\<bar> / 2 ^ 53" "\<bar>d\<bar> \<le> \<bar>x\<bar> + \<bar>d\<bar> / 2 ^ 53" unfolding x_def by (rule near)+
  have y: "\<bar>y\<bar> \<le> \<bar>x\<bar> * 10 ^ 9 + \<bar>x\<bar> * 10 ^ 9 / 2 ^ 53" "\<bar>x\<bar> * 10 ^ 9 \<le> \<bar>y\<bar> + \<bar>x\<bar> * 10 ^ 9 / 2 ^ 53"
    using near [of "x * 10 ^ 9"] by (simp_all add: y_def abs_mult)
  have "- StateTolerance \<le> Duration_of y \<and> Duration_of y \<le> StateTolerance \<longleftrightarrow> \<bar>trunc y\<bar> \<le> StateTolerance"
    by (auto simp: Duration_of_def is_int64_def StateTolerance_def abs_le_iff)
  then have t: "- StateTolerance \<le> Duration_of y \<and> Duration_of y \<le> StateTolerance \<longleftrightarrow> \<bar>y\<bar> < 2 * 10 ^ 9 + 1"
    unfolding trunc_within by (simp add: StateTolerance_def)
  show "- StateTolerance \<le> offset_difference a b \<and> offset_difference a b \<le> StateTolerance" if "\<bar>a - b\<bar> \<le> 2"
  proof -
    have "\<bar>y\<bar> < 2 * 10 ^ 9 + 1" using that x(1) y(1) unfolding d_def [symmetric] by simp
    then show ?thesis unfolding o t .
  qed
  show "\<bar>a - b\<bar> < 2 + 2 / 10 ^ 9" if "- StateTolerance \<le> offset_difference a b" "offset_difference a b \<le> StateTolerance"
  proof -
    have "\<bar>y\<bar> < 2 * 10 ^ 9 + 1" using that t unfolding o by blast
    then show ?thesis using x(2) y(2) unfolding d_def [symmetric] by simp
  qed
qed

text \<open>
  Cells within a tolerance: two timestamps at most so many seconds apart, the same text, or NULL on
  both sides. Rows: as many columns, and every column of the one in the other with a cell
  within. Snapshots: of every table as many rows, paired in their order.
\<close>

definition cells_within :: "rat \<Rightarrow> SnapshotCell \<Rightarrow> SnapshotCell \<Rightarrow> bool" where
  "cells_within tol c d \<longleftrightarrow>
     (case (cell_Offset c, cell_Offset d) of
        (Some a, Some b) \<Rightarrow> \<bar>a - b\<bar> \<le> tol
      | _ \<Rightarrow> (\<exists>s. cell_Text c = Some s \<and> cell_Text d = Some s) \<or>
            c = \<lparr>cell_Text = None, cell_Offset = None\<rparr> \<and> d = \<lparr>cell_Text = None, cell_Offset = None\<rparr>)"

definition rows_within :: "rat \<Rightarrow> SnapshotRow \<Rightarrow> SnapshotRow \<Rightarrow> bool" where
  "rows_within tol r s \<longleftrightarrow> length r = length s \<and>
     (\<forall>(n, c) \<in> set r. \<exists>d. map_of s n = Some d \<and> cells_within tol c d)"

definition snapshots_within :: "rat \<Rightarrow> Snapshot \<Rightarrow> Snapshot \<Rightarrow> bool" where
  "snapshots_within tol a b \<longleftrightarrow> (\<forall>t. list_all2 (rows_within tol) (rows_of a t) (rows_of b t))"

lemma cells_equal_within:
  "cells_within 2 c d \<Longrightarrow> cells_equal c d"
  "cells_equal c d \<Longrightarrow> cells_within (2 + 2 / 10 ^ 9) c d"
proof -
  show "cells_equal c d" if "cells_within 2 c d"
    using that offset_difference_within(1)
    by (auto simp: cells_within_def cells_equal_def split: option.splits)
  show "cells_within (2 + 2 / 10 ^ 9) c d" if "cells_equal c d"
    using that offset_difference_within(2)
    by (cases c; cases d) (auto simp: cells_within_def cells_equal_def intro: less_imp_le split: option.splits)
qed

lemma row_equal_within:
  "rows_within 2 r s \<Longrightarrow> row_equal r s"
  "row_equal r s \<Longrightarrow> rows_within (2 + 2 / 10 ^ 9) r s"
proof -
  show "row_equal r s" if "rows_within 2 r s"
    using that cells_equal_within(1) by (fastforce simp: rows_within_def row_equal_def list_all_iff)
  show "rows_within (2 + 2 / 10 ^ 9) r s" if "row_equal r s"
    using that cells_equal_within(2) unfolding rows_within_def row_equal_def list_all_iff
    by (fastforce split: option.splits)
qed

lemma snapshots_agree_within:
  "snapshots_within 2 a b \<Longrightarrow> snapshots_agree a b"
  "snapshots_agree a b \<Longrightarrow> snapshots_within (2 + 2 / 10 ^ 9) a b"
proof -
  show "snapshots_agree a b" if "snapshots_within 2 a b"
    using that row_equal_within(1) unfolding snapshots_within_def snapshots_agree_def by (metis list_all2_mono)
  show "snapshots_within (2 + 2 / 10 ^ 9) a b" if "snapshots_agree a b"
    using that row_equal_within(2) unfolding snapshots_within_def snapshots_agree_def by (metis list_all2_mono)
qed

text \<open>
  C40. An empty report means what it says: there is none when every table holds as many rows in both
  snapshots and they pair up, column by column, with equal text and timestamps at most two seconds
  apart; and when there is none they do, the timestamps less than two nanoseconds further
  apart, which is below what the database records.
\<close>

theorem snapshot_parity_exact:
  "(snapshots_within 2 a b \<longrightarrow> SnapshotParity a b = []) \<and>
   (SnapshotParity a b = [] \<longrightarrow> snapshots_within (2 + 2 / 10 ^ 9) a b)"
  unfolding SnapshotParity_Nil using snapshots_agree_within by blast

text \<open>The same session, written a second and a half apart, and another one.\<close>

definition session_state :: "string \<Rightarrow> rat \<Rightarrow> Snapshot" where
  "session_state user offset = [(''sessions'', [[(''user_id'', \<lparr>cell_Text = Some user, cell_Offset = None\<rparr>),
     (''expires_at'', \<lparr>cell_Text = None, cell_Offset = Some offset\<rparr>), (''user_agent'', \<lparr>cell_Text = None, cell_Offset = None\<rparr>)]])]"

lemma session_state_within:
  "snapshots_within tol (session_state u a) (session_state v b) \<longleftrightarrow> u = v \<and> \<bar>a - b\<bar> \<le> tol"
proof -
  have "snapshots_within tol (session_state u a) (session_state v b) \<longleftrightarrow>
      list_all2 (rows_within tol) (rows_of (session_state u a) ''sessions'') (rows_of (session_state v b) ''sessions'')"
    unfolding snapshots_within_def by (auto simp: rows_of_def session_state_def)
  then show ?thesis by (auto simp: rows_of_def session_state_def rows_within_def cells_within_def)
qed

theorem snapshot_parity_exact_witness:
  "SnapshotParity (session_state ''u1'' 100) (session_state ''u1'' (203 / 2)) = [] \<and>
   SnapshotParity (session_state ''u1'' 100) (session_state ''u2'' 100) \<noteq> [] \<and>
   SnapshotParity (session_state ''u1'' 100) (session_state ''u1'' (205 / 2)) \<noteq> []"
  using snapshot_parity_exact [of "session_state ''u1'' 100" "session_state ''u1'' (203 / 2)"]
    snapshot_parity_exact [of "session_state ''u1'' 100" "session_state ''u2'' 100"]
    snapshot_parity_exact [of "session_state ''u1'' 100" "session_state ''u1'' (205 / 2)"]
  by (auto simp: session_state_within)

lemma snapshots_agree_sym:
  assumes "snapshots_agree a b" "\<And>t r. r \<in> set (rows_of a t) \<union> set (rows_of b t) \<Longrightarrow> distinct (map fst r)"
  shows "snapshots_agree b a"
  unfolding snapshots_agree_def
proof
  fix t
  have "list_all2 row_equal (rows_of a t) (rows_of b t)" using assms(1) by (simp add: snapshots_agree_def)
  then show "list_all2 row_equal (rows_of b t) (rows_of a t)"
    using assms(2) [of _ t] row_equal_sym by (fastforce simp: list_all2_conv_all_nth)
qed

section \<open>Taking a snapshot\<close>

text \<open>What \<open>sort.Slice\<close> promises: the same rows, ascending; the order of equal keys is open.\<close>

definition sorts_by :: "('a \<Rightarrow> string) \<Rightarrow> ('a list \<Rightarrow> 'a list) \<Rightarrow> bool" where
  "sorts_by key sortSlice \<longleftrightarrow> (\<forall>xs. mset (sortSlice xs) = mset xs \<and> sorted (map key (sortSlice xs)))"

lemma sorts_by_distinct:
  assumes "sorts_by key f" "mset xs = mset ys" "distinct (map key xs)"
  shows "f xs = f ys"
proof -
  have m: "mset (f xs) = mset (f ys)" "sorted (map key (f xs))" "sorted (map key (f ys))"
    using assms(1,2) by (simp_all add: sorts_by_def)
  have "mset (map key (f xs)) = mset (map key xs)" using assms(1) by (simp add: sorts_by_def)
  then have d: "distinct (map key (f xs))" using assms(3) mset_eq_imp_distinct_iff by blast
  have s: "set (f xs) = set (f ys)" using m(1) mset_eq_setD by blast
  have "map key (f xs) = map key (f ys)"
    using m by (metis properties_for_sort mset_map)
  moreover have "inj_on key (set (f xs))" using d by (simp add: distinct_map)
  ultimately show ?thesis using s by (metis map_inj_on Un_absorb)
qed

text \<open>The answers of a server whose tables hold the same rows in another order.\<close>

definition same_rows :: "(SnapshotRow \<Rightarrow> string) \<Rightarrow> (string \<Rightarrow> string \<Rightarrow> bool) \<Rightarrow> (string \<Rightarrow> string) \<Rightarrow> catalogue \<Rightarrow> catalogue \<Rightarrow> bool" where
  "same_rows key masked Sanitize cat cat' \<longleftrightarrow> cat_tables cat = cat_tables cat' \<and> cat_columns cat = cat_columns cat' \<and>
     (\<forall>q. rel_option (\<lambda>rows rows'. mset rows = mset rows') (cat_select cat q) (cat_select cat' q)) \<and>
     (\<forall>t cs rows. cat_columns cat t = Some cs \<longrightarrow>
        (let kept = filter (\<lambda>c. \<not> masked t (fst c)) cs in
         cat_select cat (snapshot_query Sanitize t kept) = Some rows \<longrightarrow>
         distinct (map (\<lambda>vals. key (fold (\<lambda>(n, v). AList.update n (cell_of v)) (zip (map fst kept) vals) [])) rows)))"

lemma snapshot_tables_order:
  assumes "sorts_by key sortSlice" "same_rows key masked Sanitize cat cat'"
  shows "snapshot_tables Sanitize sortSlice cat masked snap ts = snapshot_tables Sanitize sortSlice cat' masked snap ts"
proof (induction ts arbitrary: snap)
  case (Cons t ts)
  show ?case
  proof (cases "cat_columns cat t")
    case None
    then show ?thesis using assms(2) by (simp add: same_rows_def)
  next
    case (Some cs)
    let ?kept = "filter (\<lambda>c. \<not> masked t (fst c)) cs"
    let ?q = "snapshot_query Sanitize t ?kept"
      and ?row = "\<lambda>vals. fold (\<lambda>(n, v). AList.update n (cell_of v)) (zip (map fst ?kept) vals) []"
    have cs: "cat_columns cat' t = Some cs" using assms(2) Some by (simp add: same_rows_def)
    have rel: "rel_option (\<lambda>rows rows'. mset rows = mset rows') (cat_select cat ?q) (cat_select cat' ?q)"
      using assms(2) unfolding same_rows_def by blast
    show ?thesis
    proof (cases "cat_select cat ?q")
      case None
      then have "cat_select cat' ?q = None" using rel by simp
      then show ?thesis using None Some cs Cons.IH by (simp add: Let_def)
    next
      case (Some rows)
      obtain rows' where r: "cat_select cat' ?q = Some rows'" "mset rows = mset rows'"
        using rel Some by (cases "cat_select cat' ?q") auto
      have "distinct (map key (map ?row rows))"
        using assms(2) \<open>cat_columns cat t = Some cs\<close> Some by (auto simp: same_rows_def Let_def comp_def)
      then have "sortSlice (map ?row rows) = sortSlice (map ?row rows')"
        using r(2) by (intro sorts_by_distinct [OF assms(1)]) simp_all
      moreover have "rows = [] \<longleftrightarrow> rows' = []" using r(2) by (metis mset_zero_iff)
      ultimately show ?thesis using Some r(1) cs \<open>cat_columns cat t = Some cs\<close> Cons.IH by (simp add: Let_def)
    qed
  qed
qed simp

text \<open>
  A snapshot does not depend on the order rows lie in: as long as the text columns tell the
  rows of a table apart, two servers that hold the same rows give the same snapshot.
\<close>

theorem snapshot_order_independent:
  assumes "sorts_by (row_key Quote fmt1) sortSlice" "same_rows (row_key Quote fmt1) masked Sanitize cat cat'"
  shows "take_Snapshot Sanitize sortSlice cat masked = take_Snapshot Sanitize sortSlice cat' masked"
  using assms(2) snapshot_tables_order [OF assms] by (simp add: take_Snapshot_def same_rows_def split: option.split)

lemma sorts_by_sort_key: "sorts_by key (sort_key key)"
  by (simp add: sorts_by_def)

definition users_server :: "pgval list list \<Rightarrow> catalogue" where
  "users_server rows = \<lparr>cat_tables = Some [''users''], cat_columns = (\<lambda>_. Some [(''id'', ''uuid''), (''at'', ''timestamp'')]),
     cat_select = (\<lambda>_. Some rows)\<rparr>"

theorem snapshot_order_independent_witness:
  "take_Snapshot id (sort_key (row_key id (\<lambda>_. []))) (users_server [[PText ''a'', PFloat64 1], [PText ''b'', PFloat64 2]]) (\<lambda>_ _. False) =
   take_Snapshot id (sort_key (row_key id (\<lambda>_. []))) (users_server [[PText ''b'', PFloat64 2], [PText ''a'', PFloat64 1]]) (\<lambda>_ _. False)"
  by (rule snapshot_order_independent [OF sorts_by_sort_key])
    (simp add: same_rows_def users_server_def row_key_def sorted_row_def SnapshotCell_String_def)

text \<open>Two rows that differ in their timestamp only.\<close>

definition timed_row :: "rat \<Rightarrow> SnapshotRow" where
  "timed_row f = [(''id'', \<lparr>cell_Text = Some ''a'', cell_Offset = None\<rparr>), (''at'', \<lparr>cell_Text = None, cell_Offset = Some f\<rparr>)]"

definition timed_snapshot :: "(string \<Rightarrow> string) \<Rightarrow> (rat \<Rightarrow> string) \<Rightarrow> rat \<Rightarrow> rat \<Rightarrow> Snapshot option" where
  "timed_snapshot Quote fmt1 f g =
     take_Snapshot id (sort_key (row_key Quote fmt1)) (users_server [[PText ''a'', PFloat64 f], [PText ''a'', PFloat64 g]]) (\<lambda>_ _. False)"

lemma timed_snapshot_eq: "timed_snapshot Quote fmt1 f g = Some [(''users'', [timed_row f, timed_row g])]"
proof -
  have "row_key Quote fmt1 (timed_row f) = row_key Quote fmt1 (timed_row g)"
    by (simp add: row_key_def sorted_row_def timed_row_def SnapshotCell_String_def)
  then have "sort_key (row_key Quote fmt1) [timed_row f, timed_row g] = [timed_row f, timed_row g]" by simp
  then show ?thesis by (simp add: timed_snapshot_def take_Snapshot_def users_server_def timed_row_def)
qed

lemma offset_0_5: "offset_difference 0 5 = - 5000000000"
proof -
  have "round_positive 5 = 5" "round_positive 5000000000 = 5000000000"
    using round_positive_small [of 5] round_positive_small [of 5000000000] by simp_all
  then show ?thesis
    by (simp add: offset_difference_def float64_def Duration_of_def trunc_def is_int64_def)
qed

text \<open>
  Rows whose text columns agree need not pair up: of a table with two rows that differ only in
  their timestamps, more than the tolerance apart, two readings in different orders do not
  agree, although they read the same rows.
\<close>

theorem equal_keys_may_mispair:
  "\<exists>a b. timed_snapshot Quote fmt1 0 5 = Some a \<and> timed_snapshot Quote fmt1 5 0 = Some b \<and>
     mset (rows_of a ''users'') = mset (rows_of b ''users'') \<and> SnapshotParity a b \<noteq> []"
proof -
  have "\<not> row_equal (timed_row 0) (timed_row 5)"
    by (simp add: row_equal_def timed_row_def cells_equal_def offset_0_5 StateTolerance_def)
  then show ?thesis
    by (simp add: timed_snapshot_eq SnapshotParity_def table_parity_def rows_of_def)
qed

section \<open>Masked columns\<close>

lemma row_fold_keys:
  "fst ` set (fold (\<lambda>(n, v). AList.update n (f v)) nvs r) \<subseteq> fst ` set nvs \<union> fst ` set r"
proof (induction nvs arbitrary: r)
  case (Cons nv nvs)
  obtain n v where nv: "nv = (n, v)" by force
  show ?case using Cons [of "AList.update n (f v) r"] AList.dom_update [of n "f v" r] nv by auto
qed simp

definition unmasked :: "(string \<Rightarrow> string \<Rightarrow> bool) \<Rightarrow> Snapshot \<Rightarrow> bool" where
  "unmasked masked snap \<longleftrightarrow> (\<forall>(t, rows) \<in> set snap. \<forall>r \<in> set rows. \<forall>n \<in> fst ` set r. \<not> masked t n)"

lemma set_AList_update: "set (AList.update k v al) \<subseteq> insert (k, v) (set al)"
  by (induction al) auto

lemma unmasked_update:
  assumes "unmasked masked snap" "\<And>r n. r \<in> set rows \<Longrightarrow> n \<in> fst ` set r \<Longrightarrow> \<not> masked t n"
  shows "unmasked masked (AList.update t rows snap)"
  unfolding unmasked_def
proof (rule ballI)
  fix x assume "x \<in> set (AList.update t rows snap)"
  then consider "x = (t, rows)" | "x \<in> set snap" using set_AList_update [of t rows snap] by blast
  then show "case x of (t, rows) \<Rightarrow> \<forall>r \<in> set rows. \<forall>n \<in> fst ` set r. \<not> masked t n"
    using assms by cases (auto simp: unmasked_def)
qed

lemma snapshot_tables_unmasked:
  assumes "sorts_by key sortSlice" "unmasked masked snap"
    and "snapshot_tables Sanitize sortSlice cat masked snap ts = Some snap'"
  shows "unmasked masked snap'"
  using assms(2,3)
proof (induction ts arbitrary: snap)
  case (Cons t ts)
  obtain cs where cs: "cat_columns cat t = Some cs" using Cons.prems(2) by (auto split: option.splits)
  let ?kept = "filter (\<lambda>c. \<not> masked t (fst c)) cs"
  show ?case
  proof (cases "?kept = []")
    case True
    then show ?thesis using Cons.IH [OF Cons.prems(1)] Cons.prems(2) cs by (simp add: Let_def)
  next
    case False
    let ?row = "\<lambda>vals. fold (\<lambda>(n, v). AList.update n (cell_of v)) (zip (map fst ?kept) vals) []"
    obtain rows where q: "cat_select cat (snapshot_query Sanitize t ?kept) = Some rows"
      using Cons.prems(2) cs False by (auto simp: Let_def split: option.splits)
    let ?snap = "if rows = [] then snap else AList.update t (sortSlice (map ?row rows)) snap"
    have s: "set (sortSlice xs) = set xs" for xs using assms(1) mset_eq_setD unfolding sorts_by_def by blast
    have um: "\<not> masked t n" if r: "r \<in> set (sortSlice (map ?row rows))" "n \<in> fst ` set r" for r n
    proof -
      obtain vals where "r = ?row vals" using r(1) s by auto
      then have "n \<in> fst ` set (zip (map fst ?kept) vals)" using r(2) row_fold_keys [of cell_of "zip (map fst ?kept) vals" "[]"] by auto
      then have "n \<in> set (map fst ?kept)" by (auto dest: set_zip_leftD)
      then show ?thesis by auto
    qed
    have "unmasked masked (AList.update t (sortSlice (map ?row rows)) snap)" by (rule unmasked_update [OF Cons.prems(1) um])
    then have u: "unmasked masked ?snap" using Cons.prems(1) by presburger
    have "snapshot_tables Sanitize sortSlice cat masked ?snap ts = Some snap'" using Cons.prems(2) cs False q by (simp add: Let_def)
    then show ?thesis by (rule Cons.IH [OF u])
  qed
qed simp

text \<open>
  A permitted column is never compared: no row of a snapshot taken under the list of permitted
  differences has a column the list masks.
\<close>

theorem masked_columns_left_out:
  assumes "sorts_by (row_key Quote fmt1) sortSlice" "take_Snapshot Sanitize sortSlice cat (MasksColumn p) = Some snap"
    and "r \<in> set (rows_of snap t)" "n \<in> fst ` set r"
  shows "\<not> MasksColumn p t n"
proof -
  have "unmasked (MasksColumn p) snap"
    using assms(2) snapshot_tables_unmasked [OF assms(1), of "MasksColumn p" "[]"]
    by (auto simp: take_Snapshot_def unmasked_def split: option.splits)
  moreover have "(t, rows_of snap t) \<in> set snap"
    using assms(3) by (auto simp: rows_of_def dest: map_of_SomeD split: option.splits)
  ultimately show ?thesis using assms(3,4) unfolding unmasked_def by fastforce
qed

theorem masked_columns_left_out_witness:
  "\<exists>snap. take_Snapshot id (sort_key (row_key id (\<lambda>_. []))) (users_server [[PText ''a'']])
      (MasksColumn \<lparr>byHeader = [], byName = [], byColumn = [(''users.at'', no_difference)]\<rparr>) = Some snap \<and>
    (\<forall>r \<in> set (rows_of snap ''users''). \<forall>n \<in> fst ` set r.
      \<not> MasksColumn \<lparr>byHeader = [], byName = [], byColumn = [(''users.at'', no_difference)]\<rparr> ''users'' n)"
proof -
  let ?p = "\<lparr>byHeader = [], byName = [], byColumn = [(''users.at'', no_difference)]\<rparr>"
  have "\<exists>snap. take_Snapshot id (sort_key (row_key id (\<lambda>_. []))) (users_server [[PText ''a'']]) (MasksColumn ?p) = Some snap"
    by (simp add: take_Snapshot_def users_server_def Let_def)
  then obtain snap where s: "take_Snapshot id (sort_key (row_key id (\<lambda>_. []))) (users_server [[PText ''a'']]) (MasksColumn ?p) = Some snap"
    by blast
  from masked_columns_left_out [OF sorts_by_sort_key s] s show ?thesis by blast
qed

end
