(* ===== verification/Conf_Answer.thy ===== *)
theory Conf_Answer
  imports Conf_Db Conf_Cookie
begin

text \<open>
  How the conformance harness judges answers (\<open>contract/conformance/conformance_test.go\<close>): one
  answer against its case, against the same backend's answer to another request, and against
  the other backend's. A failed assertion is a value of \<open>report\<close>; reports come with whether the
  test goes on, since \<open>t.Fatalf\<close> and a panic end it. The parameters are those of \<open>Conf_Cookie\<close> and
  \<open>Conf_Permitted\<close>, in the record \<open>judge\<close>.
\<close>

section \<open>Decoded JSON\<close>

text \<open>
  What \<open>json.Unmarshal\<close> leaves in an \<open>any\<close>: a number is the \<open>float64\<close> nearest to its literal and
  fails beyond the range, an object keeps the last of the members of a name. Objects are
  sorted by name, so that two values are equal exactly when \<open>reflect.DeepEqual\<close> says so.
\<close>

datatype any = ANull | ABool bool | ANum rat | AText string | AList "any list" | AMap "(string \<times> any) list"

definition decimal_value :: "string \<Rightarrow> rat" where
  "decimal_value lit =
     (let (sign, s) = (case lit of c # t \<Rightarrow> if c = CHR ''-'' then (-1, t) else (1, lit) | [] \<Rightarrow> (1, []));
          whole = takeWhile is_digit s; s1 = dropWhile is_digit s;
          frac = (case s1 of c # t \<Rightarrow> if c = CHR ''.'' then takeWhile is_digit t else [] | [] \<Rightarrow> []);
          s2 = dropWhile (\<lambda>c. \<not> is_e c) s1;
          ex = (case s2 of [] \<Rightarrow> 0
                | _ # t \<Rightarrow> (case t of [] \<Rightarrow> 0
                   | c # u \<Rightarrow> if c = CHR ''-'' then - int (digits_value u)
                              else if c = CHR ''+'' then int (digits_value u) else int (digits_value t)));
          e = ex - int (length frac)
      in sign * of_nat (digits_value (whole @ frac)) * (if 0 \<le> e then 10 ^ nat e else 1 / 10 ^ nat (- e)))"

definition ParseFloat :: "string \<Rightarrow> rat option" where
  "ParseFloat lit = (let x = float64 (decimal_value lit) in if \<bar>x\<bar> < 2 ^ 1024 then Some x else None)"

definition object_of :: "(string \<times> any) list \<Rightarrow> any" where
  "object_of ms = AMap (sort_key fst (fold (\<lambda>(k, v). AList.update k v) ms []))"

fun go_any :: "json \<Rightarrow> any option" where
  "go_any JNull = Some ANull"
| "go_any (JBool b) = Some (ABool b)"
| "go_any (JNumber lit) = map_option ANum (ParseFloat lit)"
| "go_any (JString s) = Some (AText s)"
| "go_any (JArray xs) = map_option AList (those (map go_any xs))"
| "go_any (JObject ms) = map_option object_of (those (map (\<lambda>(k, v). map_option (Pair k) (go_any v)) ms))"

definition json_Unmarshal :: "string \<Rightarrow> any option" where
  "json_Unmarshal s =
     (case json_Decode s of
        Inl _ \<Rightarrow> None
      | Inr (v, rest) \<Rightarrow> if list_all json_space rest then go_any v else None)"

definition equalBodies :: "string \<Rightarrow> string \<Rightarrow> bool" where
  "equalBodies a b \<longleftrightarrow> a = b \<or>
     (case (json_Unmarshal a, json_Unmarshal b) of (Some av, Some bv) \<Rightarrow> av = bv | _ \<Rightarrow> False)"

definition normalise :: "json \<Rightarrow> any option" where
  "normalise v = json_Unmarshal (json_encode v)"

text \<open>
  The rows a query gave, through the encoder and back: a \<open>float64\<close> comes back as it was, text as
  the encoder writes it.
\<close>

fun row_any :: "rowval \<Rightarrow> any option" where
  "row_any RNull = Some ANull"
| "row_any (RBool b) = Some (ABool b)"
| "row_any (RNum x) = Some (ANum x)"
| "row_any (RText s) = normalise (JString s)"

definition rows_any :: "(string \<times> rowval) list list \<Rightarrow> any option" where
  "rows_any rows = map_option AList (those (map
     (\<lambda>row. map_option object_of (those (map (\<lambda>(k, v). map_option (Pair k) (row_any v)) row))) rows))"

section \<open>Headers\<close>

definition token_char :: "char \<Rightarrow> bool" where
  "token_char c \<longleftrightarrow> byte_in 48 57 c \<or> byte_in 65 90 c \<or> byte_in 97 122 c \<or>
     c \<in> set ''!#$%&*+-.^_|~'' \<or> c = CHR 0x27 \<or> c = CHR 0x60"

definition upper_byte :: "char \<Rightarrow> char" where
  "upper_byte c = (if byte_in 97 122 c then byte_of (of_char c - 32) else c)"

fun canonical_case :: "bool \<Rightarrow> string \<Rightarrow> string" where
  "canonical_case up [] = []"
| "canonical_case up (c # s) = (if up then upper_byte c else lower_byte c) # canonical_case (c = CHR ''-'') s"

definition CanonicalHeaderKey :: "string \<Rightarrow> string" where
  "CanonicalHeaderKey s = (if list_all token_char s then canonical_case True s else s)"

text \<open>An answer's headers, each name once with its values, none of them without a value.\<close>

type_synonym headers = "(string \<times> string list) list"

definition Values :: "headers \<Rightarrow> string \<Rightarrow> string list" where
  "Values h name = (case map_of h (CanonicalHeaderKey name) of None \<Rightarrow> [] | Some vs \<Rightarrow> vs)"

definition Get :: "headers \<Rightarrow> string \<Rightarrow> string" where
  "Get h name = (case Values h name of [] \<Rightarrow> [] | v # _ \<Rightarrow> v)"

record answer =
  an_status :: int
  an_headers :: headers
  an_body :: string

section \<open>Reports\<close>

datatype report =
    WantStatus int int | WantHeader string string string
  | CookiesUnparseable string | CookieUnexpected string | CookieBad string string | CookieTimes string nat
  | WantEmpty | WantRaw string | NotJSON | WantJSON any any | NotEncodable | Panics
  | WantRows nat
  | SameStatus int int | SameHeader string "string list" "string list" | SameBody
  | ParityStatus int int | ParityHeader string "string list" "string list"
  | ParityCookieLines "string option" "string option" | ParityCookie string | ParityBody
  | ParityState snapshot_mismatch

type_synonym reports = "report list \<times> bool"

definition errorf :: "bool \<Rightarrow> report \<Rightarrow> reports" where
  "errorf b r = (if b then [r] else [], True)"

definition fatal :: "report \<Rightarrow> reports" where
  "fatal r = ([r], False)"

definition and_then :: "reports \<Rightarrow> reports \<Rightarrow> reports" where
  "and_then a b = (if snd a then (fst a @ fst b, snd b) else a)"

definition in_turn :: "reports list \<Rightarrow> reports" where
  "in_turn rs = foldr and_then rs ([], True)"

record judge =
  jd_ulow :: "nat \<Rightarrow> nat"
  jd_ufold :: "nat \<Rightarrow> nat"
  jd_ParseTime :: "string \<Rightarrow> int option"
  jd_ParseUnpadded :: "string \<Rightarrow> int option"
  jd_matches :: "string \<Rightarrow> string \<Rightarrow> bool option"
  jd_render :: "mismatch \<Rightarrow> string"

section \<open>Against the case\<close>

definition assert_cookie :: "judge \<Rightarrow> (string \<times> CookieExpect) list \<Rightarrow> int option \<Rightarrow> SetCookie \<Rightarrow> reports" where
  "assert_cookie j expected date ck =
     (case map_of expected (sc_Name ck) of
        None \<Rightarrow> errorf True (CookieUnexpected (sc_Raw ck))
      | Some want \<Rightarrow>
        (case CheckCookie (jd_ParseTime j) (jd_ParseUnpadded j) (jd_matches j) (jd_render j) ck want date of
           None \<Rightarrow> fatal Panics
         | Some bad \<Rightarrow> (map (CookieBad (sc_Name ck)) bad, True)))"

definition assertCookies :: "judge \<Rightarrow> (string \<times> CookieExpect) list \<Rightarrow> answer \<Rightarrow> reports" where
  "assertCookies j expected got =
     (case ParseSetCookies (jd_ulow j) (Values (an_headers got) ''Set-Cookie'') of
        Inl line \<Rightarrow> errorf True (CookiesUnparseable line)
      | Inr cookies \<Rightarrow>
        let date = jd_ParseTime j (Get (an_headers got) ''Date'') in
        and_then (in_turn (map (assert_cookie j expected date) cookies))
          (in_turn (map (\<lambda>(name, _). let n = length (by_name cookies name) in errorf (n \<noteq> 1) (CookieTimes name n)) expected)))"

definition assert_body :: "Expect \<Rightarrow> string \<Rightarrow> reports" where
  "assert_body e body =
     (if e_BodyEmpty e then errorf (body \<noteq> []) WantEmpty
      else if e_BodyRaw e \<noteq> [] then errorf (body \<noteq> e_BodyRaw e) (WantRaw body)
      else case e_BodyJSON e of
        None \<Rightarrow> ([], True)
      | Some v \<Rightarrow>
        (case json_Unmarshal body of
           None \<Rightarrow> errorf True NotJSON
         | Some have_v \<Rightarrow>
           (case normalise v of
              None \<Rightarrow> fatal NotEncodable
            | Some want \<Rightarrow> errorf (have_v \<noteq> want) (WantJSON want have_v))))"

definition assertExpected :: "judge \<Rightarrow> Case \<Rightarrow> answer \<Rightarrow> string \<Rightarrow> reports" where
  "assertExpected j c got backend =
     (let e = c_Expect c; want = StatusFor e backend in
      in_turn
        [errorf (an_status got \<noteq> want) (WantStatus want (an_status got)),
         in_turn (map (\<lambda>(name, v). errorf (Get (an_headers got) name \<noteq> v) (WantHeader name v (Get (an_headers got) name))) (e_Headers e)),
         (case e_Cookies e of None \<Rightarrow> ([], True) | Some expected \<Rightarrow> assertCookies j expected got),
         assert_body e (an_body got)])"

definition assert_row :: "nat \<times> RowsExpect \<times> (string \<times> rowval) list list \<Rightarrow> reports" where
  "assert_row x =
     (case x of (i, q, got) \<Rightarrow>
        (case normalise (case re_Rows q of None \<Rightarrow> JNull | Some rows \<Rightarrow> JArray (map JObject rows)) of
           None \<Rightarrow> fatal NotEncodable
         | Some want \<Rightarrow>
           (case rows_any got of None \<Rightarrow> fatal NotEncodable | Some have_v \<Rightarrow> errorf (have_v \<noteq> want) (WantRows i))))"

definition assertRows :: "Case \<Rightarrow> (string \<times> rowval) list list list \<Rightarrow> reports" where
  "assertRows c got = in_turn (map assert_row (enumerate 0 (zip (e_Rows (c_Expect c)) got)))"

section \<open>Against another answer\<close>

definition perResponseHeaders :: "string list" where
  "perResponseHeaders = [''Date'', ''X-Request-Id'']"

definition header_names :: "answer \<Rightarrow> answer \<Rightarrow> string list" where
  "header_names a b = sort (remdups (map fst (an_headers a) @ map fst (an_headers b)))"

definition assertSameAs :: "judge \<Rightarrow> answer \<Rightarrow> answer \<Rightarrow> reports" where
  "assertSameAs j got ref = in_turn (
     [errorf (an_status got \<noteq> an_status ref) (SameStatus (an_status got) (an_status ref))] @
     map (\<lambda>n. let g = Values (an_headers got) n; r = Values (an_headers ref) n
              in errorf (\<not> list_ex (\<lambda>h. EqualFold (jd_ufold j) h n) perResponseHeaders \<and> g \<noteq> r) (SameHeader n g r))
       (header_names got ref) @
     [errorf (an_body got \<noteq> an_body ref) SameBody])"

definition header_parity :: "judge \<Rightarrow> (string \<Rightarrow> bool) \<Rightarrow> answer \<Rightarrow> answer \<Rightarrow> string \<Rightarrow> reports" where
  "header_parity j allowsHeader a b n =
     (let g = Values (an_headers a) n; k = Values (an_headers b) n
      in errorf (\<not> allowsHeader n \<and> \<not> EqualFold (jd_ufold j) n ''Set-Cookie'' \<and> g \<noteq> k) (ParityHeader n g k))"

definition cookie_lines_parity :: "judge \<Rightarrow> answer \<Rightarrow> answer \<Rightarrow> reports" where
  "cookie_lines_parity j a b =
     (let cookies = (\<lambda>x. ParseSetCookies (jd_ulow j) (Values (an_headers x) ''Set-Cookie''));
          date = (\<lambda>x. jd_ParseTime j (Get (an_headers x) ''Date''))
      in case (cookies a, cookies b) of
           (Inr as, Inr bs) \<Rightarrow>
             (map ParityCookie (CookieParity (jd_ParseTime j) (jd_ParseUnpadded j) (jd_render j) as bs (date a) (date b)), True)
         | (x, y) \<Rightarrow> errorf True (ParityCookieLines (error_of x) (error_of y)))"

definition assertParity :: "judge \<Rightarrow> PermittedSet \<Rightarrow> Case \<Rightarrow> answer \<Rightarrow> answer \<Rightarrow> reports" where
  "assertParity j permitted c goResp ktResp =
     (case ForCase (jd_ulow j) permitted c of (allowsHeader, allowsBody, allowsStatus) \<Rightarrow>
        in_turn (
          [errorf (\<not> allowsStatus \<and> an_status goResp \<noteq> an_status ktResp) (ParityStatus (an_status goResp) (an_status ktResp))] @
          map (header_parity j allowsHeader goResp ktResp) (header_names goResp ktResp) @
          [if allowsHeader ''Set-Cookie'' then ([], True) else cookie_lines_parity j goResp ktResp,
           errorf (\<not> allowsBody \<and> \<not> equalBodies (an_body goResp) (an_body ktResp)) ParityBody]))"

section \<open>What no report means\<close>

definition green :: "reports \<Rightarrow> bool" where
  "green r \<longleftrightarrow> fst r = []"

text \<open>No assertion ends a test without a report, so an assertion that was skipped shows.\<close>

definition honest :: "reports \<Rightarrow> bool" where
  "honest r \<longleftrightarrow> (fst r = [] \<longrightarrow> snd r)"

lemma green_errorf [simp]: "green (errorf b r) \<longleftrightarrow> \<not> b" "honest (errorf b r)"
  by (simp_all add: green_def honest_def errorf_def)

lemma green_fatal [simp]: "\<not> green (fatal r)" "honest (fatal r)"
  by (simp_all add: green_def honest_def fatal_def)

lemma green_listed [simp]: "green (rs, b) \<longleftrightarrow> rs = []" "honest (rs, True)"
  by (simp_all add: green_def honest_def)

lemma and_then_honest: "honest a \<Longrightarrow> honest b \<Longrightarrow> honest (and_then a b)"
  by (auto simp: honest_def and_then_def)

lemma and_then_green: "honest a \<Longrightarrow> green (and_then a b) \<longleftrightarrow> green a \<and> green b"
  by (auto simp: honest_def green_def and_then_def)

lemma in_turn_honest: "(\<And>r. r \<in> set rs \<Longrightarrow> honest r) \<Longrightarrow> honest (in_turn rs)"
  by (induction rs) (simp_all add: in_turn_def and_then_honest)

lemma in_turn_green: "(\<And>r. r \<in> set rs \<Longrightarrow> honest r) \<Longrightarrow> green (in_turn rs) \<longleftrightarrow> (\<forall>r \<in> set rs. green r)"
  by (induction rs) (simp_all add: in_turn_def and_then_green)

lemma assert_cookie_honest: "honest (assert_cookie j expected date ck)"
  by (simp add: assert_cookie_def split: option.split)

lemma assertCookies_honest: "honest (assertCookies j expected got)"
  by (auto simp: assertCookies_def Let_def split: sum.split
      intro!: and_then_honest in_turn_honest assert_cookie_honest)

lemma assert_body_honest: "honest (assert_body e body)"
  by (simp add: assert_body_def split: option.split)

lemma assert_headers_honest:
  "honest (in_turn (map (\<lambda>(name, v). errorf (Get h name \<noteq> v) (WantHeader name v (Get h name))) es))"
  by (rule in_turn_honest) auto

lemma assertExpected_green:
  "green (assertExpected j c got backend) \<longleftrightarrow>
     an_status got = StatusFor (c_Expect c) backend \<and>
     (\<forall>(name, v) \<in> set (e_Headers (c_Expect c)). Get (an_headers got) name = v) \<and>
     (case e_Cookies (c_Expect c) of None \<Rightarrow> True | Some expected \<Rightarrow> green (assertCookies j expected got)) \<and>
     green (assert_body (c_Expect c) (an_body got))"
proof -
  let ?e = "c_Expect c"
  let ?hs = "map (\<lambda>(name, v). errorf (Get (an_headers got) name \<noteq> v) (WantHeader name v (Get (an_headers got) name))) (e_Headers ?e)"
  have "green (in_turn ?hs) \<longleftrightarrow> (\<forall>(name, v) \<in> set (e_Headers ?e). Get (an_headers got) name = v)"
    by (subst in_turn_green) (auto simp: split_beta)
  moreover have "honest (case e_Cookies ?e of None \<Rightarrow> ([], True) | Some expected \<Rightarrow> assertCookies j expected got)"
    by (simp add: assertCookies_honest split: option.split)
  ultimately show ?thesis unfolding assertExpected_def Let_def
    by (subst in_turn_green) (auto simp: assert_headers_honest assert_body_honest split: option.splits)
qed

text \<open>A cookie assertion passes when every named cookie is set once, as the case says, and no other.\<close>

lemma assertCookies_green:
  assumes "green (assertCookies j expected got)"
  obtains cookies where "ParseSetCookies (jd_ulow j) (Values (an_headers got) ''Set-Cookie'') = Inr cookies"
    "\<forall>(name, _) \<in> set expected. length (by_name cookies name) = 1"
    "\<forall>ck \<in> set cookies. \<exists>want. map_of expected (sc_Name ck) = Some want \<and>
       CheckCookie (jd_ParseTime j) (jd_ParseUnpadded j) (jd_matches j) (jd_render j) ck want
         (jd_ParseTime j (Get (an_headers got) ''Date'')) = Some []"
proof (cases "ParseSetCookies (jd_ulow j) (Values (an_headers got) ''Set-Cookie'')")
  case (Inr cookies)
  let ?date = "jd_ParseTime j (Get (an_headers got) ''Date'')"
  let ?one = "map (assert_cookie j expected ?date) cookies"
  have h: "honest (in_turn ?one)" by (rule in_turn_honest) (auto simp: assert_cookie_honest)
  have g: "green (in_turn ?one) \<and> (\<forall>(name, _) \<in> set expected. length (by_name cookies name) = 1)"
    using assms Inr unfolding assertCookies_def Let_def
    by (simp add: and_then_green [OF h]) (subst (asm) in_turn_green; auto simp: split_beta)
  then have "\<forall>ck \<in> set cookies. green (assert_cookie j expected ?date ck)"
    by (subst (asm) in_turn_green) (auto simp: assert_cookie_honest)
  then show thesis using that [OF Inr] g by (fastforce simp: assert_cookie_def split: option.splits)
qed (use assms in \<open>simp add: assertCookies_def\<close>)

lemma cookie_lines_honest: "honest (cookie_lines_parity j a b)"
  by (simp add: cookie_lines_parity_def Let_def split: sum.split)

lemma not_listed:
  assumes "n \<notin> set (header_names a b)" "CanonicalHeaderKey n = n"
  shows "Values (an_headers a) n = []" "Values (an_headers b) n = []"
  using assms map_of_eq_None_iff [of "an_headers a" n] map_of_eq_None_iff [of "an_headers b" n]
  by (simp_all add: header_names_def Values_def)

lemma assertSameAs_green:
  assumes "green (assertSameAs j got ref)"
  shows "an_status got = an_status ref \<and> an_body got = an_body ref \<and>
    (\<forall>n. CanonicalHeaderKey n = n \<longrightarrow> \<not> list_ex (\<lambda>h. EqualFold (jd_ufold j) h n) perResponseHeaders \<longrightarrow>
       Values (an_headers got) n = Values (an_headers ref) n)"
proof -
  have g: "an_status got = an_status ref" "an_body got = an_body ref"
    "\<forall>n \<in> set (header_names got ref). list_ex (\<lambda>h. EqualFold (jd_ufold j) h n) perResponseHeaders \<or>
       Values (an_headers got) n = Values (an_headers ref) n"
    using assms unfolding assertSameAs_def Let_def by (subst (asm) in_turn_green; auto)+
  then show ?thesis using not_listed [of _ got ref] by metis
qed

lemma cookie_lines_green:
  "green (cookie_lines_parity j a b) \<longleftrightarrow>
     (\<exists>as bs. ParseSetCookies (jd_ulow j) (Values (an_headers a) ''Set-Cookie'') = Inr as \<and>
        ParseSetCookies (jd_ulow j) (Values (an_headers b) ''Set-Cookie'') = Inr bs \<and>
        cookies_agree (expiresRelation (jd_ParseTime j) (jd_ParseUnpadded j)) (jd_ParseTime j (Get (an_headers a) ''Date''))
          (jd_ParseTime j (Get (an_headers b) ''Date'')) as bs)"
  by (auto simp: cookie_lines_parity_def Let_def CookieParity_Nil split: sum.split)

lemma assertParity_green:
  assumes "green (assertParity j p c a b)" "ForCase (jd_ulow j) p c = (allowsHeader, allowsBody, allowsStatus)"
  shows "(\<not> allowsStatus \<longrightarrow> an_status a = an_status b) \<and>
    (\<forall>n. CanonicalHeaderKey n = n \<longrightarrow> \<not> allowsHeader n \<longrightarrow> \<not> EqualFold (jd_ufold j) n ''Set-Cookie'' \<longrightarrow>
       Values (an_headers a) n = Values (an_headers b) n) \<and>
    (\<not> allowsHeader ''Set-Cookie'' \<longrightarrow> green (cookie_lines_parity j a b)) \<and>
    (\<not> allowsBody \<longrightarrow> equalBodies (an_body a) (an_body b))"
proof -
  note g = assms(1) [unfolded assertParity_def assms(2) prod.case]
  have "\<forall>r \<in> set (map (header_parity j allowsHeader a b) (header_names a b) @
      [if allowsHeader ''Set-Cookie'' then ([], True) else cookie_lines_parity j a b,
       errorf (\<not> allowsBody \<and> \<not> equalBodies (an_body a) (an_body b)) ParityBody] @
      [errorf (\<not> allowsStatus \<and> an_status a \<noteq> an_status b) (ParityStatus (an_status a) (an_status b))]). green r"
    using g by (subst (asm) in_turn_green) (auto simp: header_parity_def Let_def cookie_lines_honest)
  then have "\<forall>n \<in> set (header_names a b). green (header_parity j allowsHeader a b n)"
    and "\<not> allowsHeader ''Set-Cookie'' \<longrightarrow> green (cookie_lines_parity j a b)"
    and "\<not> allowsBody \<longrightarrow> equalBodies (an_body a) (an_body b)" "\<not> allowsStatus \<longrightarrow> an_status a = an_status b" by auto
  then show ?thesis using not_listed [of _ a b] by (auto simp: header_parity_def Let_def)
qed

section \<open>Bodies\<close>

text \<open>Bodies that pass for equal form classes: a third body equal to both is no way around.\<close>

lemma equalBodies_equiv: "equivp equalBodies"
proof (rule equivpI)
  show "transp equalBodies"
    by (rule transpI) (auto simp: equalBodies_def split: option.splits)
qed (auto simp: reflp_def symp_def equalBodies_def split: option.splits)

text \<open>The order of an object's members makes no difference, and nothing else is lost in decoding.\<close>

lemma fold_update_members:
  assumes "distinct (map fst ms)" "fst ` set ms \<inter> fst ` set acc = {}"
  shows "fold (\<lambda>(k, v). AList.update k v) ms acc = acc @ ms"
  using assms
proof (induction ms arbitrary: acc)
  case (Cons m ms)
  have "AList.update (fst m) (snd m) acc = acc @ [m]"
  proof -
    have "fst m \<notin> fst ` set acc" using Cons.prems(2) by auto
    then show ?thesis by (induction acc) auto
  qed
  with Cons show ?case by (simp add: split_beta)
qed simp

lemma object_of_distinct: "distinct (map fst ms) \<Longrightarrow> object_of ms = AMap (sort_key fst ms)"
  using fold_update_members [of ms "[]"] by (simp add: object_of_def)

lemma object_of_eq:
  assumes "distinct (map fst ms)" "distinct (map fst ns)"
  shows "object_of ms = object_of ns \<longleftrightarrow> set ms = set ns"
proof
  assume "object_of ms = object_of ns"
  then show "set ms = set ns" using assms by (metis any.inject(5) object_of_distinct set_sort)
next
  assume s: "set ms = set ns"
  have "distinct ms" "distinct ns" using assms distinct_map by blast+
  then have m: "mset ms = mset ns" using s by (simp add: set_eq_iff_mset_eq_distinct)
  have "inj_on fst (set ms)" using assms(1) by (simp add: distinct_map)
  with m have "sort_key fst ms = sort_key fst ns"
    by (intro sort_key_inj_key_eq) simp_all
  then show "object_of ms = object_of ns" using assms by (simp add: object_of_distinct)
qed

lemma those_map_Some: "those (map f xs) = Some ys \<longleftrightarrow> list_all2 (\<lambda>x y. f x = Some y) xs ys"
proof (induction xs arbitrary: ys)
  case (Cons x xs)
  then show ?case by (cases ys) (auto split: option.splits)
qed auto

lemma decoded_members:
  assumes "those (map (\<lambda>(k, v). map_option (Pair k) (go_any v)) ms) = Some ys"
  shows "map fst ys = map fst ms" "set ys = {(k, x). \<exists>v. (k, v) \<in> set ms \<and> go_any v = Some x}"
  using assms by (induction ms arbitrary: ys) (auto split: option.splits)

text \<open>
  Two encodings of one object with its members in another order pass for equal; with another
  member, a missing one, or a member with another value they do not.
\<close>

lemma equal_objects:
  assumes "json_wf (JObject ms)" "json_depth (JObject ms) \<le> maxNestingDepth" "go_any (JObject ms) \<noteq> None"
    and "json_wf (JObject ns)" "json_depth (JObject ns) \<le> maxNestingDepth" "go_any (JObject ns) \<noteq> None"
    and "distinct (map fst ms)" "distinct (map fst ns)"
  shows "equalBodies (Encode (JObject ms)) (Encode (JObject ns)) \<longleftrightarrow>
    (\<forall>k x. (\<exists>v. (k, v) \<in> set ms \<and> go_any v = Some x) \<longleftrightarrow> (\<exists>v. (k, v) \<in> set ns \<and> go_any v = Some x))"
proof -
  have u: "json_Unmarshal (Encode v) = go_any v" if "json_wf v" "json_depth v \<le> maxNestingDepth" for v
  proof -
    have "ends_value v [LF]" by (rule ends_value_separator) simp
    from json_roundtrip [OF that this] show ?thesis by (simp add: json_Unmarshal_def Encode_def json_space_def LF_def)
  qed
  obtain xs ys where xs: "those (map (\<lambda>(k, v). map_option (Pair k) (go_any v)) ms) = Some xs"
    and ys: "those (map (\<lambda>(k, v). map_option (Pair k) (go_any v)) ns) = Some ys" using assms(3,6) by auto
  have eq: "equalBodies (Encode (JObject ms)) (Encode (JObject ns)) \<longleftrightarrow> object_of xs = object_of ys"
    using xs ys u [OF assms(1,2)] u [OF assms(4,5)] by (auto simp: equalBodies_def)
  have "object_of xs = object_of ys \<longleftrightarrow> set xs = set ys"
    using decoded_members(1) [OF xs] decoded_members(1) [OF ys] assms(7,8) by (intro object_of_eq) simp_all
  then show ?thesis unfolding eq decoded_members(2) [OF xs] decoded_members(2) [OF ys]
    by (simp add: set_eq_iff split_paired_All)
qed

text \<open>Numbers are compared as \<open>float64\<close>: beyond 53 bits different integers pass for equal.\<close>

lemma big_numbers_pass: "equalBodies ''9007199254740992'' ''9007199254740993''"
proof -
  have u: "json_Unmarshal lit = map_option ANum (ParseFloat lit)" if "json_number lit" for lit
    using json_roundtrip [of "JNumber lit" "[]"] that by (simp add: json_Unmarshal_def)
  have n: "json_number ''9007199254740992''" "json_number ''9007199254740993''"
    by (simp_all add: json_number_def num_start_def is_digit_def byte_in_def num_final_def)
  have "decimal_value ''9007199254740992'' = of_int (2 ^ 53)" "decimal_value ''9007199254740993'' = of_int (2 ^ 53 + 1)"
    by (simp_all add: decimal_value_def Let_def is_digit_def byte_in_def digits_value_def digit_val_def)
  moreover have "float64 (of_int (2 ^ 53)) = of_int (2 ^ 53)" "float64 (of_int (2 ^ 53 + 1)) = float64 (of_int (2 ^ 53))"
    using query_integers_exact [of "2 ^ 53"] query_integers_collide by (simp_all only: row_value.simps option.inject rowval.inject) simp
  moreover have "\<bar>of_int (2 ^ 53) :: rat\<bar> < 2 ^ 1024" by simp
  ultimately have "ParseFloat ''9007199254740992'' = Some (of_int (2 ^ 53))" "ParseFloat ''9007199254740993'' = Some (of_int (2 ^ 53))"
    by (simp_all only: ParseFloat_def Let_def if_True)
  then show ?thesis by (simp add: equalBodies_def u n)
qed

end
