(* ===== verification/Conf_Run.thy ===== *)
theory Conf_Run
  imports Conf_Answer
begin

text \<open>
  The run of the conformance harness (\<open>contract/conformance/conformance_test.go\<close>): the request a
  case describes, one backend driven through one case, both backends judged, and the whole run.

  A backend is a black box. \<open>rig_exchange\<close> is what it answers to a request, with what it does to
  its own state, to the rows of its database and to the connections it holds; it cannot change
  who may connect. What PostgreSQL does with a text of SQL, and which statements fail, are
  parameters too.
\<close>

section \<open>The request\<close>

text \<open>The target of the request line: that of a URL, or bytes sent verbatim.\<close>

datatype target = OfURL string | Opaque string

record sent =
  snt_Method :: string
  snt_Target :: target
  snt_Host :: "string option"
  snt_Header :: headers
  snt_Body :: string

datatype do_error = BadRequest | BadBaseURL | BadHex string | NoAnswer

text \<open>\<open>new_request\<close> says whether \<open>http.NewRequest\<close> takes a method and a URL, \<open>base_path\<close> is the path of a parsed URL.\<close>

definition request_target :: "(string \<Rightarrow> string \<Rightarrow> bool) \<Rightarrow> (string \<Rightarrow> string option) \<Rightarrow> string \<Rightarrow> CaseRequest \<Rightarrow> do_error + target" where
  "request_target new_request base_path baseURL r =
     (if HasPrefix (q_RawTarget r) ''*'' \<or> Contains (q_RawTarget r) ''://'' then
        if new_request (q_Method r) baseURL then Inr (Opaque (q_RawTarget r)) else Inl BadRequest
      else if q_RawTarget r \<noteq> [] then
        (case base_path baseURL of
           None \<Rightarrow> Inl BadBaseURL
         | Some path \<Rightarrow>
           if new_request (q_Method r) baseURL then Inr (Opaque (path @ q_RawTarget r)) else Inl BadRequest)
      else if new_request (q_Method r) (baseURL @ q_Path r) then Inr (OfURL (baseURL @ q_Path r)) else Inl BadRequest)"

definition set_header :: "(nat \<Rightarrow> nat) \<Rightarrow> string \<times> string \<Rightarrow> sent \<Rightarrow> sent" where
  "set_header ufold h s =
     (case h of (k, v) \<Rightarrow>
        if EqualFold ufold k ''Host'' then s\<lparr>snt_Host := Some v\<rparr>
        else s\<lparr>snt_Header := AList.update (CanonicalHeaderKey k) [v] (snt_Header s)\<rparr>)"

fun set_hex_headers :: "(string \<times> string) list \<Rightarrow> sent \<Rightarrow> do_error + sent" where
  "set_hex_headers [] s = Inr s"
| "set_hex_headers ((k, hexValue) # hs) s =
     (case hex_DecodeString hexValue of
        None \<Rightarrow> Inl (BadHex k)
      | Some decoded \<Rightarrow> set_hex_headers hs (s\<lparr>snt_Header := AList.update (CanonicalHeaderKey k) [decoded] (snt_Header s)\<rparr>))"

definition build_request :: "(string \<Rightarrow> string \<Rightarrow> bool) \<Rightarrow> (string \<Rightarrow> string option) \<Rightarrow> (nat \<Rightarrow> nat) \<Rightarrow> string \<Rightarrow> CaseRequest \<Rightarrow> do_error + sent" where
  "build_request new_request base_path ufold baseURL r =
     res_bind (request_target new_request base_path baseURL r) (\<lambda>t.
       set_hex_headers (entries (q_HeadersHex r))
         (fold (set_header ufold) (entries (q_Headers r))
           \<lparr>snt_Method = q_Method r, snt_Target = t, snt_Host = None, snt_Header = [], snt_Body = SentBody r\<rparr>))"

section \<open>A backend and its database\<close>

text \<open>
  \<open>site_script\<close> says of the statements to come whether they fail, \<open>site_restores\<close> of the coming
  restorations, each list followed by successes. \<open>site_deferred\<close> counts the deferred restorations.
\<close>

record ('b, 'r) site =
  site_backend :: 'b
  site_tables :: "'r tables_of"
  site_server :: pg_server
  site_script :: "bool list"
  site_restores :: "bool list"
  site_deferred :: nat

record ('b, 'r) rig =
  rig_name :: string
  rig_baseURL :: string
  rig_db :: DB
  rig_seed :: "string option"
  rig_sql :: "string \<Rightarrow> 'r tables_of \<Rightarrow> 'r tables_of option"
  rig_client :: "'b \<Rightarrow> 'b"
  rig_exchange :: "sent \<Rightarrow> ('b, 'r) site \<Rightarrow> answer option \<times> 'b \<times> 'r tables_of \<times> (nat \<times> string) list"
  rig_health :: "('b, 'r) site \<Rightarrow> int option list \<times> 'b \<times> (nat \<times> string) list"
  rig_rows :: "string \<Rightarrow> 'r tables_of \<Rightarrow> (string list \<times> pgval list option list \<times> bool) option"
  rig_catalogue :: "'r tables_of \<Rightarrow> catalogue"
  rig_Sanitize :: "string \<Rightarrow> string"
  rig_sortSlice :: "SnapshotRow list \<Rightarrow> SnapshotRow list"
  rig_new_request :: "string \<Rightarrow> string \<Rightarrow> bool"
  rig_base_path :: "string \<Rightarrow> string option"

datatype step_fault =
    ResetFault reset_error | OutageFault nat | SQLFault nat | RequestFault nat do_error | StatusFault nat int | NilFault nat
  | CaseRequestFault do_error | RestoreFault | Unhealthy int | RowsFault nat query_failure | SnapshotFault | SameAsFault do_error

record case_run =
  run_resp :: answer
  run_ref :: "answer option"
  run_rows :: "(string \<times> rowval) list list list"
  run_state :: Snapshot

text \<open>Actions on a site that can fail.\<close>

type_synonym ('b, 'r, 'a) act = "('b, 'r) site \<Rightarrow> (step_fault + 'a) \<times> ('b, 'r) site"

definition act_bind :: "('b, 'r, 'a) act \<Rightarrow> ('a \<Rightarrow> ('b, 'r, 'c) act) \<Rightarrow> ('b, 'r, 'c) act" where
  "act_bind m f w = (case m w of (Inl e, w') \<Rightarrow> (Inl e, w') | (Inr x, w') \<Rightarrow> f x w')"

definition fails :: "('b, 'r) site \<Rightarrow> bool \<times> ('b, 'r) site" where
  "fails w = (case site_script w of [] \<Rightarrow> (False, w) | b # bs \<Rightarrow> (b, w\<lparr>site_script := bs\<rparr>))"

definition do_reset :: "('b, 'r) rig \<Rightarrow> ('b, 'r, unit) act" where
  "do_reset g w =
     (case fails w of (f1, w1) \<Rightarrow> case fails w1 of (f2, w2) \<Rightarrow>
       case Reset (\<not> f1) (rig_seed g) (\<not> f2) (rig_sql g) (site_tables w2) of
         (Some e, ts) \<Rightarrow> (Inl (ResetFault e), w2\<lparr>site_tables := ts\<rparr>)
       | (None, ts) \<Rightarrow> (Inr (), w2\<lparr>site_tables := ts, site_backend := rig_client g (site_backend w2)\<rparr>))"

definition do_outage :: "('b, 'r) rig \<Rightarrow> nat \<Rightarrow> ('b, 'r, unit) act" where
  "do_outage g i w =
     (case fails w of (f1, w1) \<Rightarrow> case fails w1 of (f2, w2) \<Rightarrow>
       case Outage f1 f2 (rig_db g) (site_server w2) of
         (False, s) \<Rightarrow> (Inl (OutageFault i), w2\<lparr>site_server := s\<rparr>)
       | (True, s) \<Rightarrow> (Inr (), w2\<lparr>site_server := s, site_deferred := Suc (site_deferred w2)\<rparr>))"

definition try_restore :: "('b, 'r) rig \<Rightarrow> ('b, 'r) site \<Rightarrow> bool \<times> ('b, 'r) site" where
  "try_restore g w =
     (let (f, rest) = (case site_restores w of [] \<Rightarrow> (False, []) | b # bs \<Rightarrow> (b, bs))
      in case Restore f (rig_db g) (site_server w) of
           (ok, s) \<Rightarrow> (ok, w\<lparr>site_server := s, site_restores := rest\<rparr>))"

definition do_restore :: "('b, 'r) rig \<Rightarrow> ('b, 'r, unit) act" where
  "do_restore g w = (case try_restore g w of (ok, w') \<Rightarrow> (if ok then Inr () else Inl RestoreFault, w'))"

definition do_request :: "(nat \<Rightarrow> nat) \<Rightarrow> ('b, 'r) rig \<Rightarrow> (do_error \<Rightarrow> step_fault) \<Rightarrow> CaseRequest \<Rightarrow> ('b, 'r, answer) act" where
  "do_request ufold g fault r w =
     (case build_request (rig_new_request g) (rig_base_path g) ufold (rig_baseURL g) r of
        Inl e \<Rightarrow> (Inl (fault e), w)
      | Inr s \<Rightarrow>
        (case rig_exchange g s w of (a, b, ts, conns) \<Rightarrow>
           (case a of None \<Rightarrow> Inl (fault NoAnswer) | Some x \<Rightarrow> Inr x,
            w\<lparr>site_backend := b, site_tables := ts, site_server := (site_server w)\<lparr>srv_activity := conns\<rparr>\<rparr>)))"

text \<open>The answers of \<open>/health\<close> until one is 200 or the limit is over; the last status of a loop in vain.\<close>

fun waitHealthy :: "int \<Rightarrow> int option list \<Rightarrow> int option" where
  "waitHealthy status [] = Some status"
| "waitHealthy status (None # probes) = waitHealthy status probes"
| "waitHealthy status (Some s # probes) = (if s = 200 then None else waitHealthy s probes)"

definition do_wait_healthy :: "('b, 'r) rig \<Rightarrow> ('b, 'r, unit) act" where
  "do_wait_healthy g w =
     (case rig_health g w of (probes, b, conns) \<Rightarrow>
        (case waitHealthy 0 probes of None \<Rightarrow> Inr () | Some s \<Rightarrow> Inl (Unhealthy s),
         w\<lparr>site_backend := b, site_server := (site_server w)\<lparr>srv_activity := conns\<rparr>\<rparr>))"

section \<open>One backend, one case\<close>

definition given_step :: "(nat \<Rightarrow> nat) \<Rightarrow> ('b, 'r) rig \<Rightarrow> nat \<Rightarrow> Step \<Rightarrow> ('b, 'r, unit) act" where
  "given_step ufold g i st =
     (if s_Outage st then do_outage g i
      else if s_SQL st \<noteq> [] then (\<lambda>w.
        case Exec (rig_sql g) (s_SQL st) (site_tables w) of
          (False, _) \<Rightarrow> (Inl (SQLFault i), w)
        | (True, ts) \<Rightarrow> (Inr (), w\<lparr>site_tables := ts\<rparr>))
      else case s_Request st of
        None \<Rightarrow> (\<lambda>w. (Inl (NilFault i), w))
      | Some r \<Rightarrow> act_bind (do_request ufold g (RequestFault i) r) (\<lambda>resp w.
          (if an_status resp = s_Status st then Inr () else Inl (StatusFault i (an_status resp)), w)))"

fun given_steps :: "(nat \<Rightarrow> nat) \<Rightarrow> ('b, 'r) rig \<Rightarrow> nat \<Rightarrow> Step list \<Rightarrow> ('b, 'r, unit) act" where
  "given_steps ufold g i [] w = (Inr (), w)"
| "given_steps ufold g i (st # sts) w = act_bind (given_step ufold g i st) (\<lambda>_. given_steps ufold g (Suc i) sts) w"

fun case_rows :: "('b, 'r) rig \<Rightarrow> 'r tables_of \<Rightarrow> nat \<Rightarrow> RowsExpect list \<Rightarrow> step_fault + (string \<times> rowval) list list list" where
  "case_rows g ts i [] = Inr []"
| "case_rows g ts i (q # qs) =
     (case Query (rig_rows g (re_SQL q) ts) of
        Inl e \<Rightarrow> Inl (RowsFault i e)
      | Inr got \<Rightarrow> res_bind (case_rows g ts (Suc i) qs) (\<lambda>rest. Inr (got # rest)))"

text \<open>What is read between the request and the \<open>same_as\<close> request.\<close>

definition observe :: "('b, 'r) rig \<Rightarrow> PermittedSet \<Rightarrow> Case \<Rightarrow> ('b, 'r, (string \<times> rowval) list list list \<times> Snapshot) act" where
  "observe g p c w =
     (case case_rows g (site_tables w) 0 (e_Rows (c_Expect c)) of
        Inl e \<Rightarrow> (Inl e, w)
      | Inr rows \<Rightarrow>
        (case take_Snapshot (rig_Sanitize g) (rig_sortSlice g) (rig_catalogue g (site_tables w)) (MasksColumn p) of
           None \<Rightarrow> (Inl SnapshotFault, w)
         | Some snap \<Rightarrow> (Inr (rows, snap), w)))"

definition reference :: "(nat \<Rightarrow> nat) \<Rightarrow> ('b, 'r) rig \<Rightarrow> Case \<Rightarrow> ('b, 'r, answer option) act" where
  "reference ufold g c =
     (case SameAsRequest (c_Expect c) (rig_name g) of
        None \<Rightarrow> (\<lambda>w. (Inr None, w))
      | Some s \<Rightarrow> act_bind (do_request ufold g SameAsFault s) (\<lambda>ref w. (Inr (Some ref), w)))"

definition drive :: "(nat \<Rightarrow> nat) \<Rightarrow> ('b, 'r) rig \<Rightarrow> PermittedSet \<Rightarrow> Case \<Rightarrow> ('b, 'r, case_run) act" where
  "drive ufold g p c =
     act_bind (do_reset g) (\<lambda>_.
     act_bind (given_steps ufold g 0 (c_Given c)) (\<lambda>_.
     act_bind (do_request ufold g CaseRequestFault (c_Request c)) (\<lambda>resp.
     act_bind (do_restore g) (\<lambda>_.
     act_bind (if list_ex s_Outage (c_Given c) then do_wait_healthy g else (\<lambda>w. (Inr (), w))) (\<lambda>_.
     act_bind (observe g p c) (\<lambda>(rows, snap).
     act_bind (reference ufold g c) (\<lambda>ref w.
       (Inr \<lparr>run_resp = resp, run_ref = ref, run_rows = rows, run_state = snap\<rparr>, w))))))))"

text \<open>The deferred restorations run on every return; their errors are dropped.\<close>

definition runCase :: "(nat \<Rightarrow> nat) \<Rightarrow> ('b, 'r) rig \<Rightarrow> PermittedSet \<Rightarrow> Case \<Rightarrow> ('b, 'r, case_run) act" where
  "runCase ufold g p c w =
     (case drive ufold g p c (w\<lparr>site_deferred := 0\<rparr>) of
        (res, w') \<Rightarrow> (res, ((\<lambda>x. snd (try_restore g x)) ^^ site_deferred w') w'))"

section \<open>Both backends, every case\<close>

definition expected_reports :: "judge \<Rightarrow> Case \<Rightarrow> string \<Rightarrow> case_run \<Rightarrow> reports" where
  "expected_reports j c backend r = in_turn
     [assertExpected j c (run_resp r) backend,
      (case run_ref r of None \<Rightarrow> ([], True) | Some ref \<Rightarrow> assertSameAs j (run_resp r) ref),
      assertRows c (run_rows r)]"

definition parity_reports :: "judge \<Rightarrow> PermittedSet \<Rightarrow> Case \<Rightarrow> case_run \<Rightarrow> case_run \<Rightarrow> reports" where
  "parity_reports j p c rg rk = in_turn
     [assertParity j p c (run_resp rg) (run_resp rk),
      (map ParityState (SnapshotParity (run_state rg) (run_state rk)), True)]"

text \<open>What a case leaves: its reports, and the setup that failed, which ends it.\<close>

type_synonym case_result = "report list \<times> (string \<times> step_fault) option"

definition test_case :: "judge \<Rightarrow> ('g, 'r) rig \<Rightarrow> ('k, 's) rig \<Rightarrow> PermittedSet \<Rightarrow> Case \<Rightarrow> ('g, 'r) site \<times> ('k, 's) site \<Rightarrow>
    case_result \<times> ('g, 'r) site \<times> ('k, 's) site" where
  "test_case j go kotlin p c w =
     (case runCase (jd_ufold j) (go\<lparr>rig_name := ''go''\<rparr>) p c (fst w) of
        (Inl e, wg) \<Rightarrow> (([], Some (''go'', e)), wg, snd w)
      | (Inr rg, wg) \<Rightarrow>
        (case runCase (jd_ufold j) (kotlin\<lparr>rig_name := ''kotlin''\<rparr>) p c (snd w) of
           (Inl e, wk) \<Rightarrow> ((fst (expected_reports j c ''go'' rg), Some (''kotlin'', e)), wg, wk)
         | (Inr rk, wk) \<Rightarrow>
           ((fst (expected_reports j c ''go'' rg) @ fst (expected_reports j c ''kotlin'' rk) @
             fst (parity_reports j p c rg rk), None), wg, wk)))"

fun test_cases :: "judge \<Rightarrow> (string \<Rightarrow> ('g, 'r) rig \<times> ('k, 's) rig) \<Rightarrow> PermittedSet \<Rightarrow> Case list \<Rightarrow> ('g, 'r) site \<times> ('k, 's) site \<Rightarrow>
    (string \<times> case_result) list \<times> ('g, 'r) site \<times> ('k, 's) site" where
  "test_cases j rigs p [] w = ([], w)"
| "test_cases j rigs p (c # cs) w =
     (case test_case j (fst (rigs (ProfileOf c))) (snd (rigs (ProfileOf c))) p c w of
        (r, w1) \<Rightarrow> (case test_cases j rigs p cs w1 of (rs, w2) \<Rightarrow> ((c_Name c, r) # rs, w2)))"

text \<open>
  The tries of \<open>waitReady\<close> until the limit, each answered or not; with a URL no request can be
  made for there are none.
\<close>

fun answered :: "bool \<Rightarrow> bool list \<Rightarrow> bool" where
  "answered failed [] \<longleftrightarrow> \<not> failed"
| "answered failed (ok # tries) \<longleftrightarrow> ok \<or> answered True tries"

definition waitReady :: "bool list option \<Rightarrow> bool" where
  "waitReady tries = (case tries of None \<Rightarrow> False | Some ts \<Rightarrow> answered False ts)"

record inputs =
  in_required :: bool
  in_short :: bool
  in_permitted :: "string option"
  in_permitted_yaml :: "string \<Rightarrow> PermittedDifference list option"
  in_compiles :: "string \<Rightarrow> bool"
  in_glob :: "string list option"
  in_ReadFile :: "string \<Rightarrow> string option"
  in_cases_yaml :: "string \<Rightarrow> Case list option"
  in_opens :: "string \<Rightarrow> bool"
  in_tries :: "string \<Rightarrow> string \<Rightarrow> bool list option"

datatype test_outcome =
    Skipped | PermittedFatal permit_error | CasesFatal load_error | PermitsFatal cross_error
  | NoDatabase string | NotAnswering string string | Ran "(string \<times> case_result) list"

definition backend_names :: "string list" where
  "backend_names = [''go'', ''kotlin'']"

definition used_profiles :: "Case list \<Rightarrow> string list" where
  "used_profiles cs = rev (remdups (rev (map ProfileOf cs)))"

definition TestConformance :: "judge \<Rightarrow> (string \<Rightarrow> ('g, 'r) rig \<times> ('k, 's) rig) \<Rightarrow> inputs \<Rightarrow> ('g, 'r) site \<times> ('k, 's) site \<Rightarrow>
    test_outcome \<times> ('g, 'r) site \<times> ('k, 's) site" where
  "TestConformance j rigs inp w =
     (if in_short inp \<and> \<not> in_required inp then (Skipped, w)
      else case LoadPermitted (jd_ulow j) (in_permitted inp) (in_permitted_yaml inp) of
        Inl e \<Rightarrow> (PermittedFatal e, w)
      | Inr p \<Rightarrow>
        (case Load_dir (jd_ufold j) (in_compiles inp) (in_glob inp) (in_ReadFile inp) (in_cases_yaml inp) of
           Inl e \<Rightarrow> (CasesFatal e, w)
         | Inr cs \<Rightarrow>
           (case CheckPermits cs p of
              Some e \<Rightarrow> (PermitsFatal e, w)
            | None \<Rightarrow>
              (case List.find (\<lambda>n. \<not> in_opens inp n) backend_names of
                 Some n \<Rightarrow> (if in_required inp then NoDatabase n else Skipped, w)
               | None \<Rightarrow>
                 (case List.find (\<lambda>(pr, n). \<not> waitReady (in_tries inp pr n)) (List.product (used_profiles cs) backend_names) of
                    Some (pr, n) \<Rightarrow> (if in_required inp then NotAnswering pr n else Skipped, w)
                  | None \<Rightarrow> (case test_cases j rigs p cs w of (rs, w') \<Rightarrow> (Ran rs, w')))))))"

section \<open>What a green run means\<close>

definition body_pinned :: "Expect \<Rightarrow> case_run \<Rightarrow> bool" where
  "body_pinned e r \<longleftrightarrow>
     (let body = an_body (run_resp r) in
      e_BodyEmpty e \<and> body = [] \<or> e_BodyRaw e \<noteq> [] \<and> body = e_BodyRaw e \<or>
      (\<exists>v x. e_BodyJSON e = Some v \<and> normalise v = Some x \<and> json_Unmarshal body = Some x) \<or>
      (\<exists>ref. run_ref r = Some ref \<and> an_body ref = body))"

text \<open>
  One run meets its case: the pinned status, headers, cookies, body and rows, and where the case
  names a request to compare with, the answer of that request.
\<close>

definition body_meets :: "Expect \<Rightarrow> string \<Rightarrow> bool" where
  "body_meets e body \<longleftrightarrow>
     (if e_BodyEmpty e then body = []
      else if e_BodyRaw e \<noteq> [] then body = e_BodyRaw e
      else \<forall>v. e_BodyJSON e = Some v \<longrightarrow> (\<exists>x. normalise v = Some x \<and> json_Unmarshal body = Some x))"

definition cookies_meet :: "judge \<Rightarrow> (string \<times> CookieExpect) list \<Rightarrow> answer \<Rightarrow> bool" where
  "cookies_meet j expected a \<longleftrightarrow>
     (\<exists>cookies. ParseSetCookies (jd_ulow j) (Values (an_headers a) ''Set-Cookie'') = Inr cookies \<and>
        (\<forall>(name, _) \<in> set expected. length (by_name cookies name) = 1) \<and>
        (\<forall>ck \<in> set cookies. \<exists>want. map_of expected (sc_Name ck) = Some want \<and>
           CheckCookie (jd_ParseTime j) (jd_ParseUnpadded j) (jd_matches j) (jd_render j) ck want
             (jd_ParseTime j (Get (an_headers a) ''Date'')) = Some []))"

definition rows_meet :: "RowsExpect \<Rightarrow> (string \<times> rowval) list list \<Rightarrow> bool" where
  "rows_meet q got \<longleftrightarrow>
     (\<exists>x. normalise (case re_Rows q of None \<Rightarrow> JNull | Some rows \<Rightarrow> JArray (map JObject rows)) = Some x \<and> rows_any got = Some x)"

definition same_answer :: "judge \<Rightarrow> answer \<Rightarrow> answer \<Rightarrow> bool" where
  "same_answer j a ref \<longleftrightarrow> an_status a = an_status ref \<and> an_body a = an_body ref \<and>
     (\<forall>n. CanonicalHeaderKey n = n \<longrightarrow> \<not> list_ex (\<lambda>h. EqualFold (jd_ufold j) h n) perResponseHeaders \<longrightarrow>
        Values (an_headers a) n = Values (an_headers ref) n)"

definition meets :: "judge \<Rightarrow> Expect \<Rightarrow> string \<Rightarrow> case_run \<Rightarrow> bool" where
  "meets j e backend r \<longleftrightarrow>
     an_status (run_resp r) = StatusFor e backend \<and>
     (\<forall>(name, v) \<in> set (e_Headers e). Get (an_headers (run_resp r)) name = v) \<and>
     (\<forall>expected. e_Cookies e = Some expected \<longrightarrow> cookies_meet j expected (run_resp r)) \<and>
     body_meets e (an_body (run_resp r)) \<and>
     list_all2 rows_meet (e_Rows e) (run_rows r) \<and>
     (SameAsRequest e backend \<noteq> None \<longrightarrow> (\<exists>ref. run_ref r = Some ref \<and> same_answer j (run_resp r) ref))"

text \<open>
  Two runs of a case conform: each meets the case, and the statuses are the same unless the case pins
  two; every header outside the permitted list has the same values, but for \<open>Set-Cookie\<close>, whose cookies
  agree name by name and attribute by attribute; the bodies are equal, or the case pins the body of
  Go's; and the databases hold the same rows, timestamps within two seconds.
\<close>

definition conforms :: "judge \<Rightarrow> PermittedSet \<Rightarrow> Case \<Rightarrow> case_run \<Rightarrow> case_run \<Rightarrow> bool" where
  "conforms j p c rg rk \<longleftrightarrow>
     (let e = c_Expect c; a = run_resp rg; b = run_resp rk; permitted = fst (ForCase (jd_ulow j) p c) in
      meets j e ''go'' rg \<and> meets j e ''kotlin'' rk \<and>
      (an_status a = an_status b \<or> e_StatusByBackend e \<noteq> None) \<and>
      (\<forall>n. CanonicalHeaderKey n = n \<longrightarrow> \<not> permitted n \<longrightarrow> \<not> EqualFold (jd_ufold j) n ''Set-Cookie'' \<longrightarrow>
         Values (an_headers a) n = Values (an_headers b) n) \<and>
      (\<not> permitted ''Set-Cookie'' \<longrightarrow>
         (\<exists>as bs. ParseSetCookies (jd_ulow j) (Values (an_headers a) ''Set-Cookie'') = Inr as \<and>
            ParseSetCookies (jd_ulow j) (Values (an_headers b) ''Set-Cookie'') = Inr bs \<and>
            cookies_agree (expiresRelation (jd_ParseTime j) (jd_ParseUnpadded j)) (jd_ParseTime j (Get (an_headers a) ''Date''))
              (jd_ParseTime j (Get (an_headers b) ''Date'')) as bs)) \<and>
      (equalBodies (an_body a) (an_body b) \<or> body_pinned e rg) \<and>
      snapshots_within (2 + 2 / 10 ^ 9) (run_state rg) (run_state rk))"

lemma expected_reports_green:
  assumes "green (expected_reports j c b r)"
  shows "green (assertExpected j c (run_resp r) b)" "\<And>ref. run_ref r = Some ref \<Longrightarrow> green (assertSameAs j (run_resp r) ref)"
    "green (assertRows c (run_rows r))"
proof -
  have row: "honest (assertRows c rs)" for rs
    unfolding assertRows_def by (rule in_turn_honest) (auto simp: assert_row_def split: option.split)
  have "honest (assertExpected j c (run_resp r) b)"
    unfolding assertExpected_def Let_def
    by (rule in_turn_honest) (auto simp: assert_headers_honest assert_body_honest assertCookies_honest split: option.splits)
  moreover have "honest (assertSameAs j a b)" for a b
    unfolding assertSameAs_def by (rule in_turn_honest) (auto simp: Let_def)
  ultimately have "\<forall>x \<in> set [assertExpected j c (run_resp r) b,
      (case run_ref r of None \<Rightarrow> ([], True) | Some ref \<Rightarrow> assertSameAs j (run_resp r) ref), assertRows c (run_rows r)]. green x"
    using assms unfolding expected_reports_def
    by (subst (asm) in_turn_green) (auto simp: row split: option.splits)
  then show "green (assertExpected j c (run_resp r) b)" "\<And>ref. run_ref r = Some ref \<Longrightarrow> green (assertSameAs j (run_resp r) ref)"
    "green (assertRows c (run_rows r))" by auto
qed

lemma parity_reports_green:
  assumes "green (parity_reports j p c rg rk)"
  shows "green (assertParity j p c (run_resp rg) (run_resp rk))" "snapshots_within (2 + 2 / 10 ^ 9) (run_state rg) (run_state rk)"
proof -
  have "honest (assertParity j p c a b)" for a b
    unfolding assertParity_def
    by (auto simp: header_parity_def Let_def cookie_lines_honest split: prod.split intro!: in_turn_honest)
  then have "green (assertParity j p c (run_resp rg) (run_resp rk))" "snapshots_agree (run_state rg) (run_state rk)"
    using assms unfolding parity_reports_def by (subst (asm) in_turn_green; auto simp: SnapshotParity_Nil)+
  then show "green (assertParity j p c (run_resp rg) (run_resp rk))" "snapshots_within (2 + 2 / 10 ^ 9) (run_state rg) (run_state rk)"
    by (blast intro: snapshots_agree_within(2))+
qed

lemma act_bind_Inr:
  assumes "act_bind m f w = (Inr y, w')"
  obtains x w1 where "m w = (Inr x, w1)" "f x w1 = (Inr y, w')"
  using assms by (auto simp: act_bind_def split: prod.splits sum.splits)

lemma runCase_ref:
  assumes "runCase ufold g p c w = (Inr r, w')"
  shows "run_ref r = None \<longleftrightarrow> SameAsRequest (c_Expect c) (rig_name g) = None"
proof -
  obtain w1 where "drive ufold g p c (w\<lparr>site_deferred := 0\<rparr>) = (Inr r, w1)"
    using assms by (auto simp: runCase_def split: prod.splits)
  then obtain ref w2 w3 where "reference ufold g c w2 = (Inr ref, w3)" "run_ref r = ref"
    unfolding drive_def by (elim act_bind_Inr) (auto split: prod.splits elim!: act_bind_Inr)
  then show ?thesis by (cases ref) (auto simp: reference_def act_bind_def split: option.splits prod.splits sum.splits)
qed

lemma case_rows_length: "case_rows g ts i qs = Inr rows \<Longrightarrow> length rows = length qs"
  by (induction qs arbitrary: i rows) (auto simp: res_bind_def split: sum.splits)

lemma runCase_rows:
  assumes "runCase ufold g p c w = (Inr r, w')"
  shows "length (run_rows r) = length (e_Rows (c_Expect c))"
proof -
  obtain w1 where "drive ufold g p c (w\<lparr>site_deferred := 0\<rparr>) = (Inr r, w1)"
    using assms by (auto simp: runCase_def split: prod.splits)
  then obtain rows snap w2 w3 where "observe g p c w2 = (Inr (rows, snap), w3)" "run_rows r = rows"
    unfolding drive_def by (elim act_bind_Inr) (auto split: prod.splits elim!: act_bind_Inr)
  then show ?thesis using case_rows_length by (auto simp: observe_def split: sum.splits option.splits)
qed

text \<open>No report against the case: the run meets it.\<close>

lemma assertRows_green:
  assumes "green (assertRows c got)" "length got = length (e_Rows (c_Expect c))"
  shows "list_all2 rows_meet (e_Rows (c_Expect c)) got"
proof -
  have "honest (assert_row x)" for x by (auto simp: assert_row_def split: option.split prod.split)
  then have "\<forall>x \<in> set (enumerate 0 (zip (e_Rows (c_Expect c)) got)). green (assert_row x)"
    using assms(1) unfolding assertRows_def by (subst (asm) in_turn_green) auto
  then have "green (assert_row (i, e_Rows (c_Expect c) ! i, got ! i))" if "i < length got" for i
    using that assms(2) by (force simp: in_set_enumerate_eq)
  moreover have "rows_meet q rows" if "green (assert_row (i, q, rows))" for i q rows
    using that by (auto simp: rows_meet_def assert_row_def split: option.splits)
  ultimately show ?thesis using assms(2) by (auto simp: list_all2_conv_all_nth)
qed

lemma expected_reports_meets:
  assumes "green (expected_reports j c backend r)" "runCase ufold g p c w = (Inr r, w')" "rig_name g = backend"
  shows "meets j (c_Expect c) backend r"
proof -
  note g = expected_reports_green [OF assms(1)]
  have "body_meets (c_Expect c) (an_body (run_resp r))"
    using g(1) by (auto simp: assertExpected_green assert_body_def body_meets_def split: if_splits option.splits)
  moreover have "cookies_meet j expected (run_resp r)" if "e_Cookies (c_Expect c) = Some expected" for expected
  proof -
    have "green (assertCookies j expected (run_resp r))" using g(1) that by (simp add: assertExpected_green)
    then show ?thesis unfolding cookies_meet_def by (rule assertCookies_green) blast
  qed
  moreover have "\<exists>ref. run_ref r = Some ref \<and> same_answer j (run_resp r) ref" if s: "SameAsRequest (c_Expect c) backend \<noteq> None"
  proof -
    obtain ref where "run_ref r = Some ref" using s runCase_ref [OF assms(2)] unfolding assms(3) by auto
    with assertSameAs_green [OF g(2) [OF this]] show ?thesis unfolding same_answer_def by blast
  qed
  ultimately show ?thesis
    using g(1) assertRows_green [OF g(3) runCase_rows [OF assms(2)]] by (simp add: meets_def assertExpected_green)
qed

lemma pinned_body:
  assumes "go_body_pinned e" "c_Expect c = e" "green (expected_reports j c ''go'' r)"
    and "run_ref r = None \<longleftrightarrow> SameAsRequest e ''go'' = None"
  shows "body_pinned e r"
proof (cases "run_ref r")
  case (Some ref)
  then have "an_body ref = an_body (run_resp r)"
    using expected_reports_green(2) [OF assms(3)] assertSameAs_green by metis
  then show ?thesis using Some by (simp add: body_pinned_def Let_def)
next
  case None
  have "green (assert_body e (an_body (run_resp r)))"
    using expected_reports_green(1) [OF assms(3)] assms(2) assertExpected_green by blast
  then show ?thesis using None assms(1,4)
    by (auto simp: body_pinned_def Let_def go_body_pinned_def assert_body_def split: if_splits option.splits)
qed

lemma test_case_conforms:
  assumes "test_case j go kotlin p c w = (([], None), w')"
    and "Load_dir (jd_ufold j) compiles glob ReadFile Unmarshal = Inr cs" "CheckPermits cs p = None" "c \<in> set cs"
  obtains rg rk where "fst (runCase (jd_ufold j) (go\<lparr>rig_name := ''go''\<rparr>) p c (fst w)) = Inr rg"
    "fst (runCase (jd_ufold j) (kotlin\<lparr>rig_name := ''kotlin''\<rparr>) p c (snd w)) = Inr rk" "conforms j p c rg rk"
proof -
  let ?e = "c_Expect c"
  obtain rg wg where g: "runCase (jd_ufold j) (go\<lparr>rig_name := ''go''\<rparr>) p c (fst w) = (Inr rg, wg)"
    using assms(1) by (auto simp: test_case_def split: prod.splits sum.splits)
  then obtain rk wk where k: "runCase (jd_ufold j) (kotlin\<lparr>rig_name := ''kotlin''\<rparr>) p c (snd w) = (Inr rk, wk)"
    using assms(1) by (auto simp: test_case_def split: prod.splits sum.splits)
  have rep: "green (expected_reports j c ''go'' rg)" "green (expected_reports j c ''kotlin'' rk)" "green (parity_reports j p c rg rk)"
    using assms(1) g k by (simp_all add: test_case_def green_def)
  have m: "meets j ?e ''go'' rg" "meets j ?e ''kotlin'' rk"
    using expected_reports_meets [OF rep(1) g] expected_reports_meets [OF rep(2) k] by simp_all
  obtain aH aB aS where f: "ForCase (jd_ulow j) p c = (aH, aB, aS)" using prod_cases3 by blast
  note par = assertParity_green [OF parity_reports_green(1) [OF rep(3)] f] and blind = no_blind_difference [OF assms(2-4) f]
  have "an_status (run_resp rg) = an_status (run_resp rk) \<or> e_StatusByBackend ?e \<noteq> None"
    using m by (auto simp: meets_def StatusFor_def)
  moreover have "equalBodies (an_body (run_resp rg)) (an_body (run_resp rk)) \<or> body_pinned ?e rg"
    using par blind pinned_body [OF _ refl rep(1)] runCase_ref [OF g] by (cases aB) simp_all
  ultimately have "conforms j p c rg rk"
    using m par parity_reports_green(2) [OF rep(3)] f by (simp add: conforms_def Let_def cookie_lines_green)
  then show thesis using that g k by simp
qed

text \<open>Through the whole run: every loaded case was driven, on both sides, from the state the one before left.\<close>

lemma test_cases_names: "test_cases j rigs p cs w = (rs, w') \<Longrightarrow> map fst rs = map c_Name cs"
  by (induction cs arbitrary: w rs) (auto split: prod.splits)

text \<open>The state the cases before one leave, which it starts from.\<close>

definition state_before :: "judge \<Rightarrow> (string \<Rightarrow> ('g, 'r) rig \<times> ('k, 's) rig) \<Rightarrow> PermittedSet \<Rightarrow> Case list \<Rightarrow>
    ('g, 'r) site \<times> ('k, 's) site \<Rightarrow> nat \<Rightarrow> ('g, 'r) site \<times> ('k, 's) site" where
  "state_before j rigs p cs w i = snd (test_cases j rigs p (take i cs) w)"

lemma state_before_Suc:
  "state_before j rigs p (c # cs) w (Suc i) =
     state_before j rigs p cs (snd (test_case j (fst (rigs (ProfileOf c))) (snd (rigs (ProfileOf c))) p c w)) i"
  by (simp add: state_before_def split: prod.split)

lemma test_cases_nth:
  assumes "test_cases j rigs p cs w = (rs, w')" "i < length cs" "c = cs ! i"
  shows "rs ! i = (c_Name c, fst (test_case j (fst (rigs (ProfileOf c))) (snd (rigs (ProfileOf c))) p c (state_before j rigs p cs w i)))"
  using assms
proof (induction cs arbitrary: w rs i)
  case (Cons d cs)
  obtain r w1 where t: "test_case j (fst (rigs (ProfileOf d))) (snd (rigs (ProfileOf d))) p d w = (r, w1)" by (metis surj_pair)
  obtain rs1 where u: "test_cases j rigs p cs w1 = (rs1, w')" "rs = (c_Name d, r) # rs1"
    using Cons.prems(1) t by (auto split: prod.splits)
  show ?case
  proof (cases i)
    case 0
    then show ?thesis using Cons.prems(3) t u(2) by (simp add: state_before_def)
  next
    case (Suc k)
    then show ?thesis using Cons.IH [OF u(1), of k] Cons.prems(2,3) t u(2) by (simp add: state_before_Suc)
  qed
qed simp

lemma TestConformance_Ran:
  assumes "TestConformance j rigs inp w = (Ran rs, w')"
  obtains p cs where "LoadPermitted (jd_ulow j) (in_permitted inp) (in_permitted_yaml inp) = Inr p"
    "Load_dir (jd_ufold j) (in_compiles inp) (in_glob inp) (in_ReadFile inp) (in_cases_yaml inp) = Inr cs"
    "CheckPermits cs p = None" "test_cases j rigs p cs w = (rs, w')"
  using assms by (auto simp: TestConformance_def split: if_splits sum.splits option.splits prod.splits)

text \<open>A run that is required either takes place or fails.\<close>

lemma required_never_skipped: "in_required inp \<Longrightarrow> fst (TestConformance j rigs inp w) \<noteq> Skipped"
  by (auto simp: TestConformance_def split: sum.split option.split prod.split)

text \<open>
  C36. A green run means conformance: when the run took place and no case has a report or a setup
  that failed, then every loaded case was driven against both backends, each from the state the
  cases before it left, and there both runs meet what the case expects, and the two answers have
  the pinned statuses, the same headers but for the permitted ones, cookies that agree attribute by
  attribute, and equal bodies or Go's pinned by the case, and the two databases ended with the same
  rows, their timestamps within two seconds.
\<close>

theorem green_run_conforms:
  assumes "TestConformance j rigs inp w = (Ran results, w')" "\<forall>x \<in> set results. snd x = ([], None)"
  shows "\<exists>p cs. LoadPermitted (jd_ulow j) (in_permitted inp) (in_permitted_yaml inp) = Inr p \<and>
    Load_dir (jd_ufold j) (in_compiles inp) (in_glob inp) (in_ReadFile inp) (in_cases_yaml inp) = Inr cs \<and>
    map fst results = map c_Name cs \<and>
    (\<forall>i < length cs. let c = cs ! i; v = state_before j rigs p cs w i in \<exists>rg rk.
       fst (runCase (jd_ufold j) ((fst (rigs (ProfileOf c)))\<lparr>rig_name := ''go''\<rparr>) p c (fst v)) = Inr rg \<and>
       fst (runCase (jd_ufold j) ((snd (rigs (ProfileOf c)))\<lparr>rig_name := ''kotlin''\<rparr>) p c (snd v)) = Inr rk \<and>
       conforms j p c rg rk)"
proof -
  from assms(1) obtain p cs where l: "LoadPermitted (jd_ulow j) (in_permitted inp) (in_permitted_yaml inp) = Inr p"
      "Load_dir (jd_ufold j) (in_compiles inp) (in_glob inp) (in_ReadFile inp) (in_cases_yaml inp) = Inr cs"
      "CheckPermits cs p = None" and t: "test_cases j rigs p cs w = (results, w')"
    by (rule TestConformance_Ran)
  note names = test_cases_names [OF t]
  have "\<exists>rg rk. fst (runCase (jd_ufold j) ((fst (rigs (ProfileOf c)))\<lparr>rig_name := ''go''\<rparr>) p c (fst v)) = Inr rg \<and>
       fst (runCase (jd_ufold j) ((snd (rigs (ProfileOf c)))\<lparr>rig_name := ''kotlin''\<rparr>) p c (snd v)) = Inr rk \<and>
       conforms j p c rg rk" if i: "i < length cs" "c = cs ! i" "v = state_before j rigs p cs w i" for i c v
  proof -
    have "i < length results" using i(1) map_eq_imp_length_eq [OF names] by simp
    then have "snd (results ! i) = ([], None)" using assms(2) by simp
    then obtain v' where "test_case j (fst (rigs (ProfileOf c))) (snd (rigs (ProfileOf c))) p c v = (([], None), v')"
      unfolding test_cases_nth [OF t i(1,2)] i(3) by (metis prod.collapse snd_conv)
    from test_case_conforms [OF this l(2,3)] i show ?thesis by (metis nth_mem)
  qed
  then have "\<forall>i < length cs. let c = cs ! i; v = state_before j rigs p cs w i in \<exists>rg rk.
       fst (runCase (jd_ufold j) ((fst (rigs (ProfileOf c)))\<lparr>rig_name := ''go''\<rparr>) p c (fst v)) = Inr rg \<and>
       fst (runCase (jd_ufold j) ((snd (rigs (ProfileOf c)))\<lparr>rig_name := ''kotlin''\<rparr>) p c (snd v)) = Inr rk \<and>
       conforms j p c rg rk" unfolding Let_def by blast
  with l(1,2) names show ?thesis by blast
qed

section \<open>The database is given back\<close>

text \<open>The database accepts connections, or a deferred restoration is due.\<close>

definition safe :: "('b, 'r) rig \<Rightarrow> ('b, 'r) site \<Rightarrow> bool" where
  "safe g w \<longleftrightarrow> srv_allow (site_server w) (db_name (rig_db g)) \<or> 0 < site_deferred w"

text \<open>
  What every part of a case keeps: as long as restoring works, it stays safe, unless taking the
  database away failed halfway; and nobody is shut out of another database.
\<close>

definition tends :: "('b, 'r) rig \<Rightarrow> ('b, 'r, 'a) act \<Rightarrow> bool" where
  "tends g m \<longleftrightarrow> (\<forall>w res w'. m w = (res, w') \<longrightarrow> site_restores w = [] \<longrightarrow>
     site_restores w' = [] \<and> (safe g w \<longrightarrow> safe g w' \<or> (\<exists>i. res = Inl (OutageFault i))) \<and>
     (\<forall>n. n \<noteq> db_name (rig_db g) \<longrightarrow> srv_allow (site_server w') n = srv_allow (site_server w) n))"

lemma tendsD:
  assumes "tends g m" "m w = (res, w')" "site_restores w = []"
  shows "site_restores w' = []" "safe g w \<Longrightarrow> safe g w' \<or> (\<exists>i. res = Inl (OutageFault i))"
    "n \<noteq> db_name (rig_db g) \<Longrightarrow> srv_allow (site_server w') n = srv_allow (site_server w) n"
  using assms unfolding tends_def by blast+

lemma tends_bind:
  assumes "tends g m" "\<And>x. tends g (f x)"
  shows "tends g (act_bind m f)"
  unfolding tends_def
proof (intro allI impI)
  fix w res w' assume b: "act_bind m f w = (res, w')" "site_restores w = []"
  obtain r1 w1 where m: "m w = (r1, w1)" by force
  note t = tendsD [OF assms(1) m b(2)]
  show "site_restores w' = [] \<and> (safe g w \<longrightarrow> safe g w' \<or> (\<exists>i. res = Inl (OutageFault i))) \<and>
     (\<forall>n. n \<noteq> db_name (rig_db g) \<longrightarrow> srv_allow (site_server w') n = srv_allow (site_server w) n)"
  proof (cases r1)
    case (Inl e)
    then show ?thesis using b m t by (auto simp: act_bind_def)
  next
    case (Inr x)
    then have "f x w1 = (res, w')" using b(1) m by (simp add: act_bind_def)
    from tendsD [OF assms(2) this t(1)] t Inr show ?thesis by auto
  qed
qed

lemma tends_pure:
  assumes "\<And>w. site_server (snd (m w)) = site_server w \<and> site_deferred (snd (m w)) = site_deferred w \<and>
    site_restores (snd (m w)) = site_restores w"
  shows "tends g m"
  unfolding tends_def safe_def by (metis assms snd_conv)

lemma tends_return: "tends g (Pair r)"
  by (rule tends_pure) simp

lemma fails_frame:
  "fails w = (b, w') \<Longrightarrow> site_server w' = site_server w \<and> site_deferred w' = site_deferred w \<and> site_restores w' = site_restores w"
  by (auto simp: fails_def split: list.splits)

lemma tends_reset: "tends g (do_reset g)"
  by (rule tends_pure) (auto simp: do_reset_def split: prod.splits option.splits dest!: fails_frame)

lemma tends_outage: "tends g (do_outage g i)"
  unfolding tends_def
  by (auto simp: do_outage_def safe_def Outage_def admin_exec_def allow_connections_def terminate_backends_def
      split: prod.splits bool.splits if_splits dest!: fails_frame)

lemma tends_request: "tends g (do_request ufold g fault r)"
  unfolding tends_def safe_def do_request_def by (auto split: sum.splits prod.splits)

lemma tends_wait: "tends g (do_wait_healthy g)"
  unfolding tends_def safe_def do_wait_healthy_def by (auto split: prod.splits)

lemma try_restore_open:
  assumes "try_restore g w = (ok, w')" "site_restores w = []"
  shows "ok" "srv_allow (site_server w') (db_name (rig_db g))" "site_restores w' = []" "site_deferred w' = site_deferred w"
    "n \<noteq> db_name (rig_db g) \<Longrightarrow> srv_allow (site_server w') n = srv_allow (site_server w) n"
  using assms by (auto simp: try_restore_def Restore_def admin_exec_def allow_connections_def)

lemma tends_restore: "tends g (do_restore g)"
  unfolding tends_def safe_def do_restore_def
  by (auto split: prod.splits simp: try_restore_open)

lemma tends_given: "tends g (given_step ufold g i st)"
proof -
  have "tends g (\<lambda>w. case Exec (rig_sql g) (s_SQL st) (site_tables w) of
      (False, _) \<Rightarrow> (Inl (SQLFault i), w) | (True, ts) \<Rightarrow> (Inr (), w\<lparr>site_tables := ts\<rparr>))"
    by (rule tends_pure) (simp split: prod.split bool.split)
  then show ?thesis
    by (auto simp: given_step_def split: option.split intro!: tends_bind tends_request tends_outage tends_return)
qed

lemma tends_steps: "tends g (given_steps ufold g i sts)"
proof (induction sts arbitrary: i)
  case Nil
  show ?case by (rule tends_pure) simp
next
  case (Cons st sts)
  have "given_steps ufold g i (st # sts) = act_bind (given_step ufold g i st) (\<lambda>_. given_steps ufold g (Suc i) sts)"
    by (simp add: fun_eq_iff)
  then show ?case using tends_bind [OF tends_given Cons.IH] by simp
qed

lemma tends_drive: "tends g (drive ufold g p c)"
proof -
  have "tends g (observe g p c)" by (rule tends_pure) (simp add: observe_def split: sum.split option.split)
  moreover have "tends g (reference ufold g c)"
    by (auto simp: reference_def split: option.split intro!: tends_bind tends_request tends_return)
  ultimately show ?thesis
    unfolding drive_def
    by (auto intro!: tends_bind tends_reset tends_steps tends_request tends_restore tends_wait tends_return split: prod.split)
qed

lemma restores_open:
  assumes "site_restores w = []"
  shows "site_restores (((\<lambda>x. snd (try_restore g x)) ^^ n) w) = [] \<and>
    (0 < n \<longrightarrow> srv_allow (site_server (((\<lambda>x. snd (try_restore g x)) ^^ n) w)) (db_name (rig_db g))) \<and>
    (\<forall>m. m \<noteq> db_name (rig_db g) \<longrightarrow>
      srv_allow (site_server (((\<lambda>x. snd (try_restore g x)) ^^ n) w)) m = srv_allow (site_server w) m)"
proof (induction n)
  case (Suc n)
  let ?v = "((\<lambda>x. snd (try_restore g x)) ^^ n) w"
  obtain ok v' where r: "try_restore g ?v = (ok, v')" by force
  from try_restore_open [OF r] Suc r show ?case by simp
qed (simp add: assms)

text \<open>
  C37. A case gives its database back: whatever step, request, query or snapshot fails on the way,
  where restoring works the database accepts connections again after the case, unless taking it
  away was what failed; and no other database is ever closed.
\<close>

theorem case_gives_database_back:
  assumes "runCase ufold g p c w = (res, w')" "site_restores w = []"
    and "srv_allow (site_server w) (db_name (rig_db g))"
  shows "(srv_allow (site_server w') (db_name (rig_db g)) \<or> (\<exists>i. res = Inl (OutageFault i))) \<and>
    (\<forall>n. n \<noteq> db_name (rig_db g) \<longrightarrow> srv_allow (site_server w') n = srv_allow (site_server w) n)"
proof -
  obtain v where d: "drive ufold g p c (w\<lparr>site_deferred := 0\<rparr>) = (res, v)"
    and w': "w' = ((\<lambda>x. snd (try_restore g x)) ^^ site_deferred v) v"
    using assms(1) by (auto simp: runCase_def split: prod.splits)
  note t = tendsD [OF tends_drive d]
  have "safe g v \<or> (\<exists>i. res = Inl (OutageFault i))" using t(2) assms(2,3) by (simp add: safe_def)
  moreover have "srv_allow (site_server w') (db_name (rig_db g))" if "safe g v"
    using that restores_open [of v "site_deferred v" g] t(1) assms(2)
    by (cases "site_deferred v") (auto simp: w' safe_def)
  ultimately show ?thesis using restores_open [of v "site_deferred v" g] t(1,3) assms(2) w' by auto
qed

section \<open>A small run\<close>

text \<open>A backend that answers 200 to everything, its database with one empty table.\<close>

definition plain_answer :: answer where
  "plain_answer = \<lparr>an_status = 200, an_headers = [], an_body = []\<rparr>"

definition plain_site :: "(unit, unit) site" where
  "plain_site = \<lparr>site_backend = (), site_tables = [(''users'', [])],
     site_server = \<lparr>srv_allow = (\<lambda>_. True), srv_activity = [(1, ''go''), (2, ''postgres'')]\<rparr>,
     site_script = [], site_restores = [], site_deferred = 0\<rparr>"

definition plain_rig :: "(unit, unit) rig" where
  "plain_rig = \<lparr>rig_name = [], rig_baseURL = ''http://localhost/api'', rig_db = \<lparr>db_pid = 1, db_admin = 2, db_name = ''go''\<rparr>,
     rig_seed = Some [], rig_sql = (\<lambda>_ ts. Some ts), rig_client = id,
     rig_exchange = (\<lambda>_ w. (Some plain_answer, (), site_tables w, srv_activity (site_server w))),
     rig_health = (\<lambda>w. ([Some 200], (), srv_activity (site_server w))),
     rig_rows = (\<lambda>_ _. None), rig_catalogue = (\<lambda>_. \<lparr>cat_tables = Some [], cat_columns = (\<lambda>_. None), cat_select = (\<lambda>_. None)\<rparr>),
     rig_Sanitize = id, rig_sortSlice = id, rig_new_request = (\<lambda>_ _. True), rig_base_path = Some\<rparr>"

definition plain_judge :: judge where
  "plain_judge = \<lparr>jd_ulow = id, jd_ufold = id, jd_ParseTime = (\<lambda>_. None), jd_ParseUnpadded = (\<lambda>_. None),
     jd_matches = (\<lambda>_ _. Some True), jd_render = (\<lambda>_. [])\<rparr>"

definition plain_inputs :: inputs where
  "plain_inputs = \<lparr>in_required = True, in_short = False, in_permitted = Some [], in_permitted_yaml = (\<lambda>_. Some []),
     in_compiles = (\<lambda>_. True), in_glob = Some [''cases/health.yaml''], in_ReadFile = (\<lambda>_. Some []),
     in_cases_yaml = (\<lambda>_. Some [health_case ''b'', health_case ''a'']), in_opens = (\<lambda>_. True), in_tries = (\<lambda>_ _. Some [False, True])\<rparr>"

lemmas plain_defs = plain_answer_def plain_site_def plain_rig_def plain_judge_def plain_inputs_def

lemmas drive_defs = runCase_def drive_def act_bind_def do_reset_def fails_def Reset_def db_tables_def truncate_tables_def
  migrationHistory_def do_request_def build_request_def request_target_def do_restore_def try_restore_def Restore_def
  admin_exec_def allow_connections_def observe_def take_Snapshot_def reference_def

definition plain_case :: "string \<Rightarrow> Case" where
  "plain_case n = (health_case n)\<lparr>c_SourceFile := ''health.yaml''\<rparr>"

lemma plain_case_simps [simp]:
  "c_Name (plain_case n) = n" "c_Given (plain_case n) = []" "c_Expect (plain_case n) = c_Expect (health_case n)"
  "c_Request (plain_case n) = c_Request (health_case n)" "c_Permit (plain_case n) = []" "ProfileOf (plain_case n) = ''default''"
  by (simp_all add: plain_case_def health_case_def ProfileOf_def ProfileDefault_def)

lemma plain_run:
  "runCase id (plain_rig\<lparr>rig_name := b\<rparr>) p (plain_case n) plain_site =
     (Inr \<lparr>run_resp = plain_answer, run_ref = None, run_rows = [], run_state = []\<rparr>, plain_site)"
  by (simp add: drive_defs plain_defs health_case_def Let_def HasPrefix_def entries_def SameAsRequest_def fun_upd_idem)

lemma plain_test:
  "test_case plain_judge plain_rig plain_rig p (plain_case n) (plain_site, plain_site) = (([], None), plain_site, plain_site)"
proof -
  have j: "jd_ufold plain_judge = id" by (simp add: plain_judge_def)
  show ?thesis unfolding test_case_def fst_conv snd_conv j plain_run
    by (simp add: expected_reports_def parity_reports_def assertExpected_def assertParity_def assertRows_def in_turn_def and_then_def
        errorf_def assert_body_def header_names_def cookie_lines_parity_def Values_def CookieParity_def SnapshotParity_def
        plain_answer_def health_case_def StatusFor_def equalBodies_def Let_def split: prod.split)
qed

theorem green_run_conforms_witness:
  "\<exists>results w' rg rk p. TestConformance plain_judge (\<lambda>_. (plain_rig, plain_rig)) plain_inputs (plain_site, plain_site) = (Ran results, w') \<and>
     map fst results = [''b'', ''a''] \<and>
     fst (runCase id (plain_rig\<lparr>rig_name := ''go''\<rparr>) p (plain_case ''a'') plain_site) = Inr rg \<and>
     fst (runCase id (plain_rig\<lparr>rig_name := ''kotlin''\<rparr>) p (plain_case ''a'') plain_site) = Inr rk \<and>
     conforms plain_judge p (plain_case ''a'') rg rk"
proof -
  let ?p = "\<lparr>byHeader = [], byName = [], byColumn = []\<rparr>"
  let ?run = "TestConformance plain_judge (\<lambda>_. (plain_rig, plain_rig)) plain_inputs (plain_site, plain_site)"
  have j: "jd_ulow plain_judge = id" "jd_ufold plain_judge = id" by (simp_all add: plain_judge_def)
  have cs: "Load_dir id (in_compiles plain_inputs) (in_glob plain_inputs) (in_ReadFile plain_inputs) (in_cases_yaml plain_inputs) =
      Inr [plain_case ''b'', plain_case ''a'']"
    using two_cases_eq by (simp add: two_cases_def plain_inputs_def plain_case_def)
  have p: "LoadPermitted id (in_permitted plain_inputs) (in_permitted_yaml plain_inputs) = Inr ?p"
    by (simp add: LoadPermitted_def plain_inputs_def)
  have k: "CheckPermits [plain_case ''b'', plain_case ''a''] ?p = None"
    by (simp add: CheckPermits_def case_check_def health_case_def Let_def)
  have run: "?run = (Ran [(''b'', [], None), (''a'', [], None)], plain_site, plain_site)"
    unfolding TestConformance_def j cs p sum.case k option.case
    by (simp add: plain_test backend_names_def used_profiles_def waitReady_def plain_inputs_def)
  let ?cs = "[plain_case ''b'', plain_case ''a'']"
  have green: "\<forall>x \<in> set [(''b'', [] :: report list, None :: (string \<times> step_fault) option), (''a'', [], None)]. snd x = ([], None)" by simp
  from green_run_conforms [OF run green, unfolded j fst_conv snd_conv] obtain p' cs' where
    l: "Load_dir id (in_compiles plain_inputs) (in_glob plain_inputs) (in_ReadFile plain_inputs) (in_cases_yaml plain_inputs) = Inr cs'"
    and r': "\<forall>i < length cs'. let c = cs' ! i; v = state_before plain_judge (\<lambda>_. (plain_rig, plain_rig)) p' cs' (plain_site, plain_site) i
      in \<exists>rg rk. fst (runCase id (plain_rig\<lparr>rig_name := ''go''\<rparr>) p' c (fst v)) = Inr rg \<and>
        fst (runCase id (plain_rig\<lparr>rig_name := ''kotlin''\<rparr>) p' c (snd v)) = Inr rk \<and> conforms plain_judge p' c rg rk"
    by (elim exE conjE)
  have "cs' = ?cs" using l cs by simp
  note r = r' [unfolded this]
  have "state_before plain_judge (\<lambda>_. (plain_rig, plain_rig)) p' ?cs (plain_site, plain_site) 1 = (plain_site, plain_site)"
    by (simp add: state_before_def plain_test)
  with r [rule_format, of 1] obtain rg rk where a: "fst (runCase id (plain_rig\<lparr>rig_name := ''go''\<rparr>) p' (plain_case ''a'') plain_site) = Inr rg"
      "fst (runCase id (plain_rig\<lparr>rig_name := ''kotlin''\<rparr>) p' (plain_case ''a'') plain_site) = Inr rk"
      "conforms plain_judge p' (plain_case ''a'') rg rk" by (auto simp: Let_def)
  show ?thesis by (intro exI conjI) (rule run, simp, (rule a)+)
qed

text \<open>A case that takes the database away.\<close>

definition outage_case :: Case where
  "outage_case = (plain_case ''o'')\<lparr>c_Given := [\<lparr>s_Request = None, s_Status = 0, s_SQL = [], s_Outage = True\<rparr>]\<rparr>"

lemmas outage_defs = outage_case_def given_step_def do_outage_def Outage_def terminate_backends_def do_wait_healthy_def

theorem case_gives_database_back_witness:
  "\<exists>r w'. runCase id plain_rig \<lparr>byHeader = [], byName = [], byColumn = []\<rparr> outage_case plain_site = (Inr r, w') \<and> srv_allow (site_server w') ''go''"
proof -
  obtain r w' where r: "runCase id plain_rig \<lparr>byHeader = [], byName = [], byColumn = []\<rparr> outage_case plain_site = (Inr r, w')"
    by (simp add: outage_defs drive_defs plain_defs plain_case_def health_case_def Let_def HasPrefix_def entries_def SameAsRequest_def)
  have w: "site_restores plain_site = []" "srv_allow (site_server plain_site) (db_name (rig_db plain_rig))"
    by (simp_all add: plain_site_def)
  have n: "db_name (rig_db plain_rig) = ''go''" by (simp add: plain_rig_def)
  show ?thesis using case_gives_database_back [OF r w] r unfolding n by auto
qed

text \<open>
  The exception is real: when the statement that ends the connections fails, after the one that
  closed the database, no restoration is due yet and the case leaves the database closed.
\<close>

lemma half_outage_stays:
  "fst (runCase id plain_rig p outage_case (plain_site\<lparr>site_script := [False, False, False, True]\<rparr>)) = Inl (OutageFault 0)"
  "\<not> srv_allow (site_server (snd (runCase id plain_rig p outage_case (plain_site\<lparr>site_script := [False, False, False, True]\<rparr>)))) ''go''"
  by (simp_all add: outage_defs drive_defs plain_defs plain_case_def health_case_def Let_def)

section \<open>The reference request\<close>

text \<open>
  What the \<open>same_as\<close> request does is not observed: without it the case has the same answer, the
  same rows and the same snapshot.
\<close>

definition front :: "(nat \<Rightarrow> nat) \<Rightarrow> ('b, 'r) rig \<Rightarrow> PermittedSet \<Rightarrow> Case \<Rightarrow> ('b, 'r, answer \<times> (string \<times> rowval) list list list \<times> Snapshot) act" where
  "front ufold g p c =
     act_bind (do_reset g) (\<lambda>_.
     act_bind (given_steps ufold g 0 (c_Given c)) (\<lambda>_.
     act_bind (do_request ufold g CaseRequestFault (c_Request c)) (\<lambda>resp.
     act_bind (do_restore g) (\<lambda>_.
     act_bind (if list_ex s_Outage (c_Given c) then do_wait_healthy g else (\<lambda>w. (Inr (), w))) (\<lambda>_.
     act_bind (observe g p c) (\<lambda>(rows, snap) w. (Inr (resp, rows, snap), w)))))))"

lemma act_bind_assoc: "act_bind (act_bind m f) h = act_bind m (\<lambda>x. act_bind (f x) h)"
  by (simp add: act_bind_def fun_eq_iff split: prod.split sum.split)

lemma act_bind_return: "act_bind (Pair (Inr x)) f = f x"
  by (simp add: act_bind_def fun_eq_iff)

lemma drive_front:
  "drive ufold g p c = act_bind (front ufold g p c) (\<lambda>(resp, rows, snap).
     act_bind (reference ufold g c) (\<lambda>ref w. (Inr \<lparr>run_resp = resp, run_ref = ref, run_rows = rows, run_state = snap\<rparr>, w)))"
  unfolding drive_def front_def act_bind_assoc by (simp add: case_prod_unfold act_bind_return)

definition without_same_as :: "Case \<Rightarrow> Case" where
  "without_same_as c = c\<lparr>c_Expect := (c_Expect c)\<lparr>e_SameAs := None, e_SameAsFor := []\<rparr>\<rparr>"

lemma without_same_as_simps:
  "c_Given (without_same_as c) = c_Given c" "c_Request (without_same_as c) = c_Request c"
  "observe g p (without_same_as c) = observe g p c" "reference ufold g (without_same_as c) = Pair (Inr None)"
  by (simp_all add: observe_def reference_def without_same_as_def SameAsRequest_def fun_eq_iff)

lemma front_without_same_as: "front ufold g p (without_same_as c) = front ufold g p c"
  by (simp only: front_def without_same_as_simps)

lemma same_as_not_observed:
  assumes "runCase ufold g p c w = (Inr r, w')"
  shows "fst (runCase ufold g p (without_same_as c) w) = Inr (r\<lparr>run_ref := None\<rparr>)"
proof -
  let ?w = "w\<lparr>site_deferred := 0\<rparr>"
  obtain v where "drive ufold g p c ?w = (Inr r, v)" using assms by (auto simp: runCase_def split: prod.splits)
  then obtain resp rows snap w1 where f: "front ufold g p c ?w = (Inr (resp, rows, snap), w1)"
    and "act_bind (reference ufold g c) (\<lambda>ref w. (Inr \<lparr>run_resp = resp, run_ref = ref, run_rows = rows, run_state = snap\<rparr>, w)) w1 = (Inr r, v)"
    unfolding drive_front by (elim act_bind_Inr) (auto split: prod.splits)
  then have "r\<lparr>run_ref := None\<rparr> = \<lparr>run_resp = resp, run_ref = None, run_rows = rows, run_state = snap\<rparr>"
    by (auto elim!: act_bind_Inr)
  moreover have "drive ufold g p (without_same_as c) ?w =
      (Inr \<lparr>run_resp = resp, run_ref = None, run_rows = rows, run_state = snap\<rparr>, w1)"
    unfolding drive_front front_without_same_as without_same_as_simps act_bind_return by (simp add: act_bind_def f)
  ultimately show ?thesis by (simp add: runCase_def)
qed

end
