(* ===== verification/Trajectory.thy ===== *)
theory Trajectory
  imports Afloat_Prelude
begin

text \<open>
  The daily-bucket spending trajectory (\<open>backend/internal/trajectory\<close>): rounding to four
  decimal places, \<open>Calculate\<close>, \<open>decideState\<close> and the mid-period target line.

  \<open>math/big\<close>'s rationals are HOL's \<open>rat\<close>. The decimal library (shopspring/decimal) is a
  parameter: \<open>decimal_ops\<close> holds the operations the package calls and \<open>decimal_laws\<close> what
  their documentation promises.
\<close>

section \<open>Decimals: the library the package calls\<close>

record 'd decimal_ops =
  dec_Rat :: "'d \<Rightarrow> rat"
  dec_Sub :: "'d \<Rightarrow> 'd \<Rightarrow> 'd"
  dec_NewFromBigInt :: "int \<Rightarrow> int \<Rightarrow> 'd"
  dec_NewFromInt :: "int \<Rightarrow> 'd"

definition decimal_laws :: "'d decimal_ops \<Rightarrow> bool" where
  "decimal_laws dl \<longleftrightarrow>
     (\<forall>a b. dec_Rat dl (dec_Sub dl a b) = dec_Rat dl a - dec_Rat dl b) \<and>
     (\<forall>v e. dec_Rat dl (dec_NewFromBigInt dl v e) = of_int v * 10 powi e) \<and>
     (\<forall>n. dec_Rat dl (dec_NewFromInt dl n) = of_int n)"

section \<open>Rounding to four decimal places\<close>

definition scale4 :: int where
  "scale4 = 10000"

text \<open>
  The integer numbers of 1/10000 the two rounding functions hand to \<open>NewFromBigInt\<close>.
  \<open>big.Int.QuoRem\<close> is truncated division, \<open>sdiv\<close> and \<open>smod\<close>.
\<close>

definition floor_units :: "rat \<Rightarrow> int" where
  "floor_units r =
     (let (num, den) = quotient_of (r * of_int scale4);
          q = num sdiv den; m = num smod den
      in if m \<noteq> 0 \<and> num < 0 then q - 1 else q)"

definition half_up_units :: "rat \<Rightarrow> int" where
  "half_up_units r =
     (let (num, den) = quotient_of (r * of_int scale4);
          q = num sdiv den; m = num smod den
      in if \<bar>m\<bar> * 2 \<ge> den then (if num \<ge> 0 then q + 1 else q - 1) else q)"

definition floorAt4dp :: "'d decimal_ops \<Rightarrow> rat \<Rightarrow> 'd" where
  "floorAt4dp dl r = dec_NewFromBigInt dl (floor_units r) (-4)"

definition halfUpAt4dp :: "'d decimal_ops \<Rightarrow> rat \<Rightarrow> 'd" where
  "halfUpAt4dp dl r = dec_NewFromBigInt dl (half_up_units r) (-4)"

section \<open>Data\<close>

type_synonym mode = string
type_synonym state = string

definition ModeAdaptive :: mode where "ModeAdaptive = ''adaptive''"
definition ModeFixed :: mode where "ModeFixed = ''fixed''"

definition StateAfloat :: state where "StateAfloat = ''afloat''"
definition StateDrifting :: state where "StateDrifting = ''drifting''"
definition StateTakingOnWater :: state where "StateTakingOnWater = ''taking_on_water''"

lemmas state_mode_defs =
  ModeAdaptive_def ModeFixed_def StateAfloat_def StateDrifting_def StateTakingOnWater_def

record 'd Parameters =
  WarmUpDays :: int
  DriftingBelow :: 'd
  TakingOnWaterBelow :: 'd

definition DefaultParameters :: "'d decimal_ops \<Rightarrow> 'd Parameters" where
  "DefaultParameters dl =
     \<lparr>WarmUpDays = 3, DriftingBelow = dec_NewFromInt dl (-1),
      TakingOnWaterBelow = dec_NewFromInt dl (-3)\<rparr>"

record 'd Inputs =
  DailyPool :: 'd
  PeriodDays :: int
  DaysElapsed :: int
  SettledSpend :: 'd
  TodaySpend :: 'd
  FutureSpend :: 'd
  Mode :: mode
  Params :: "'d Parameters"

record 'd Figures =
  BaselineDailyBudget :: 'd
  AvailablePool :: 'd
  TodaysAllowance :: 'd
  LeftToSpendToday :: 'd
  ForwardDailyRate :: "'d option"
  TrajectoryVariance :: 'd
  BufferDays :: 'd
  State :: state

datatype traj_error =
    PeriodDaysNotPositive int
  | NoDaysRemaining int int
  | UnknownMode mode
  | ZeroBaseline
  | EffectiveDayOutOfRange int int
  | DivisionByZero

section \<open>Calculate\<close>

text \<open>\<open>big.Rat.Quo\<close> panics on a zero divisor.\<close>

definition rat_Quo :: "rat \<Rightarrow> rat \<Rightarrow> traj_error + rat" where
  "rat_Quo a b = (if b = 0 then Inl DivisionByZero else Inr (a / b))"

definition decideState ::
  "'d decimal_ops \<Rightarrow> int \<Rightarrow> 'd Parameters \<Rightarrow> rat \<Rightarrow> rat \<Rightarrow> state" where
  "decideState dl daysElapsed params v b =
     (if daysElapsed < WarmUpDays params then StateAfloat
      else
        let driftingThreshold = dec_Rat dl (DriftingBelow params) * b;
            takingOnWaterThreshold = dec_Rat dl (TakingOnWaterBelow params) * b
        in if v \<ge> driftingThreshold then StateAfloat
           else if v \<ge> takingOnWaterThreshold then StateDrifting
           else StateTakingOnWater)"

definition Calculate :: "'d decimal_ops \<Rightarrow> 'd Inputs \<Rightarrow> traj_error + 'd Figures" where
  "Calculate dl inp =
    (if PeriodDays inp \<le> 0 then Inl (PeriodDaysNotPositive (PeriodDays inp))
     else let r = wrap64 (PeriodDays inp - DaysElapsed inp) in
     if r \<le> 0 then Inl (NoDaysRemaining (DaysElapsed inp) (PeriodDays inp))
     else if Mode inp \<noteq> ModeAdaptive \<and> Mode inp \<noteq> ModeFixed then Inl (UnknownMode (Mode inp))
     else
       let p = dec_Rat dl (DailyPool inp);
           d = of_int (PeriodDays inp);
           e = of_int (DaysElapsed inp);
           rRat = of_int r;
           sSettled = dec_Rat dl (SettledSpend inp);
           sToday = dec_Rat dl (TodaySpend inp);
           sFuture = dec_Rat dl (FutureSpend inp)
       in res_bind (rat_Quo p d) (\<lambda>b.
       if sgn b = 0 then Inl ZeroBaseline
       else
         let pPrime = p - sFuture in
         res_bind (if Mode inp = ModeFixed then Inr b
                   else rat_Quo (pPrime - sSettled) rRat) (\<lambda>a.
         let aFloored = floorAt4dp dl a;
             left = dec_Sub dl aFloored (TodaySpend inp) in
         res_bind (if r > 1
                   then res_bind (rat_Quo ((pPrime - sSettled) - sToday) (of_int (r - 1)))
                          (\<lambda>fwd. Inr (Some (floorAt4dp dl fwd)))
                   else Inr None) (\<lambda>forwardRate.
         let v = b * e - sSettled in
         res_bind (rat_Quo v b) (\<lambda>buffer.
         Inr \<lparr>BaselineDailyBudget = floorAt4dp dl b,
              AvailablePool = dec_Sub dl (DailyPool inp) (FutureSpend inp),
              TodaysAllowance = aFloored,
              LeftToSpendToday = left,
              ForwardDailyRate = forwardRate,
              TrajectoryVariance = halfUpAt4dp dl v,
              BufferDays = halfUpAt4dp dl buffer,
              State = decideState dl (DaysElapsed inp) (Params inp) v b\<rparr>)))))"

section \<open>The target line of a mid-period Budget change\<close>

record 'd TargetLineInputs =
  tli_PeriodDays :: int
  tli_DailyPoolBefore :: 'd
  tli_DailyPoolAfter :: 'd
  tli_EffectiveDay :: int

record 'd TargetLine =
  periodDays :: int
  effectiveDay :: int
  bOld :: rat
  tjm1 :: rat
  bNew :: rat
  baselineAfter :: 'd

definition NewTargetLine ::
  "'d decimal_ops \<Rightarrow> 'd TargetLineInputs \<Rightarrow> traj_error + 'd TargetLine" where
  "NewTargetLine dl inp =
    (if tli_PeriodDays inp \<le> 0 then Inl (PeriodDaysNotPositive (tli_PeriodDays inp))
     else if tli_EffectiveDay inp < 1 \<or> tli_EffectiveDay inp > tli_PeriodDays inp
     then Inl (EffectiveDayOutOfRange (tli_EffectiveDay inp) (tli_PeriodDays inp))
     else
       let d = of_int (tli_PeriodDays inp);
           j = of_int (tli_EffectiveDay inp);
           jMinus1 = j - 1
       in res_bind (rat_Quo (dec_Rat dl (tli_DailyPoolBefore inp)) d) (\<lambda>bO.
       let t = bO * jMinus1;
           remainingDays = d - jMinus1
       in res_bind (rat_Quo (dec_Rat dl (tli_DailyPoolAfter inp) - t) remainingDays) (\<lambda>bN.
       Inr \<lparr>periodDays = tli_PeriodDays inp,
            effectiveDay = tli_EffectiveDay inp,
            bOld = bO, tjm1 = t, bNew = bN,
            baselineAfter = floorAt4dp dl bN\<rparr>)))"

definition BaselineAfter :: "'d TargetLine \<Rightarrow> 'd" where
  "BaselineAfter t = baselineAfter t"

text \<open>\<open>At\<close> hands one of three exact rationals to \<open>halfUpAt4dp\<close>.\<close>

definition target_exact :: "'d TargetLine \<Rightarrow> int \<Rightarrow> rat" where
  "target_exact t day =
    (let dayRat = of_int day;
         jMinus1 = of_int (effectiveDay t) - 1
     in if dayRat \<le> jMinus1 then bOld t * dayRat
        else
          let daysSinceChange = dayRat - jMinus1;
              candidate = tjm1 t + bNew t * daysSinceChange
          in if candidate < tjm1 t then tjm1 t else candidate)"

definition TargetLine_At :: "'d decimal_ops \<Rightarrow> 'd TargetLine \<Rightarrow> int \<Rightarrow> 'd" where
  "TargetLine_At dl t day = halfUpAt4dp dl (target_exact t day)"

section \<open>The rounding contract\<close>

text \<open>
  What a caller relies on of either rounding: values already at scale four are exact, and
  rounding is monotone. It follows that the result is one of the two neighbours of the
  exact value, less than one unit away.
\<close>

locale rounding =
  fixes rnd :: "rat \<Rightarrow> int"
  assumes rnd_exact: "rnd (of_int k / 10000) = k"
    and rnd_mono: "x \<le> y \<Longrightarrow> rnd x \<le> rnd y"
begin

lemma rnd_ge: "of_int k / 10000 \<le> x \<Longrightarrow> k \<le> rnd x"
  using rnd_mono [of "of_int k / 10000" x] by (simp add: rnd_exact)

lemma rnd_le: "x \<le> of_int k / 10000 \<Longrightarrow> rnd x \<le> k"
  using rnd_mono [of x "of_int k / 10000"] by (simp add: rnd_exact)

lemma rnd_between: "\<lfloor>x * 10000\<rfloor> \<le> rnd x" "rnd x \<le> \<lceil>x * 10000\<rceil>"
proof -
  have "of_int \<lfloor>x * 10000\<rfloor> / 10000 \<le> x"
    using of_int_floor_le [of "x * 10000"] by (simp add: field_simps)
  then show "\<lfloor>x * 10000\<rfloor> \<le> rnd x" by (rule rnd_ge)
  have "x \<le> of_int \<lceil>x * 10000\<rceil> / 10000"
    using le_of_int_ceiling [of "x * 10000"] by (simp add: field_simps)
  then show "rnd x \<le> \<lceil>x * 10000\<rceil>" by (rule rnd_le)
qed

lemma rnd_error: "\<bar>of_int (rnd x) / 10000 - x\<bar> < 1 / 10000"
proof -
  have "of_int (rnd x) \<le> (of_int \<lceil>x * 10000\<rceil> :: rat)"
    and "(of_int \<lfloor>x * 10000\<rfloor> :: rat) \<le> of_int (rnd x)"
    using rnd_between [of x] by simp_all
  moreover have "of_int \<lceil>x * 10000\<rceil> < x * 10000 + 1" and "x * 10000 - 1 < of_int \<lfloor>x * 10000\<rfloor>"
    by linarith+
  ultimately have "\<bar>of_int (rnd x) - x * 10000\<bar> < 1" by linarith
  moreover have "of_int (rnd x) - x * 10000 = (of_int (rnd x) / 10000 - x) * 10000"
    by (simp add: field_simps)
  ultimately have "\<bar>of_int (rnd x) / 10000 - x\<bar> * 10000 < 1" by (simp only: abs_mult)
  then show ?thesis by simp
qed

end

text \<open>
  Rounding down is determined by the comparisons it keeps: a number of units is at most
  the rounded value exactly when it is at most the exact one.
\<close>

locale rounding_down =
  fixes rnd :: "rat \<Rightarrow> int"
  assumes rnd_galois: "k \<le> rnd x \<longleftrightarrow> of_int k / 10000 \<le> x"
begin

lemma rnd_lower: "of_int (rnd x) / 10000 \<le> x"
  using rnd_galois [of "rnd x" x] by simp

end

sublocale rounding_down \<subseteq> rounding
proof
  show "rnd (of_int k / 10000) = k" for k
    using rnd_galois [of k "of_int k / 10000"] rnd_galois [of "rnd (of_int k / 10000)" "of_int k / 10000"]
    by (simp add: divide_right_mono) 
  show "x \<le> y \<Longrightarrow> rnd x \<le> rnd y" for x y
    using rnd_galois [of "rnd x" x] rnd_galois [of "rnd x" y] by linarith
qed

section \<open>The two rounding functions\<close>

lemma quotient_of_cases:
  obtains num den where "quotient_of x = (num, den)" "0 < den" "x = of_int num / of_int den"
  by (metis quotient_of_denom_pos quotient_of_div surj_pair)

lemma smod_eq_0_iff: "0 < (den::int) \<Longrightarrow> num smod den = 0 \<longleftrightarrow> den dvd num"
  by (auto simp: signed_modulo_int_def sgn_0_0 simp flip: dvd_eq_mod_eq_0)

lemma sdiv_div: "0 < (den::int) \<Longrightarrow> num sdiv den = num div den + of_bool (num < 0 \<and> \<not> den dvd num)"
  by (auto simp: signed_divide_int_eq_divide_int sgn_if)

lemma floor_units_eq: "floor_units x = \<lfloor>x * 10000\<rfloor>"
proof -
  obtain num den where q: "quotient_of (x * 10000) = (num, den)" "0 < den"
    and x: "x * 10000 = of_int num / of_int den"
    by (rule quotient_of_cases)
  have "\<lfloor>x * 10000\<rfloor> = num div den"
    unfolding x by (rule floor_divide_of_int_eq)
  then show ?thesis
    using q by (auto simp: floor_units_def scale4_def smod_eq_0_iff sdiv_div Let_def)
qed

definition half_away :: "rat \<Rightarrow> int" where
  "half_away y = (if 0 \<le> y then \<lfloor>y + 1 / 2\<rfloor> else - \<lfloor>1 / 2 - y\<rfloor>)"

lemma floor_half:
  assumes "0 < (den::int)"
  shows "\<lfloor>of_int n / of_int den + (1 / 2 :: rat)\<rfloor> = n div den + of_bool (n mod den * 2 \<ge> den)"
proof -
  have n: "(of_int n :: rat) = of_int (n div den) * of_int den + of_int (n mod den)"
    by (metis div_mult_mod_eq of_int_add of_int_mult)
  have m: "0 \<le> n mod den" "n mod den < den" using assms by simp_all
  have "of_int n / of_int den + (1 / 2 :: rat) = of_int (n div den) + (of_int (n mod den) / of_int den + 1 / 2)"
    using assms by (subst n) (simp add: add_divide_distrib)
  then have "\<lfloor>of_int n / of_int den + (1 / 2 :: rat)\<rfloor> = n div den + \<lfloor>of_int (n mod den) / of_int den + (1 / 2 :: rat)\<rfloor>"
    by (simp only: int_add_floor [symmetric])
  moreover have "\<lfloor>of_int m / of_int den + (1 / 2 :: rat)\<rfloor> = of_bool (m * 2 \<ge> den)"
    if "0 \<le> m" "m < den" for m
  proof (rule floor_unique)
    have "(of_int (m * 2) :: rat) \<ge> of_int den \<longleftrightarrow> m * 2 \<ge> den" by (simp only: of_int_le_iff)
    moreover have "(of_int m :: rat) < of_int den" "0 \<le> (of_int m :: rat)" using that by simp_all
    ultimately show "of_int (of_bool (m * 2 \<ge> den)) \<le> of_int m / of_int den + (1 / 2 :: rat)"
      and "of_int m / of_int den + (1 / 2 :: rat) < of_int (of_bool (m * 2 \<ge> den)) + 1"
      using assms by (auto simp: field_simps)
  qed
  ultimately show ?thesis using m by simp
qed

lemma half_up_units_eq: "half_up_units x = half_away (x * 10000)"
proof -
  obtain num den where q: "quotient_of (x * 10000) = (num, den)" "0 < den"
    and x: "x * 10000 = of_int num / of_int den"
    by (rule quotient_of_cases)
  show ?thesis
  proof (cases "0 \<le> num")
    case True
    then have "0 \<le> x * 10000" using q(2) unfolding x by simp
    then have "half_away (x * 10000) = num div den + of_bool (num mod den * 2 \<ge> den)"
      unfolding half_away_def x using floor_half [OF q(2), of num] by simp
    moreover have "num sdiv den = num div den" "num smod den = num mod den"
      using True q(2) by (auto simp: signed_divide_int_def signed_modulo_int_def sgn_if)
    moreover have "0 \<le> num mod den" using q(2) by simp
    ultimately show ?thesis
      using q True by (simp add: half_up_units_def scale4_def)
  next
    case False
    then have neg: "\<not> 0 \<le> x * 10000" using q(2) unfolding x by (simp add: divide_less_0_iff not_le)
    have "1 / 2 - x * 10000 = of_int (- num) / of_int den + 1 / 2"
      unfolding x by simp
    then have "half_away (x * 10000) = - ((- num) div den + of_bool ((- num) mod den * 2 \<ge> den))"
      using neg unfolding half_away_def by (simp only: floor_half [OF q(2)] if_False)
    moreover have "num sdiv den = - ((- num) div den)" "num smod den = - ((- num) mod den)"
      using False q(2) by (auto simp: signed_divide_int_def signed_modulo_int_def sgn_if)
    moreover have "0 \<le> (- num) mod den" using q(2) by simp
    ultimately show ?thesis
      using q False by (simp add: half_up_units_def scale4_def)
  qed
qed

lemma half_away_mono:
  assumes "a \<le> b"
  shows "half_away a \<le> half_away b"
proof (cases "0 \<le> a")
  case True
  with assms show ?thesis by (simp add: half_away_def floor_mono)
next
  case False
  then have a: "0 \<le> \<lfloor>1 / 2 - a\<rfloor>" by (simp add: le_floor_iff)
  show ?thesis
  proof (cases "0 \<le> b")
    case True
    then have "0 \<le> \<lfloor>b + 1 / 2\<rfloor>" by (simp add: le_floor_iff)
    with a have "- \<lfloor>1 / 2 - a\<rfloor> \<le> \<lfloor>b + 1 / 2\<rfloor>" by linarith
    then show ?thesis using True False by (simp add: half_away_def)
  next
    case b: False
    have "\<lfloor>1 / 2 - b\<rfloor> \<le> \<lfloor>1 / 2 - a\<rfloor>" using assms by (intro floor_mono) simp
    then show ?thesis using b False by (simp add: half_away_def)
  qed
qed

interpretation floor4: rounding_down floor_units
proof
  show "k \<le> floor_units x \<longleftrightarrow> of_int k / 10000 \<le> x" for k x
    by (simp add: floor_units_eq le_floor_iff field_simps)
qed

interpretation halfup4: rounding half_up_units
proof
  show "half_up_units (of_int k / 10000) = k" for k
  proof -
    have "\<lfloor>of_int k + (1 / 2 :: rat)\<rfloor> = k" by (rule floor_unique) simp_all
    moreover have "\<lfloor>(1 / 2 :: rat) - of_int k\<rfloor> = - k" by (rule floor_unique) simp_all
    ultimately show ?thesis by (simp add: half_up_units_eq half_away_def)
  qed
  show "half_up_units x \<le> half_up_units y" if "x \<le> y" for x y
    unfolding half_up_units_eq by (rule half_away_mono) (use that in simp)
qed

section \<open>Calculate without its error plumbing\<close>

definition figures_of :: "'d decimal_ops \<Rightarrow> 'd Inputs \<Rightarrow> 'd Figures" where
  "figures_of dl inp =
    (let r = wrap64 (PeriodDays inp - DaysElapsed inp);
         p = dec_Rat dl (DailyPool inp);
         b = p / of_int (PeriodDays inp);
         left = p - dec_Rat dl (FutureSpend inp) - dec_Rat dl (SettledSpend inp);
         a = (if Mode inp = ModeFixed then b else left / of_int r);
         v = b * of_int (DaysElapsed inp) - dec_Rat dl (SettledSpend inp)
     in \<lparr>BaselineDailyBudget = floorAt4dp dl b,
         AvailablePool = dec_Sub dl (DailyPool inp) (FutureSpend inp),
         TodaysAllowance = floorAt4dp dl a,
         LeftToSpendToday = dec_Sub dl (floorAt4dp dl a) (TodaySpend inp),
         ForwardDailyRate =
           (if r > 1
            then Some (floorAt4dp dl ((left - dec_Rat dl (TodaySpend inp)) / of_int (r - 1)))
            else None),
         TrajectoryVariance = halfUpAt4dp dl v,
         BufferDays = halfUpAt4dp dl (v / b),
         State = decideState dl (DaysElapsed inp) (Params inp) v b\<rparr>)"

lemma Calculate_cases:
  "Calculate dl inp =
    (if PeriodDays inp \<le> 0 then Inl (PeriodDaysNotPositive (PeriodDays inp))
     else if wrap64 (PeriodDays inp - DaysElapsed inp) \<le> 0
     then Inl (NoDaysRemaining (DaysElapsed inp) (PeriodDays inp))
     else if Mode inp \<noteq> ModeAdaptive \<and> Mode inp \<noteq> ModeFixed then Inl (UnknownMode (Mode inp))
     else if dec_Rat dl (DailyPool inp) = 0 then Inl ZeroBaseline
     else Inr (figures_of dl inp))"
  by (simp add: Calculate_def figures_of_def rat_Quo_def Let_def sgn_0_0)

lemma Calculate_Inr_iff:
  "Calculate dl inp = Inr f \<longleftrightarrow>
     0 < PeriodDays inp \<and> 0 < wrap64 (PeriodDays inp - DaysElapsed inp) \<and>
     (Mode inp = ModeAdaptive \<or> Mode inp = ModeFixed) \<and>
     dec_Rat dl (DailyPool inp) \<noteq> 0 \<and> f = figures_of dl inp"
  unfolding Calculate_cases by auto

lemma days_remaining [int64_simps]:
  assumes "is_int64 D" "0 \<le> e" "e < D"
  shows "wrap64 (D - e) = D - e"
  using assms by (simp add: int64_simps)

section \<open>The calculation spec of docs/CONTEXT.md\<close>

definition floor_at_4 :: "rat \<Rightarrow> rat" where
  "floor_at_4 x = of_int \<lfloor>x * 10000\<rfloor> / 10000"

definition half_up_at_4 :: "rat \<Rightarrow> rat" where
  "half_up_at_4 x = of_int (half_away (x * 10000)) / 10000"

record spec_figures =
  sBaseline :: rat
  sPool :: rat
  sAllowance :: rat
  sLeft :: rat
  sForward :: "rat option"
  sVariance :: rat
  sBuffer :: rat
  sState :: state

text \<open>
  The figures as the document states them, State from Buffer Days: \<open>P\<close> the Daily Pool, \<open>D\<close>
  the Period Days, \<open>e\<close> the days elapsed, and the settled, today's and future spend.
\<close>

definition context_figures ::
  "rat \<Rightarrow> int \<Rightarrow> int \<Rightarrow> rat \<Rightarrow> rat \<Rightarrow> rat \<Rightarrow> bool \<Rightarrow> int \<Rightarrow> rat \<Rightarrow> rat \<Rightarrow> spec_figures" where
  "context_figures P D e S_settled S_today S_future fixed warm_up drifting taking_on_water =
    (let B = P / of_int D;
         r = D - e;
         P' = P - S_future;
         A = (if fixed then B else (P' - S_settled) / of_int r);
         V = B * of_int e - S_settled;
         buffer = V / B
     in \<lparr>sBaseline = floor_at_4 B,
         sPool = P',
         sAllowance = floor_at_4 A,
         sLeft = floor_at_4 A - S_today,
         sForward = (if r = 1 then None
                     else Some (floor_at_4 ((P' - S_settled - S_today) / of_int (r - 1)))),
         sVariance = half_up_at_4 V,
         sBuffer = half_up_at_4 buffer,
         sState = (if e < warm_up then ''afloat''
                   else if buffer \<ge> drifting then ''afloat''
                   else if buffer \<ge> taking_on_water then ''drifting''
                   else ''taking_on_water'')\<rparr>)"

text \<open>The numbers a \<open>Figures\<close> value denotes.\<close>

definition figures_value :: "'d decimal_ops \<Rightarrow> 'd Figures \<Rightarrow> spec_figures" where
  "figures_value dl f =
     \<lparr>sBaseline = dec_Rat dl (BaselineDailyBudget f),
      sPool = dec_Rat dl (AvailablePool f),
      sAllowance = dec_Rat dl (TodaysAllowance f),
      sLeft = dec_Rat dl (LeftToSpendToday f),
      sForward = map_option (dec_Rat dl) (ForwardDailyRate f),
      sVariance = dec_Rat dl (TrajectoryVariance f),
      sBuffer = dec_Rat dl (BufferDays f),
      sState = State f\<rparr>"

lemma ten_powi_minus_4: "(10 :: rat) powi (-4) = 1 / 10000"
  by (simp add: power_int_def power_divide)

lemma dec_Rat_floorAt4dp: "decimal_laws dl \<Longrightarrow> dec_Rat dl (floorAt4dp dl x) = floor_at_4 x"
  by (simp add: floorAt4dp_def decimal_laws_def floor_units_eq floor_at_4_def ten_powi_minus_4)

lemma dec_Rat_halfUpAt4dp: "decimal_laws dl \<Longrightarrow> dec_Rat dl (halfUpAt4dp dl x) = half_up_at_4 x"
  by (simp add: halfUpAt4dp_def decimal_laws_def half_up_units_eq half_up_at_4_def ten_powi_minus_4)

lemma dec_Rat_Sub: "decimal_laws dl \<Longrightarrow> dec_Rat dl (dec_Sub dl a b) = dec_Rat dl a - dec_Rat dl b"
  by (simp add: decimal_laws_def)

lemmas dec_Rat_simps = dec_Rat_floorAt4dp dec_Rat_halfUpAt4dp dec_Rat_Sub

lemma floor_at_4_le: "floor_at_4 x \<le> x"
  using floor4.rnd_lower [of x] by (simp add: floor_units_eq floor_at_4_def)

lemma decideState_eq:
  assumes "0 < b"
  shows "decideState dl e params v b =
    (if e < WarmUpDays params then ''afloat''
     else if v / b \<ge> dec_Rat dl (DriftingBelow params) then ''afloat''
     else if v / b \<ge> dec_Rat dl (TakingOnWaterBelow params) then ''drifting''
     else ''taking_on_water'')"
  using assms by (simp add: decideState_def state_mode_defs pos_le_divide_eq)

section \<open>Properties\<close>

text \<open>
  A concrete decimal library for the witnesses: decimals as the rationals they denote.
\<close>

definition rat_decimal :: "rat decimal_ops" where
  "rat_decimal = \<lparr>dec_Rat = (\<lambda>x. x), dec_Sub = (-),
     dec_NewFromBigInt = (\<lambda>v e. of_int v * 10 powi e), dec_NewFromInt = of_int\<rparr>"

lemma rat_decimal_simps [simp]:
  "dec_Rat rat_decimal x = x" "dec_Sub rat_decimal x y = x - y"
  "dec_NewFromBigInt rat_decimal v e = of_int v * 10 powi e"
  "dec_NewFromInt rat_decimal n = of_int n"
  by (simp_all add: rat_decimal_def)

lemma rat_decimal_laws: "decimal_laws rat_decimal"
  by (simp add: decimal_laws_def)

definition day_two :: "rat Inputs" where
  "day_two = \<lparr>DailyPool = 6000000, PeriodDays = 30, DaysElapsed = 1, SettledSpend = 100000,
     TodaySpend = 0, FutureSpend = 0, Mode = ''adaptive'',
     Params = DefaultParameters rat_decimal\<rparr>"

text \<open>
  C1. On every valid read (a positive Daily Pool, a day inside the Period, a known mode)
  \<open>Calculate\<close> returns figures, and they are the figures of the calculation spec of
  docs/CONTEXT.md: the allowance figures floored and the variance figures rounded half
  away from zero at four decimals, and State as Buffer Days against the two thresholds
  although the code never divides.
\<close>

theorem Calculate_refines_context:
  assumes "decimal_laws dl"
    and "0 < dec_Rat dl (DailyPool inp)"
    and "is_int64 (PeriodDays inp)" "0 \<le> DaysElapsed inp" "DaysElapsed inp < PeriodDays inp"
    and "Mode inp = ModeAdaptive \<or> Mode inp = ModeFixed"
  shows "\<exists>f. Calculate dl inp = Inr f \<and>
    figures_value dl f =
      context_figures (dec_Rat dl (DailyPool inp)) (PeriodDays inp) (DaysElapsed inp)
        (dec_Rat dl (SettledSpend inp)) (dec_Rat dl (TodaySpend inp)) (dec_Rat dl (FutureSpend inp))
        (Mode inp = ModeFixed) (WarmUpDays (Params inp))
        (dec_Rat dl (DriftingBelow (Params inp))) (dec_Rat dl (TakingOnWaterBelow (Params inp)))"
proof -
  have r: "wrap64 (PeriodDays inp - DaysElapsed inp) = PeriodDays inp - DaysElapsed inp"
    using assms(3-5) by (rule days_remaining)
  have "0 < dec_Rat dl (DailyPool inp) / of_int (PeriodDays inp)"
    using assms(2,4,5) by simp
  then have "figures_value dl (figures_of dl inp) =
      context_figures (dec_Rat dl (DailyPool inp)) (PeriodDays inp) (DaysElapsed inp)
        (dec_Rat dl (SettledSpend inp)) (dec_Rat dl (TodaySpend inp)) (dec_Rat dl (FutureSpend inp))
        (Mode inp = ModeFixed) (WarmUpDays (Params inp))
        (dec_Rat dl (DriftingBelow (Params inp))) (dec_Rat dl (TakingOnWaterBelow (Params inp)))"
    using assms(1,5)
    by (simp add: figures_value_def figures_of_def context_figures_def Let_def r
        dec_Rat_simps decideState_eq)
  then show ?thesis
    using assms(2,4-6) by (auto simp: Calculate_Inr_iff r)
qed

theorem Calculate_refines_context_witness:
  "\<exists>f. Calculate rat_decimal day_two = Inr f \<and>
    figures_value rat_decimal f = context_figures 6000000 30 1 100000 0 0 False 3 (-1) (-3)"
  using Calculate_refines_context [OF rat_decimal_laws, of day_two]
  by (simp add: day_two_def is_int64_def state_mode_defs DefaultParameters_def)

text \<open>
  C3. \<open>Calculate\<close> fails on exactly four kinds of read, tested in this order: no Period
  Days, no day left, an unknown mode, a zero Daily Pool. In particular no division by
  zero is ever reached, whatever the input.
\<close>

theorem Calculate_errors:
  "Calculate dl inp = Inl err \<longleftrightarrow>
    (PeriodDays inp \<le> 0 \<and> err = PeriodDaysNotPositive (PeriodDays inp)) \<or>
    (0 < PeriodDays inp \<and>
      (wrap64 (PeriodDays inp - DaysElapsed inp) \<le> 0 \<and>
         err = NoDaysRemaining (DaysElapsed inp) (PeriodDays inp) \<or>
       0 < wrap64 (PeriodDays inp - DaysElapsed inp) \<and>
         (Mode inp \<notin> {ModeAdaptive, ModeFixed} \<and> err = UnknownMode (Mode inp) \<or>
          Mode inp \<in> {ModeAdaptive, ModeFixed} \<and> dec_Rat dl (DailyPool inp) = 0 \<and>
            err = ZeroBaseline)))"
  unfolding Calculate_cases by auto

text \<open>
  One day of a Household in adaptive mode that keeps to its allowance: it reads its figures
  at the start of the day and spends at most Today's Allowance, and the next day's read
  has that spend settled.
\<close>

inductive day_passes :: "'d decimal_ops \<Rightarrow> 'd Inputs \<Rightarrow> 'd Inputs \<Rightarrow> bool" for dl where
  day_passes:
    "Calculate dl inp = Inr f \<Longrightarrow> Mode inp = ModeAdaptive \<Longrightarrow>
     s \<le> dec_Rat dl (TodaysAllowance f) \<Longrightarrow>
     dec_Rat dl settled = dec_Rat dl (SettledSpend inp) + s \<Longrightarrow>
     day_passes dl inp (inp\<lparr>DaysElapsed := DaysElapsed inp + 1, SettledSpend := settled\<rparr>)"

inductive_cases day_passesE: "day_passes dl inp inp'"

definition within_pool :: "'d decimal_ops \<Rightarrow> 'd Inputs \<Rightarrow> bool" where
  "within_pool dl inp \<longleftrightarrow>
     dec_Rat dl (SettledSpend inp) \<le> dec_Rat dl (DailyPool inp) - dec_Rat dl (FutureSpend inp)"

lemma allowance_le_share:
  assumes "decimal_laws dl" "Calculate dl inp = Inr f" "Mode inp = ModeAdaptive" "within_pool dl inp"
  shows "dec_Rat dl (TodaysAllowance f) \<le>
    dec_Rat dl (DailyPool inp) - dec_Rat dl (FutureSpend inp) - dec_Rat dl (SettledSpend inp)"
proof -
  let ?rest = "dec_Rat dl (DailyPool inp) - dec_Rat dl (FutureSpend inp) - dec_Rat dl (SettledSpend inp)"
  let ?r = "wrap64 (PeriodDays inp - DaysElapsed inp)"
  have f: "f = figures_of dl inp" and r: "1 \<le> ?r"
    using assms(2) by (simp_all add: Calculate_Inr_iff)
  have "dec_Rat dl (TodaysAllowance f) = floor_at_4 (?rest / of_int ?r)"
    using assms(1,3) by (simp add: f figures_of_def Let_def dec_Rat_simps state_mode_defs)
  also have "\<dots> \<le> ?rest / of_int ?r" by (rule floor_at_4_le)
  also have "\<dots> \<le> ?rest / 1"
    using assms(4) r by (intro divide_left_mono) (simp_all add: within_pool_def)
  finally show ?thesis by simp
qed

lemma day_passes_within_pool:
  assumes "day_passes dl inp inp'" "decimal_laws dl" "within_pool dl inp"
  shows "within_pool dl inp'"
proof -
  from assms(1) obtain f s settled where
    ok: "Calculate dl inp = Inr f" "Mode inp = ModeAdaptive" "s \<le> dec_Rat dl (TodaysAllowance f)"
    and settled: "dec_Rat dl settled = dec_Rat dl (SettledSpend inp) + s"
    and inp': "inp' = inp\<lparr>DaysElapsed := DaysElapsed inp + 1, SettledSpend := settled\<rparr>"
    by (blast elim: day_passesE)
  have "s \<le> dec_Rat dl (DailyPool inp) - dec_Rat dl (FutureSpend inp) - dec_Rat dl (SettledSpend inp)"
    using allowance_le_share [OF assms(2) ok(1,2) assms(3)] ok(3) by linarith
  then show ?thesis by (simp add: within_pool_def inp' settled)
qed

text \<open>
  C2. Afloat never tells a Household it can spend more than it has: from a Daily Pool
  that covers what is settled and future-dated, any number of days spent within Today's
  Allowance leaves the settled spend within the Available Pool, rounding included.
\<close>

theorem pool_never_overspent:
  assumes "decimal_laws dl" "(day_passes dl)\<^sup>*\<^sup>* inp inp'"
    and "dec_Rat dl (SettledSpend inp) \<le> dec_Rat dl (DailyPool inp) - dec_Rat dl (FutureSpend inp)"
  shows "dec_Rat dl (SettledSpend inp') \<le> dec_Rat dl (DailyPool inp') - dec_Rat dl (FutureSpend inp')"
proof -
  have "within_pool dl inp'"
    using assms(2)
  proof (induction rule: rtranclp_induct)
    case base
    then show ?case using assms(3) by (simp add: within_pool_def)
  next
    case (step inp1 inp2)
    then show ?case using assms(1) by (blast intro: day_passes_within_pool)
  qed
  then show ?thesis by (simp add: within_pool_def)
qed

lemma day_two_passes:
  "day_passes rat_decimal day_two (day_two\<lparr>DaysElapsed := 2, SettledSpend := 300000\<rparr>)"
proof -
  have "\<lfloor>5900000 / 29 * (10000 :: rat)\<rfloor> = 2034482758" by (rule floor_unique) simp_all
  then have "Calculate rat_decimal day_two = Inr (figures_of rat_decimal day_two)"
    and "(200000 :: rat) \<le> TodaysAllowance (figures_of rat_decimal day_two)"
    by (simp_all add: Calculate_Inr_iff day_two_def figures_of_def Let_def floorAt4dp_def
        floor_units_eq ten_powi_minus_4 int64_simps is_int64_def state_mode_defs)
  then have "day_passes rat_decimal day_two
      (day_two\<lparr>DaysElapsed := DaysElapsed day_two + 1, SettledSpend := 300000\<rparr>)"
    by (intro day_passes.intros) (simp_all add: day_two_def state_mode_defs)
  then show ?thesis by (simp add: day_two_def)
qed

theorem pool_never_overspent_witness:
  "day_passes rat_decimal day_two (day_two\<lparr>DaysElapsed := 2, SettledSpend := 300000\<rparr>) \<and>
   (300000 :: rat) \<le> 6000000 - 0"
  using pool_never_overspent [OF rat_decimal_laws r_into_rtranclp [where r = "day_passes rat_decimal", OF day_two_passes]] day_two_passes
  by (simp add: day_two_def)

text \<open>
  The allowance mode changes Today's Allowance and Left to Spend Today and nothing
  else: a read that succeeds in fixed mode succeeds in adaptive mode with every other
  figure, State included, the same.
\<close>

theorem mode_changes_only_allowance:
  assumes "Calculate dl (inp\<lparr>Mode := ModeFixed\<rparr>) = Inr f"
  shows "\<exists>a left. Calculate dl (inp\<lparr>Mode := ModeAdaptive\<rparr>) =
    Inr (f\<lparr>TodaysAllowance := a, LeftToSpendToday := left\<rparr>)"
proof -
  have "f = figures_of dl (inp\<lparr>Mode := ModeFixed\<rparr>)"
    and ok: "Calculate dl (inp\<lparr>Mode := ModeAdaptive\<rparr>) = Inr (figures_of dl (inp\<lparr>Mode := ModeAdaptive\<rparr>))"
    using assms by (simp_all add: Calculate_Inr_iff)
  then have "figures_of dl (inp\<lparr>Mode := ModeAdaptive\<rparr>) =
      f\<lparr>TodaysAllowance := TodaysAllowance (figures_of dl (inp\<lparr>Mode := ModeAdaptive\<rparr>)),
        LeftToSpendToday := LeftToSpendToday (figures_of dl (inp\<lparr>Mode := ModeAdaptive\<rparr>))\<rparr>"
    by (simp add: figures_of_def Let_def)
  with ok show ?thesis by metis
qed

theorem mode_changes_only_allowance_witness:
  "\<exists>a left f. Calculate rat_decimal (day_two\<lparr>Mode := ModeAdaptive\<rparr>) =
    Inr (f\<lparr>TodaysAllowance := a, LeftToSpendToday := left\<rparr>)"
proof -
  have "Calculate rat_decimal (day_two\<lparr>Mode := ModeFixed\<rparr>) =
      Inr (figures_of rat_decimal (day_two\<lparr>Mode := ModeFixed\<rparr>))"
    by (simp add: Calculate_Inr_iff day_two_def int64_simps is_int64_def)
  from mode_changes_only_allowance [OF this] show ?thesis by blast
qed

definition severity :: "state \<Rightarrow> nat" where
  "severity st = (if st = StateAfloat then 0 else if st = StateDrifting then 1 else 2)"

lemma severity_decideState_mono:
  "v' \<le> v \<Longrightarrow> severity (decideState dl e params v b) \<le> severity (decideState dl e params v' b)"
  by (auto simp: decideState_def Let_def severity_def state_mode_defs)

text \<open>
  C5. More settled spend never reads as a better State: with everything else equal, the
  read with the larger settled spend is at least as severe (afloat, drifting, taking on
  water), and during warm-up both read afloat.
\<close>

theorem state_worsens_with_spend:
  assumes "Calculate dl inp = Inr f" "Calculate dl (inp\<lparr>SettledSpend := s\<rparr>) = Inr g"
    and "dec_Rat dl (SettledSpend inp) \<le> dec_Rat dl s"
  shows "severity (State f) \<le> severity (State g) \<and>
    (DaysElapsed inp < WarmUpDays (Params inp) \<longrightarrow> State f = ''afloat'' \<and> State g = ''afloat'')"
proof -
  have fg: "f = figures_of dl inp" "g = figures_of dl (inp\<lparr>SettledSpend := s\<rparr>)"
    using assms(1,2) by (simp_all add: Calculate_Inr_iff)
  have "severity (State f) \<le> severity (State g)"
    using assms(3) by (simp add: fg figures_of_def Let_def severity_decideState_mono)
  moreover have "State f = ''afloat'' \<and> State g = ''afloat''"
    if "DaysElapsed inp < WarmUpDays (Params inp)"
    using that by (simp add: fg figures_of_def Let_def decideState_def StateAfloat_def)
  ultimately show ?thesis by blast
qed

theorem state_worsens_with_spend_witness:
  "severity (State (figures_of rat_decimal day_two))
     \<le> severity (State (figures_of rat_decimal (day_two\<lparr>SettledSpend := 900000\<rparr>)))"
proof -
  have "Calculate rat_decimal day_two = Inr (figures_of rat_decimal day_two)"
    and "Calculate rat_decimal (day_two\<lparr>SettledSpend := 900000\<rparr>) =
      Inr (figures_of rat_decimal (day_two\<lparr>SettledSpend := 900000\<rparr>))"
    by (simp_all add: Calculate_Inr_iff day_two_def int64_simps is_int64_def state_mode_defs)
  from state_worsens_with_spend [OF this] show ?thesis by (simp add: day_two_def)
qed

lemma half_away_nearest:
  "\<bar>of_int (half_away y) - y\<bar> \<le> 1 / 2"
  "\<bar>of_int (half_away y) - y\<bar> = 1 / 2 \<Longrightarrow> \<bar>y\<bar> < \<bar>of_int (half_away y)\<bar>"
proof -
  have *: "\<bar>of_int (half_away y) - y\<bar> \<le> 1 / 2 \<and>
      (\<bar>of_int (half_away y) - y\<bar> = 1 / 2 \<longrightarrow> \<bar>y\<bar> < \<bar>of_int (half_away y)\<bar>)"
  proof (cases "0 \<le> y")
    case True
    then have "of_int (half_away y) \<le> y + 1 / 2" "y + 1 / 2 < of_int (half_away y) + 1"
      using floor_correct [of "y + 1 / 2"] by (simp_all add: half_away_def)
    with True show ?thesis by linarith
  next
    case False
    then have "- of_int (half_away y) \<le> 1 / 2 - y" "1 / 2 - y < - of_int (half_away y) + 1"
      using floor_correct [of "1 / 2 - y"] by (simp_all add: half_away_def)
    with False show ?thesis by linarith
  qed
  show "\<bar>of_int (half_away y) - y\<bar> \<le> 1 / 2" using * by (rule conjunct1)
  show "\<bar>y\<bar> < \<bar>of_int (half_away y)\<bar>" if "\<bar>of_int (half_away y) - y\<bar> = 1 / 2" using * that by blast
qed

text \<open>
  The number at four decimal places nearest to \<open>x\<close>, the one further from zero when two are
  equally near: at most one \<open>v\<close> is this for an \<open>x\<close>.
\<close>

definition nearest_at_4 :: "rat \<Rightarrow> rat \<Rightarrow> bool" where
  "nearest_at_4 x v \<longleftrightarrow> v * 10000 \<in> \<int> \<and> \<bar>v - x\<bar> \<le> 1 / 20000 \<and> (\<bar>v - x\<bar> = 1 / 20000 \<longrightarrow> \<bar>x\<bar> < \<bar>v\<bar>)"

lemma half_up_at_4_nearest: "nearest_at_4 x (half_up_at_4 x)"
proof -
  have "half_up_at_4 x - x = (of_int (half_away (x * 10000)) - x * 10000) / 10000"
    by (simp add: half_up_at_4_def field_simps)
  then have d: "\<bar>half_up_at_4 x - x\<bar> = \<bar>of_int (half_away (x * 10000)) - x * 10000\<bar> / 10000"
    by (simp only: abs_divide abs_numeral)
  have "\<bar>x\<bar> < \<bar>half_up_at_4 x\<bar> \<longleftrightarrow> \<bar>x * 10000\<bar> < \<bar>of_int (half_away (x * 10000)) :: rat\<bar>"
    by (simp add: half_up_at_4_def abs_mult pos_less_divide_eq)
  with d half_away_nearest [of "x * 10000"] show ?thesis
    by (simp add: nearest_at_4_def half_up_at_4_def)
qed

lemma nearest_at_4_sign:
  assumes "nearest_at_4 x v"
  shows "v < 0 \<longleftrightarrow> x \<le> - (1 / 20000)" "v > 0 \<longleftrightarrow> x \<ge> 1 / 20000"
proof -
  obtain n :: int where "v * 10000 = of_int n" using assms by (auto simp: nearest_at_4_def elim: Ints_cases)
  then have n: "v = of_int n / 10000" by simp
  consider "n \<le> -1" | "n = 0" | "1 \<le> n" by linarith
  then have "v \<le> - (1 / 10000) \<or> v = 0 \<or> 1 / 10000 \<le> v"
  proof cases
    case 1
    then have "(of_int n :: rat) \<le> of_int (-1)" by (simp only: of_int_le_iff)
    then show ?thesis by (simp add: n)
  next
    case 3
    then have "of_int 1 \<le> (of_int n :: rat)" by (simp only: of_int_le_iff)
    then show ?thesis by (simp add: n)
  qed (simp add: n)
  moreover have "\<bar>v - x\<bar> \<le> 1 / 20000" "\<bar>v - x\<bar> = 1 / 20000 \<longrightarrow> \<bar>x\<bar> < \<bar>v\<bar>"
    using assms by (simp_all add: nearest_at_4_def)
  ultimately show "v < 0 \<longleftrightarrow> x \<le> - (1 / 20000)" "v > 0 \<longleftrightarrow> x \<ge> 1 / 20000"
    by linarith+
qed

text \<open>
  C6. Trajectory Variance is a projection: what goes on the wire is, at four decimal places and
  with a tie going away from zero, the distance of the Daily Pool from the spend projected to the
  end of the Period at the average pace so far, scaled by the share of the Period that has
  elapsed. Its sign therefore tells an overshoot: it is negative exactly when that scaled overshoot
  is half a unit of the fourth place or more, positive exactly when the margin is, and zero in between.
\<close>

theorem variance_is_projection:
  assumes "decimal_laws dl" "Calculate dl inp = Inr f" "0 < DaysElapsed inp"
    and projected_def:
      "projected = dec_Rat dl (SettledSpend inp) / of_int (DaysElapsed inp) * of_int (PeriodDays inp)"
    and margin_def:
      "margin = (dec_Rat dl (DailyPool inp) - projected) * (of_int (DaysElapsed inp) / of_int (PeriodDays inp))"
  shows "nearest_at_4 margin (dec_Rat dl (TrajectoryVariance f)) \<and>
    (dec_Rat dl (TrajectoryVariance f) < 0 \<longleftrightarrow> margin \<le> - (1 / 20000)) \<and>
    (dec_Rat dl (TrajectoryVariance f) > 0 \<longleftrightarrow> margin \<ge> 1 / 20000)"
proof -
  have D: "0 < PeriodDays inp" and "dec_Rat dl (TrajectoryVariance f) =
      half_up_at_4 (dec_Rat dl (DailyPool inp) / of_int (PeriodDays inp) * of_int (DaysElapsed inp)
        - dec_Rat dl (SettledSpend inp))"
    using assms(1,2) by (simp_all add: Calculate_Inr_iff figures_of_def Let_def dec_Rat_simps)
  moreover have "margin = dec_Rat dl (DailyPool inp) / of_int (PeriodDays inp) * of_int (DaysElapsed inp)
      - dec_Rat dl (SettledSpend inp)"
    using D assms(3) by (simp add: margin_def projected_def field_simps)
  ultimately have "nearest_at_4 margin (dec_Rat dl (TrajectoryVariance f))"
    by (simp only: half_up_at_4_nearest)
  from this nearest_at_4_sign [OF this] show ?thesis by (intro conjI)
qed

theorem variance_is_projection_witness:
  "nearest_at_4 (- 100000 / 3) (dec_Rat rat_decimal (TrajectoryVariance
     (figures_of rat_decimal (day_two\<lparr>SettledSpend := 7000000 / 30\<rparr>)))) \<and>
   dec_Rat rat_decimal (TrajectoryVariance (figures_of rat_decimal (day_two\<lparr>SettledSpend := 7000000 / 30\<rparr>))) < 0"
proof -
  have "Calculate rat_decimal (day_two\<lparr>SettledSpend := 7000000 / 30\<rparr>) =
      Inr (figures_of rat_decimal (day_two\<lparr>SettledSpend := 7000000 / 30\<rparr>))"
    by (simp add: Calculate_Inr_iff day_two_def int64_simps is_int64_def state_mode_defs)
  from variance_is_projection [OF rat_decimal_laws this _ refl refl] show ?thesis
    by (simp add: day_two_def)
qed

section \<open>The target line\<close>

lemma NewTargetLine_Inr_iff:
  "NewTargetLine dl inp = Inr t \<longleftrightarrow>
    1 \<le> tli_EffectiveDay inp \<and> tli_EffectiveDay inp \<le> tli_PeriodDays inp \<and>
    (let D = of_int (tli_PeriodDays inp); jm1 = of_int (tli_EffectiveDay inp) - 1;
         bO = dec_Rat dl (tli_DailyPoolBefore inp) / D;
         bN = (dec_Rat dl (tli_DailyPoolAfter inp) - bO * jm1) / (D - jm1)
     in t = \<lparr>periodDays = tli_PeriodDays inp, effectiveDay = tli_EffectiveDay inp,
             bOld = bO, tjm1 = bO * jm1, bNew = bN, baselineAfter = floorAt4dp dl bN\<rparr>)"
proof (cases "tli_PeriodDays inp \<le> 0 \<or> tli_EffectiveDay inp < 1 \<or> tli_EffectiveDay inp > tli_PeriodDays inp")
  case True
  then show ?thesis by (auto simp: NewTargetLine_def Let_def)
next
  case False
  then have "(of_int (tli_EffectiveDay inp) :: rat) \<le> of_int (tli_PeriodDays inp)" by simp
  then have "of_int (tli_PeriodDays inp) - (of_int (tli_EffectiveDay inp) - (1 :: rat)) \<noteq> 0" by linarith
  with False show ?thesis by (auto simp: NewTargetLine_def rat_Quo_def Let_def)
qed

text \<open>The facts every proof about a constructed line starts from.\<close>

lemma target_line_facts:
  assumes "NewTargetLine dl inp = Inr t"
  defines "D \<equiv> of_int (tli_PeriodDays inp) :: rat" and "j \<equiv> of_int (tli_EffectiveDay inp) :: rat"
  shows "effectiveDay t = tli_EffectiveDay inp" "1 \<le> j" "j \<le> D"
    "bOld t = dec_Rat dl (tli_DailyPoolBefore inp) / D" "tjm1 t = bOld t * (j - 1)"
    "tjm1 t + bNew t * (D - (j - 1)) = dec_Rat dl (tli_DailyPoolAfter inp)"
    "0 \<le> bNew t \<longleftrightarrow> tjm1 t \<le> dec_Rat dl (tli_DailyPoolAfter inp)"
proof -
  have t: "1 \<le> tli_EffectiveDay inp" "tli_EffectiveDay inp \<le> tli_PeriodDays inp"
    "t = \<lparr>periodDays = tli_PeriodDays inp, effectiveDay = tli_EffectiveDay inp,
      bOld = dec_Rat dl (tli_DailyPoolBefore inp) / D,
      tjm1 = dec_Rat dl (tli_DailyPoolBefore inp) / D * (j - 1),
      bNew = (dec_Rat dl (tli_DailyPoolAfter inp) - dec_Rat dl (tli_DailyPoolBefore inp) / D * (j - 1)) / (D - (j - 1)),
      baselineAfter = baselineAfter t\<rparr>"
    using assms(1) by (auto simp: NewTargetLine_Inr_iff Let_def D_def j_def)
  show j: "1 \<le> j" "j \<le> D" using t(1,2) by (simp_all add: D_def j_def)
  then have "0 < D - (j - 1)" by simp
  then show "tjm1 t + bNew t * (D - (j - 1)) = dec_Rat dl (tli_DailyPoolAfter inp)"
    and "0 \<le> bNew t \<longleftrightarrow> tjm1 t \<le> dec_Rat dl (tli_DailyPoolAfter inp)"
    by (subst t(3), simp add: zero_le_divide_iff)+
  show "effectiveDay t = tli_EffectiveDay inp" "bOld t = dec_Rat dl (tli_DailyPoolBefore inp) / D"
    "tjm1 t = bOld t * (j - 1)"
    by (subst t(3), simp)+
qed

lemma target_exact_before:
  "day < effectiveDay t \<Longrightarrow> target_exact t day = bOld t * of_int day"
proof -
  assume "day < effectiveDay t"
  then have "day + 1 \<le> effectiveDay t" by simp
  then have "(of_int day + 1 :: rat) \<le> of_int (effectiveDay t)"
    by (metis of_int_1 of_int_add of_int_le_iff)
  then show ?thesis by (simp add: target_exact_def Let_def)
qed

lemma target_exact_after:
  assumes "effectiveDay t \<le> day"
  shows "target_exact t day = tjm1 t + max 0 (bNew t * (of_int day - (of_int (effectiveDay t) - 1)))"
proof -
  have "(of_int (effectiveDay t) :: rat) \<le> of_int day" using assms by simp
  then have "\<not> of_int day \<le> of_int (effectiveDay t) - (1 :: rat)" by linarith
  then show ?thesis by (simp add: target_exact_def Let_def max_def)
qed

lemma target_exact_mono:
  assumes t: "NewTargetLine dl inp = Inr t" and P: "0 \<le> dec_Rat dl (tli_DailyPoolBefore inp)"
    and "a \<le> b"
  shows "target_exact t a \<le> target_exact t b"
proof -
  note facts = target_line_facts [OF t]
  let ?j = "effectiveDay t"
  have B: "0 \<le> bOld t" using facts(2,3) P by (simp add: facts(4))
  have tj: "tjm1 t = bOld t * (of_int ?j - 1)" by (simp add: facts(1,5))
  consider (old) "b < ?j" | (kink) "a < ?j" "?j \<le> b" | (new) "?j \<le> a"
    by linarith
  then show ?thesis
  proof cases
    case old
    then show ?thesis using assms(3) B by (simp add: target_exact_before mult_left_mono)
  next
    case kink
    have "a \<le> ?j - 1" using kink by simp
    then have "(of_int a :: rat) \<le> of_int ?j - 1" by (metis of_int_1 of_int_diff of_int_le_iff)
    then have "bOld t * of_int a \<le> tjm1 t" unfolding tj using B by (rule mult_left_mono)
    then show ?thesis using kink
      by (simp add: target_exact_before target_exact_after add_increasing2)
  next
    case new
    have "max 0 (bNew t * (of_int a - (of_int ?j - 1))) \<le> max 0 (bNew t * (of_int b - (of_int ?j - 1)))"
    proof (cases "0 \<le> bNew t")
      case True
      then have "bNew t * (of_int a - (of_int ?j - 1)) \<le> bNew t * (of_int b - (of_int ?j - 1))"
        using assms(3) by (intro mult_left_mono) simp_all
      then show ?thesis by (simp add: max_def)
    next
      case False
      moreover have "(of_int ?j :: rat) \<le> of_int a" using new by simp
      ultimately have "bNew t * (of_int a - (of_int ?j - 1)) \<le> 0"
        by (intro mult_nonpos_nonneg) simp_all
      then show ?thesis by simp
    qed
    then show ?thesis using new assms(3) by (simp add: target_exact_after)
  qed
qed

text \<open>
  C4. The target line of a mid-period Budget change never falls: with a non-negative old
  Daily Pool, a later day's target, as rounded on the wire, is at least an earlier day's.
\<close>

theorem target_line_never_falls:
  assumes "decimal_laws dl" "NewTargetLine dl inp = Inr t"
    and "0 \<le> dec_Rat dl (tli_DailyPoolBefore inp)" "a \<le> b"
  shows "dec_Rat dl (TargetLine_At dl t a) \<le> dec_Rat dl (TargetLine_At dl t b)"
  using target_exact_mono [OF assms(2-4)] assms(1)
  by (simp add: TargetLine_At_def dec_Rat_simps half_up_at_4_def half_away_mono divide_right_mono)

definition raise_day_11 :: "rat TargetLineInputs" where
  "raise_day_11 = \<lparr>tli_PeriodDays = 30, tli_DailyPoolBefore = 6000000,
     tli_DailyPoolAfter = 7500000, tli_EffectiveDay = 11\<rparr>"

definition raise_line :: "rat TargetLine" where
  "raise_line = \<lparr>periodDays = 30, effectiveDay = 11, bOld = 200000, tjm1 = 2000000,
     bNew = 275000, baselineAfter = 275000\<rparr>"

lemma raise_day_11_line: "NewTargetLine rat_decimal raise_day_11 = Inr raise_line"
  by (simp add: NewTargetLine_Inr_iff raise_day_11_def raise_line_def Let_def floorAt4dp_def
      floor_units_eq ten_powi_minus_4)

theorem target_line_never_falls_witness:
  "dec_Rat rat_decimal (TargetLine_At rat_decimal raise_line 10)
     \<le> dec_Rat rat_decimal (TargetLine_At rat_decimal raise_line 30)"
  by (rule target_line_never_falls [OF rat_decimal_laws raise_day_11_line])
    (simp_all add: raise_day_11_def)

text \<open>
  C7. The target line kinks continuously and ends where it must: day \<open>j - 1\<close> has the old
  line's target T(j-1); when the new Daily Pool is at least T(j-1) the line rises by the
  new baseline each day and ends exactly at the new Daily Pool on the last day; otherwise
  it is flat at T(j-1) from day \<open>j\<close> on. Days outside the Period follow the same two lines.
\<close>

theorem target_line_kinks:
  assumes "decimal_laws dl" "NewTargetLine dl inp = Inr t"
    and T_def: "T = dec_Rat dl (tli_DailyPoolBefore inp) / of_int (tli_PeriodDays inp)
      * (of_int (tli_EffectiveDay inp) - 1)"
  shows "dec_Rat dl (TargetLine_At dl t (tli_EffectiveDay inp - 1)) = half_up_at_4 T \<and>
    (T \<le> dec_Rat dl (tli_DailyPoolAfter inp) \<longrightarrow>
       dec_Rat dl (TargetLine_At dl t (tli_PeriodDays inp)) = half_up_at_4 (dec_Rat dl (tli_DailyPoolAfter inp)) \<and>
       (\<forall>day \<ge> tli_EffectiveDay inp.
          target_exact t day - target_exact t (day - 1) = bNew t)) \<and>
    (dec_Rat dl (tli_DailyPoolAfter inp) \<le> T \<longrightarrow>
       (\<forall>day \<ge> tli_EffectiveDay inp.
          dec_Rat dl (TargetLine_At dl t day) = half_up_at_4 T))"
proof (intro conjI impI allI)
  note facts = target_line_facts [OF assms(2)]
  let ?j = "tli_EffectiveDay inp" and ?D = "tli_PeriodDays inp"
  let ?Pn = "dec_Rat dl (tli_DailyPoolAfter inp)"
  have T: "tjm1 t = T" by (simp add: facts(4,5) T_def)
  have before: "target_exact t (?j - 1) = T"
    using target_exact_before [of "?j - 1" t] facts(1) by (simp add: facts(4) T_def)
  then show "dec_Rat dl (TargetLine_At dl t (?j - 1)) = half_up_at_4 T"
    using assms(1) by (simp add: TargetLine_At_def dec_Rat_simps)
  show "dec_Rat dl (TargetLine_At dl t ?D) = half_up_at_4 ?Pn" if "T \<le> ?Pn"
  proof -
    have "?j \<le> ?D" using facts(3) by simp
    moreover have "0 \<le> bNew t * (of_int ?D - (of_int ?j - 1))"
      using that facts(3,7) T by (intro mult_nonneg_nonneg) simp_all
    ultimately have "target_exact t ?D = ?Pn"
      using facts(1,6) by (simp add: target_exact_after)
    then show ?thesis using assms(1) by (simp add: TargetLine_At_def dec_Rat_simps)
  qed
  show "target_exact t day - target_exact t (day - 1) = bNew t" if "T \<le> ?Pn" "?j \<le> day" for day
  proof -
    have nonneg: "0 \<le> bNew t * (of_int d - (of_int ?j - 1))" if "?j \<le> d" for d
      using that \<open>T \<le> ?Pn\<close> facts(7) T by (intro mult_nonneg_nonneg) simp_all
    show ?thesis
    proof (cases "day = ?j")
      case True
      then show ?thesis using before nonneg [of ?j] facts(1) T by (simp add: target_exact_after)
    next
      case False
      then have "?j \<le> day - 1" using that(2) by simp
      then show ?thesis using nonneg [of day] nonneg [of "day - 1"] that(2) facts(1)
        by (simp add: target_exact_after algebra_simps)
    qed
  qed
  show "dec_Rat dl (TargetLine_At dl t day) = half_up_at_4 T" if "?Pn \<le> T" "?j \<le> day" for day
  proof -
    have "bNew t * (of_int ?D - (of_int ?j - 1)) \<le> 0" using facts(6) that(1) T by simp
    moreover have "0 < of_int ?D - (of_int ?j - (1 :: rat))" using facts(3) by simp
    ultimately have "bNew t \<le> 0" by (simp add: mult_le_0_iff)
    moreover have "0 \<le> of_int day - (of_int ?j - (1 :: rat))" using that(2) by simp
    ultimately have "bNew t * (of_int day - (of_int ?j - 1)) \<le> 0"
      by (rule mult_nonpos_nonneg)
    then have "target_exact t day = T"
      using that(2) facts(1) T by (simp add: target_exact_after)
    then show ?thesis using assms(1) by (simp add: TargetLine_At_def dec_Rat_simps)
  qed
qed

theorem target_line_kinks_witness:
  "dec_Rat rat_decimal (TargetLine_At rat_decimal raise_line 10) = half_up_at_4 2000000 \<and>
   dec_Rat rat_decimal (TargetLine_At rat_decimal raise_line 30) = half_up_at_4 7500000"
  using target_line_kinks [OF rat_decimal_laws raise_day_11_line refl]
  by (simp add: raise_day_11_def)

end
