(* ===== verification/Json_Grammar.thy ===== *)
theory Json_Grammar
  imports Go_Json
begin

text \<open>
  The grammar of JSON texts (RFC 8259) as \<open>encoding/json\<close> reads them, stated without its scanner: white
  space, literals, numbers, strings with their escapes, arrays and objects. The scanner of theory
  Go-Json accepts exactly these texts: one lemma per direction, the first by induction on
  the derivation, the second by induction on the length of the input.
\<close>

section \<open>Texts\<close>

definition spaces :: "string \<Rightarrow> bool" where
  "spaces w \<longleftrightarrow> list_all json_space w"

definition digits :: "string \<Rightarrow> bool" where
  "digits ds \<longleftrightarrow> ds \<noteq> [] \<and> list_all is_digit ds"

text \<open>One text after another.\<close>

definition followed :: "(string \<Rightarrow> bool) \<Rightarrow> (string \<Rightarrow> bool) \<Rightarrow> string \<Rightarrow> bool" where
  "followed P Q s \<longleftrightarrow> (\<exists>a b. s = a @ b \<and> P a \<and> Q b)"

text \<open>A number: a sign, an integer part without a leading zero, a fraction, an exponent.\<close>

definition int_text :: "string \<Rightarrow> bool" where
  "int_text s \<longleftrightarrow> s = ''0'' \<or> digits s \<and> hd s \<noteq> CHR ''0''"

definition frac_text :: "string \<Rightarrow> bool" where
  "frac_text s \<longleftrightarrow> s = [] \<or> (\<exists>ds. s = CHR ''.'' # ds \<and> digits ds)"

definition exp_text :: "string \<Rightarrow> bool" where
  "exp_text s \<longleftrightarrow> s = [] \<or>
     (\<exists>t. s \<in> {CHR ''e'' # t, CHR ''E'' # t} \<and> followed (\<lambda>sign. sign \<in> {[], ''+'', ''-''}) digits t)"

definition number_text :: "string \<Rightarrow> bool" where
  "number_text = followed (\<lambda>sign. sign \<in> {[], ''-''}) (followed int_text (followed frac_text exp_text))"

text \<open>Between the quotes: bytes that need no escape, the short escapes, and \<open>\u\<close> with four hexadecimal digits.\<close>

inductive string_body :: "string \<Rightarrow> bool" where
  body_end: "string_body []"
| body_plain: "plain_byte c \<Longrightarrow> string_body s \<Longrightarrow> string_body (c # s)"
| body_escape: "e \<in> {CHR ''b'', CHR ''f'', CHR ''n'', CHR ''r'', CHR ''t'', BSL, CHR ''/'', QUOTE} \<Longrightarrow>
    string_body s \<Longrightarrow> string_body (BSL # e # s)"
| body_unicode: "list_all (\<lambda>a. hex_digit a \<noteq> None) ds \<Longrightarrow> length ds = 4 \<Longrightarrow>
    string_body s \<Longrightarrow> string_body (BSL # CHR ''u'' # ds @ s)"

text \<open>A value and its text, a non-empty list of elements, a non-empty list of members.\<close>

inductive json_text :: "json \<Rightarrow> string \<Rightarrow> bool"
  and json_elements :: "json list \<Rightarrow> string \<Rightarrow> bool"
  and json_members :: "(string \<times> json) list \<Rightarrow> string \<Rightarrow> bool" where
  text_null: "json_text JNull ''null''"
| text_true: "json_text (JBool True) ''true''"
| text_false: "json_text (JBool False) ''false''"
| text_number: "number_text lit \<Longrightarrow> json_text (JNumber lit) lit"
| text_string: "string_body s \<Longrightarrow> json_text (JString (unquote s)) (QUOTE # s @ [QUOTE])"
| text_empty_array: "spaces w \<Longrightarrow> json_text (JArray []) (''['' @ w @ '']'')"
| text_array: "json_elements xs t \<Longrightarrow> json_text (JArray xs) (''['' @ t @ '']'')"
| text_empty_object: "spaces w \<Longrightarrow> json_text (JObject []) (''{'' @ w @ ''}'')"
| text_object: "json_members ms t \<Longrightarrow> json_text (JObject ms) (''{'' @ t @ ''}'')"
| element_last: "spaces u \<Longrightarrow> json_text x t \<Longrightarrow> spaces w \<Longrightarrow> json_elements [x] (u @ t @ w)"
| element_next: "spaces u \<Longrightarrow> json_text x t \<Longrightarrow> spaces w \<Longrightarrow> json_elements xs ts \<Longrightarrow>
    json_elements (x # xs) (u @ t @ w @ '','' @ ts)"
| member_last: "spaces u \<Longrightarrow> string_body k \<Longrightarrow> spaces w \<Longrightarrow> spaces u' \<Longrightarrow> json_text x t \<Longrightarrow> spaces w' \<Longrightarrow>
    json_members [(unquote k, x)] (u @ QUOTE # k @ QUOTE # w @ '':'' @ u' @ t @ w')"
| member_next: "spaces u \<Longrightarrow> string_body k \<Longrightarrow> spaces w \<Longrightarrow> spaces u' \<Longrightarrow> json_text x t \<Longrightarrow> spaces w' \<Longrightarrow>
    json_members ms ts \<Longrightarrow> json_members ((unquote k, x) # ms) (u @ QUOTE # k @ QUOTE # w @ '':'' @ u' @ t @ w' @ '','' @ ts)"

text \<open>A document: one value between white space, nested no deeper than the decoder's limit.\<close>

definition json_document :: "json \<Rightarrow> string \<Rightarrow> bool" where
  "json_document v s \<longleftrightarrow> json_depth v \<le> maxNestingDepth \<and>
     (\<exists>u t w. s = u @ t @ w \<and> spaces u \<and> json_text v t \<and> spaces w)"

section \<open>Numbers\<close>

text \<open>The texts the automaton of numbers accepts from each of its states.\<close>

definition accepts :: "num_state \<Rightarrow> string \<Rightarrow> bool" where
  "accepts n s \<longleftrightarrow> (case num_run n s of Some n' \<Rightarrow> num_final n' | None \<Rightarrow> False)"

lemma accepts_Nil [simp]: "accepts n [] = num_final n"
  by (simp add: accepts_def)

lemma accepts_Cons [simp]: "accepts n (c # s) = (case num_step n c of None \<Rightarrow> False | Some n' \<Rightarrow> accepts n' s)"
  by (simp add: accepts_def split: option.split)

lemma followed_Nil [simp]: "followed P Q [] \<longleftrightarrow> P [] \<and> Q []"
  by (simp add: followed_def)

lemma followed_Cons: "followed P Q (c # s) \<longleftrightarrow> P [] \<and> Q (c # s) \<or> followed (\<lambda>a. P (c # a)) Q s"
proof -
  have "(\<exists>a b. c # s = a @ b \<and> P a \<and> Q b) \<longleftrightarrow> P [] \<and> Q (c # s) \<or> (\<exists>a b. s = a @ b \<and> P (c # a) \<and> Q b)"
    (is "?l \<longleftrightarrow> ?r")
  proof
    assume ?l
    then obtain a b where "c # s = a @ b" "P a" "Q b" by blast
    then show ?r by (cases a) auto
  next
    assume ?r
    then show ?l by (metis append_Cons append_Nil)
  qed
  then show ?thesis by (simp add: followed_def)
qed

lemma followed_empty [simp]: "followed (\<lambda>a. a = []) Q = Q"
  by (simp add: followed_def fun_eq_iff)

lemma followed_never [simp]: "\<not> followed (\<lambda>a. False) Q s"
  by (simp add: followed_def)

lemma sign_unlike: "\<not> is_digit (CHR ''+'')" "\<not> is_digit (CHR ''-'')" "\<not> is_digit (CHR ''.'')" "\<not> is_digit (CHR ''e'')"
  "\<not> is_digit (CHR ''E'')" "is_digit (CHR ''0'')"
  by (simp_all add: is_digit_def byte_in_def)

lemma digits_Cons [simp]: "digits (c # s) \<longleftrightarrow> is_digit c \<and> list_all is_digit s" "\<not> digits []"
  by (simp_all add: digits_def)

lemma accepts_ExpDigits: "accepts ExpDigits s \<longleftrightarrow> list_all is_digit s"
  by (induction s) (simp_all add: num_final_def)

lemma accepts_ExpSign: "accepts ExpSign s \<longleftrightarrow> digits s"
  by (cases s) (simp_all add: num_final_def accepts_ExpDigits)

lemma accepts_Exp: "accepts Exp s \<longleftrightarrow> followed (\<lambda>sign. sign \<in> {[], ''+'', ''-''}) digits s"
proof (cases s)
  case (Cons c t)
  consider "c = CHR ''+''" | "c = CHR ''-''" | "c \<noteq> CHR ''+''" "c \<noteq> CHR ''-''" by blast
  then show ?thesis by cases (simp_all add: Cons followed_Cons accepts_ExpDigits accepts_ExpSign sign_unlike)
qed (simp add: num_final_def)

lemma exp_text_simps [simp]: "exp_text []" "exp_text (c # s) \<longleftrightarrow> is_e c \<and> accepts Exp s"
  by (auto simp: exp_text_def accepts_Exp is_e_def)

lemma accepts_Frac: "accepts Frac s \<longleftrightarrow> followed (list_all is_digit) exp_text s"
proof (induction s)
  case (Cons c s)
  then show ?case by (cases "is_digit c") (auto simp: followed_Cons is_e_def sign_unlike)
qed (simp add: num_final_def)

lemma accepts_Dot: "accepts Dot s \<longleftrightarrow> followed digits exp_text s"
  by (cases s) (simp_all add: num_final_def accepts_Frac followed_Cons)

lemma frac_text_simps [simp]: "frac_text []" "frac_text (c # s) \<longleftrightarrow> c = CHR ''.'' \<and> digits s"
  by (auto simp: frac_text_def)

lemma accepts_Zero: "accepts Zero s \<longleftrightarrow> followed frac_text exp_text s"
proof (cases s)
  case (Cons c t)
  then show ?thesis by (cases "c = CHR ''.''") (auto simp: followed_Cons accepts_Dot is_e_def)
qed (simp add: num_final_def)

lemma accepts_Digits: "accepts Digits s \<longleftrightarrow> followed (list_all is_digit) (followed frac_text exp_text) s"
proof (induction s)
  case (Cons c s)
  have "followed frac_text exp_text (c # s) \<longleftrightarrow> c = CHR ''.'' \<and> accepts Dot s \<or> is_e c \<and> accepts Exp s"
    by (auto simp: is_e_def simp flip: accepts_Zero)
  with Cons show ?case
    by (cases "is_digit c") (auto simp: followed_Cons [of "list_all is_digit"] is_e_def sign_unlike)
qed (simp add: num_final_def)

lemma int_text_simps [simp]:
  "\<not> int_text []" "int_text (c # s) \<longleftrightarrow> (if c = CHR ''0'' then s = [] else is_digit c \<and> list_all is_digit s)"
  by (auto simp: int_text_def)

lemma accepts_Neg: "accepts Neg s \<longleftrightarrow> followed int_text (followed frac_text exp_text) s"
proof (cases s)
  case (Cons c t)
  consider "c = CHR ''0''" | "c \<noteq> CHR ''0''" "is_digit c" | "c \<noteq> CHR ''0''" "\<not> is_digit c" by blast
  then show ?thesis by cases (simp_all add: Cons followed_Cons [of int_text] accepts_Zero accepts_Digits)
qed (simp add: num_final_def)

lemma json_number_text: "json_number lit \<longleftrightarrow> number_text lit"
proof (cases lit)
  case (Cons c t)
  have "json_number lit \<longleftrightarrow> (if c = CHR ''-'' then accepts Neg t else accepts Neg lit)"
    by (auto simp: Cons json_number_def num_start_def accepts_def split: option.split)
  moreover have "\<not> accepts Neg (CHR ''-'' # t)" by (simp add: sign_unlike)
  moreover have "followed int_text (followed frac_text exp_text) = accepts Neg"
    by (simp only: fun_eq_iff accepts_Neg simp_thms)
  then have "number_text (c # t) \<longleftrightarrow> accepts Neg (c # t) \<or> c = CHR ''-'' \<and> accepts Neg t"
    unfolding number_text_def by (subst followed_Cons) (cases "c = CHR ''-''"; simp del: accepts_Cons)
  ultimately show ?thesis by (auto simp: Cons simp del: accepts_Cons)
qed (simp add: json_number_def number_text_def)

section \<open>A text is scanned\<close>

lemma spaces_Cons [simp]: "spaces (c # w) \<longleftrightarrow> json_space c \<and> spaces w" "spaces []"
  by (simp_all add: spaces_def)

definition waiting :: "pstate \<Rightarrow> bool" where
  "waiting st \<longleftrightarrow> st \<in> {BeginValue, BeginValueOrEmpty, BeginStringOrEmpty, BeginString, EndValue}"

lemma waiting_settle: "waiting st \<Longrightarrow> settle (st, stk) c = (st, stk)"
  by (auto simp: waiting_def)

lemma waiting_space: "waiting st \<Longrightarrow> json_space c \<Longrightarrow> scan_step (st, stk) c = Some (st, stk)"
  by (auto simp: waiting_def)

lemma scan_waiting:
  "waiting st \<Longrightarrow> scan (st, stk) (c # s) = (case scan_step (st, stk) c of None \<Rightarrow> JSyntax s | Some cfg \<Rightarrow> scan cfg s)"
  by (auto simp: waiting_settle waiting_def)

lemma scan_spaces: "waiting st \<Longrightarrow> spaces u \<Longrightarrow> scan (st, stk) (u @ s) = scan (st, stk) s"
  by (induction u) (simp_all add: scan_waiting waiting_space del: scan.simps)

lemma waiting_states [simp]: "waiting BeginValue" "waiting BeginValueOrEmpty" "waiting BeginStringOrEmpty" "waiting BeginString" "waiting EndValue"
  by (simp_all add: waiting_def)

lemma scan_hex_digit:
  "hex_digit a \<noteq> None \<Longrightarrow> scan (InStringEscU (Suc (Suc n)) raw, stk) (a # s) = scan (InStringEscU (Suc n) (raw @ [a]), stk) s"
  "hex_digit a \<noteq> None \<Longrightarrow> scan (InStringEscU (Suc 0) raw, stk) (a # s) = scan (InString (raw @ [a]), stk) s"
  by auto

lemma scan_body:
  assumes "string_body b"
  shows "scan (InString raw, stk) (b @ QUOTE # s) = scan (complete_value (JString (unquote (raw @ b))) stk) s"
  using assms
proof (induction arbitrary: raw)
  case (body_plain c b)
  then show ?case using scan_plain [of "[c]" raw stk "b @ QUOTE # s"] by simp
next
  case (body_escape e b)
  then show ?case using scan_simple_escape [of e raw stk "b @ QUOTE # s"] by (simp del: scan.simps)
next
  case (body_unicode ds b)
  then obtain a3 a2 a1 a0 where ds: "ds = [a3, a2, a1, a0]" by (auto simp: length_Suc_conv numeral_eq_Suc)
  have "scan (InString raw, stk) (BSL # CHR ''u'' # ds @ b @ QUOTE # s) = scan (InString (raw @ [BSL, CHR ''u''] @ ds), stk) (b @ QUOTE # s)"
    using body_unicode(1) by (simp add: ds scan_u scan_hex_digit del: scan.simps)
  then show ?case using body_unicode.IH [of "raw @ [BSL, CHR ''u''] @ ds"] by (simp del: scan.simps)
qed simp

lemma scan_string_text:
  assumes "string_body b"
  shows "scan (BeginValue, stk) (QUOTE # b @ QUOTE # s) = scan (complete_value (JString (unquote b)) stk) s"
    "scan (BeginString, stk) (QUOTE # b @ QUOTE # s) = scan (complete_value (JString (unquote b)) stk) s"
  using scan_body [OF assms, of "[]"]
  by (simp_all add: scan_waiting json_space_def begin_value_def QUOTE_def del: scan.simps)

lemma scan_number_text:
  assumes "number_text lit" "ends_value (JNumber lit) s"
  shows "scan (BeginValue, stk) (lit @ s) = scan (complete_value (JNumber lit) stk) s"
proof -
  obtain c w n n' where lit: "lit = c # w" "num_start c = Some n" "num_run n w = Some n'" "num_final n'"
    using assms(1) unfolding json_number_text [symmetric]
    by (auto simp: json_number_def split: list.splits option.splits bind_splits)
  from begin_number [OF lit(2)] have "scan (BeginValue, stk) (c # w @ s) = scan (InNumber n [c], stk) (w @ s)"
    by (simp add: scan_waiting del: scan.simps)
  also have "\<dots> = scan (complete_value (JNumber ([c] @ w)) stk) s"
    using scan_number [OF lit(3,4)] assms(2) by (simp add: lit(1))
  finally show ?thesis by (simp add: lit(1))
qed

lemma json_text_head: "json_text v t \<Longrightarrow> \<exists>c t'. t = c # t' \<and> \<not> json_space c \<and> c \<noteq> CHR '']''"
proof (induction rule: json_text.cases)
  case (text_number lit)
  then obtain c t n where "lit = c # t" "num_start c = Some n"
    unfolding json_number_text [symmetric] by (auto simp: json_number_def split: list.splits option.splits bind_splits)
  then show ?case using text_number begin_number by auto
qed (simp_all add: json_space_def QUOTE_def)

lemma ends_value_spaces: "spaces w \<Longrightarrow> c \<in> {CHR '','', CHR '']'', CHR ''}''} \<Longrightarrow> ends_value v (w @ c # s)"
  by (cases v; cases w) (auto simp: num_char_def is_digit_def byte_in_def is_e_def json_space_def)

lemma complete_in_object: "complete_value v (ObjectValue ms k None # stk) = (EndValue, ObjectValue ms k (Some v) # stk)"
  by (cases v) simp_all

text \<open>The step after a value in an array and in an object.\<close>

lemma scan_end:
  assumes "spaces w"
  shows "scan (EndValue, ArrayValue xs # stk) (w @ CHR '','' # s) = scan (BeginValue, ArrayValue xs # stk) s"
    "scan (EndValue, ArrayValue xs # stk) (w @ CHR '']'' # s) = scan (complete_value (JArray xs) stk) s"
    "scan (EndValue, ObjectKey ms (Some k) # stk) (w @ CHR '':'' # s) = scan (BeginValue, ObjectValue ms k None # stk) s"
    "scan (EndValue, ObjectValue ms k (Some x) # stk) (w @ CHR '','' # s) = scan (BeginString, ObjectKey (ms @ [(k, x)]) None # stk) s"
    "scan (EndValue, ObjectValue ms k (Some x) # stk) (w @ CHR ''}'' # s) = scan (complete_value (JObject (ms @ [(k, x)])) stk) s"
  using assms by (simp_all add: scan_spaces scan_waiting json_space_def del: scan.simps)

definition scanned :: "json \<Rightarrow> string \<Rightarrow> bool" where
  "scanned v t \<longleftrightarrow> (\<forall>stk s. json_depth v + length stk \<le> maxNestingDepth \<longrightarrow> ends_value v s \<longrightarrow>
     scan (BeginValue, stk) (t @ s) = scan (complete_value v stk) s)"

definition elements_scanned :: "json list \<Rightarrow> string \<Rightarrow> bool" where
  "elements_scanned xs t \<longleftrightarrow> (\<forall>ys stk s. (\<forall>x \<in> set xs. json_depth x + Suc (length stk) \<le> maxNestingDepth) \<longrightarrow>
     scan (BeginValue, ArrayValue ys # stk) (t @ CHR '']'' # s) = scan (complete_value (JArray (ys @ xs)) stk) s)"

definition members_scanned :: "(string \<times> json) list \<Rightarrow> string \<Rightarrow> bool" where
  "members_scanned ms t \<longleftrightarrow> (\<forall>ns stk s. (\<forall>(k, x) \<in> set ms. json_depth x + Suc (length stk) \<le> maxNestingDepth) \<longrightarrow>
     scan (BeginString, ObjectKey ns None # stk) (t @ CHR ''}'' # s) = scan (complete_value (JObject (ns @ ms)) stk) s)"

lemma scannedD:
  "scanned v t \<Longrightarrow> json_depth v + length stk \<le> maxNestingDepth \<Longrightarrow> ends_value v s \<Longrightarrow>
     scan (BeginValue, stk) (t @ s) = scan (complete_value v stk) s"
  unfolding scanned_def by blast

lemma scan_element:
  assumes "spaces u" "scanned x t" "spaces w" "json_depth x + Suc (length stk) \<le> maxNestingDepth" "c \<in> {CHR '','', CHR '']''}"
  shows "scan (BeginValue, ArrayValue ys # stk) (u @ t @ w @ c # s) = scan (EndValue, ArrayValue (ys @ [x]) # stk) (w @ c # s)"
  using assms scannedD [OF assms(2), of "ArrayValue ys # stk" "w @ c # s"] ends_value_spaces [OF assms(3), of c x s]
  by (auto simp: scan_spaces simp del: scan.simps)

lemma scan_member_text:
  assumes "spaces u" "string_body k" "spaces w" "spaces u'" "scanned x t" "spaces w'"
    and "json_depth x + Suc (length stk) \<le> maxNestingDepth" "c \<in> {CHR '','', CHR ''}''}"
  shows "scan (BeginString, ObjectKey ns None # stk) (u @ QUOTE # k @ QUOTE # w @ CHR '':'' # u' @ t @ w' @ c # s) =
    scan (EndValue, ObjectValue ns (unquote k) (Some x) # stk) (w' @ c # s)"
  using assms scannedD [OF assms(5), of "ObjectValue ns (unquote k) None # stk" "w' @ c # s"] ends_value_spaces [OF assms(6), of c x s]
  by (auto simp: scan_spaces scan_string_text scan_end [OF spaces_Cons(2), unfolded append_Nil] complete_in_object simp del: scan.simps)

lemma array_scanned:
  assumes "json_elements xs t" "elements_scanned xs t"
  shows "scanned (JArray xs) (''['' @ t @ '']'')"
  unfolding scanned_def
proof (intro allI impI)
  fix stk :: "frame list" and s
  assume d: "json_depth (JArray xs) + length stk \<le> maxNestingDepth"
  have "\<forall>x \<in> set xs. json_depth x + Suc (length stk) \<le> maxNestingDepth"
    using json_depth_element(1) [of _ xs] d by fastforce
  then have e: "scan (BeginValue, ArrayValue [] # stk) (t @ CHR '']'' # s) = scan (complete_value (JArray xs) stk) s"
    using assms(2) unfolding elements_scanned_def by simp
  obtain u c t' where t: "t = u @ c # t'" "spaces u" "\<not> json_space c" "c \<noteq> CHR '']''"
    using assms(1) by cases (metis json_text_head append_Cons)+
  have "scan (BeginValueOrEmpty, ArrayValue [] # stk) (t @ CHR '']'' # s) = scan (BeginValue, ArrayValue [] # stk) (t @ CHR '']'' # s)"
    using t(2-4) by (simp add: t(1) scan_spaces scan_waiting del: scan.simps)
  with e d show "scan (BeginValue, stk) ((''['' @ t @ '']'') @ s) = scan (complete_value (JArray xs) stk) s"
    by (simp add: scan_waiting json_space_def begin_value_def push_def del: scan.simps)
qed

lemma object_scanned:
  assumes "json_members ms t" "members_scanned ms t"
  shows "scanned (JObject ms) (''{'' @ t @ ''}'')"
  unfolding scanned_def
proof (intro allI impI)
  fix stk :: "frame list" and s
  assume d: "json_depth (JObject ms) + length stk \<le> maxNestingDepth"
  have "\<forall>(k, x) \<in> set ms. json_depth x + Suc (length stk) \<le> maxNestingDepth"
    using json_depth_element(2) [of _ _ ms] d by fastforce
  then have e: "scan (BeginString, ObjectKey [] None # stk) (t @ CHR ''}'' # s) = scan (complete_value (JObject ms) stk) s"
    using assms(2) unfolding members_scanned_def by simp
  obtain u t' where t: "t = u @ QUOTE # t'" "spaces u"
    using assms(1) by cases auto
  have "scan (BeginStringOrEmpty, ObjectKey [] None # stk) (t @ CHR ''}'' # s) = scan (BeginString, ObjectKey [] None # stk) (t @ CHR ''}'' # s)"
    using t(2) by (simp add: t(1) scan_spaces scan_waiting json_space_def QUOTE_def del: scan.simps)
  with e d show "scan (BeginValue, stk) ((''{'' @ t @ ''}'') @ s) = scan (complete_value (JObject ms) stk) s"
    by (simp add: scan_waiting json_space_def begin_value_def push_def del: scan.simps)
qed

lemma empty_scanned:
  assumes "spaces w"
  shows "scanned (JArray []) (''['' @ w @ '']'')" "scanned (JObject []) (''{'' @ w @ ''}'')"
  using assms unfolding scanned_def
  by (simp_all add: scan_spaces scan_waiting json_space_def begin_value_def push_def del: scan.simps)

lemma text_scanned:
  "json_text v t \<Longrightarrow> scanned v t"
  "json_elements xs t \<Longrightarrow> elements_scanned xs t"
  "json_members ms t \<Longrightarrow> members_scanned ms t"
proof (induction rule: json_text_json_elements_json_members.inducts)
  case (text_number lit)
  then show ?case by (simp add: scanned_def scan_number_text)
next
  case (text_string b)
  then show ?case by (simp add: scanned_def scan_string_text del: scan.simps)
next
  case (element_last u x t w)
  then show ?case
    using scan_element [of u x t w _ "CHR '']''"] by (simp add: elements_scanned_def scan_end del: scan.simps)
next
  case (element_next u x t w xs ts)
  then show ?case
    using scan_element [of u x t w _ "CHR '',''"] by (simp add: elements_scanned_def scan_end del: scan.simps)
next
  case (member_last u k w u' x t w')
  then show ?case
    using scan_member_text [of u k w u' x t w' _ "CHR ''}''"] by (simp add: members_scanned_def scan_end del: scan.simps)
next
  case (member_next u k w u' x t w' ms ts)
  then show ?case
    using scan_member_text [of u k w u' x t w' _ "CHR '',''"] by (simp add: members_scanned_def scan_end del: scan.simps)
next
  case (text_array xs t)
  then show ?case by (intro array_scanned)
next
  case (text_object ms t)
  then show ?case by (intro object_scanned)
next
  case (text_empty_array w)
  then show ?case by (rule empty_scanned)
next
  case (text_empty_object w)
  then show ?case by (rule empty_scanned)
qed (simp_all add: scanned_def scan_literal [simplified append.simps] del: scan.simps)

section \<open>What is scanned is a text\<close>

text \<open>A state that skips white space: up to the byte it acts on.\<close>

lemma scan_waitingD:
  assumes "waiting st" "scan (st, stk) s = JDone v rest"
  obtains w c s1 cfg where "s = w @ c # s1" "spaces w" "\<not> json_space c" "scan_step (st, stk) c = Some cfg" "scan cfg s1 = JDone v rest"
proof -
  have "\<exists>w c s1 cfg. s = w @ c # s1 \<and> spaces w \<and> \<not> json_space c \<and> scan_step (st, stk) c = Some cfg \<and> scan cfg s1 = JDone v rest"
    using assms(2)
  proof (induction s)
    case Nil
    then show ?case using assms(1) by (auto simp: waiting_def)
  next
    case (Cons c s)
    show ?case
    proof (cases "json_space c")
      case True
      then have "scan (st, stk) s = JDone v rest"
        using Cons.prems assms(1) by (simp add: scan_waiting waiting_space del: scan.simps)
      from Cons.IH [OF this] obtain w d s1 cfg where "s = w @ d # s1" "spaces w" "\<not> json_space d"
        "scan_step (st, stk) d = Some cfg" "scan cfg s1 = JDone v rest" by blast
      then have "c # s = (c # w) @ d # s1" "spaces (c # w)" using True by simp_all
      then show ?thesis using \<open>\<not> json_space d\<close> \<open>scan_step (st, stk) d = Some cfg\<close> \<open>scan cfg s1 = JDone v rest\<close> by blast
    next
      case False
      obtain cfg where "scan_step (st, stk) c = Some cfg" "scan cfg s = JDone v rest"
        using Cons.prems assms(1) by (auto simp: scan_waiting simp del: scan.simps split: option.splits)
      then show ?thesis using False by (intro exI [of _ "[]"] exI [of _ c] exI [of _ s] exI [of _ cfg]) simp
    qed
  qed
  then show thesis using that by blast
qed

lemma scan_unicodeD:
  assumes "scan (InStringEscU 4 raw, stk) s = JDone v rest"
  shows "\<exists>ds t. s = ds @ t \<and> length ds = 4 \<and> list_all (\<lambda>a. hex_digit a \<noteq> None) ds \<and>
    scan (InString (raw @ ds), stk) t = JDone v rest"
proof -
  have step: "\<exists>a t. s = a # t \<and> hex_digit a \<noteq> None \<and>
      scan (if n \<le> 1 then InString (raw @ [a]) else InStringEscU (n - 1) (raw @ [a]), stk) t = JDone v rest"
    if "scan (InStringEscU n raw, stk) s = JDone v rest" for n raw s
    using that by (cases s) (auto split: if_splits)
  from step [OF assms] obtain a3 s3 where 3: "s = a3 # s3" "hex_digit a3 \<noteq> None" "scan (InStringEscU 3 (raw @ [a3]), stk) s3 = JDone v rest"
    by fastforce
  from step [OF 3(3)] obtain a2 s2 where 2: "s3 = a2 # s2" "hex_digit a2 \<noteq> None" "scan (InStringEscU 2 (raw @ [a3, a2]), stk) s2 = JDone v rest"
    by fastforce
  from step [OF 2(3)] obtain a1 s1 where 1: "s2 = a1 # s1" "hex_digit a1 \<noteq> None" "scan (InStringEscU 1 (raw @ [a3, a2, a1]), stk) s1 = JDone v rest"
    by fastforce
  from step [OF 1(3)] obtain a0 s0 where 0: "s1 = a0 # s0" "hex_digit a0 \<noteq> None" "scan (InString (raw @ [a3, a2, a1, a0]), stk) s0 = JDone v rest"
    by fastforce
  show ?thesis
    using 3(1,2) 2(1,2) 1(1,2) 0
    by (intro exI [of _ "[a3, a2, a1, a0]"] exI [of _ s0]) (simp del: scan.simps)
qed

text \<open>Inside a string: up to its closing quote.\<close>

lemma scan_stringD:
  "scan (InString raw, stk) s = JDone v rest \<Longrightarrow> \<exists>b s1. s = b @ QUOTE # s1 \<and> string_body b \<and>
     scan (complete_value (JString (unquote (raw @ b))) stk) s1 = JDone v rest"
proof (induction s arbitrary: raw rule: length_induct)
  case (1 s)
  obtain c t where s: "s = c # t" using "1.prems" by (cases s) auto
  have IH: "\<exists>b s1. t' = b @ QUOTE # s1 \<and> string_body b \<and> scan (complete_value (JString (unquote (raw' @ b))) stk) s1 = JDone v rest"
    if "length t' < length s" "scan (InString raw', stk) t' = JDone v rest" for t' raw'
    using "1.IH" that by blast
  consider "c = QUOTE" | "c = BSL" "c \<noteq> QUOTE" | "plain_byte c" | "c \<noteq> QUOTE" "c \<noteq> BSL" "of_char c < (0x20 :: nat)"
    unfolding plain_byte_def using not_less by blast
  then show ?case
  proof cases
    case 1
    then show ?thesis using "1.prems" s body_end by (intro exI [of _ "[]"] exI [of _ t]) (simp del: scan.simps, simp)
  next
    case 3
    then have "scan (InString (raw @ [c]), stk) t = JDone v rest" using "1.prems" s by (simp add: plain_byte_def)
    from IH [OF _ this] obtain b s1 where "t = b @ QUOTE # s1" "string_body b"
      "scan (complete_value (JString (unquote ((raw @ [c]) @ b))) stk) s1 = JDone v rest" using s by auto
    then show ?thesis using 3 s body_plain by (intro exI [of _ "c # b"] exI [of _ s1]) (simp del: scan.simps)
  next
    case 2
    then have e: "scan (InStringEsc raw, stk) t = JDone v rest" using "1.prems" s by simp
    then obtain d t1 where t: "t = d # t1" by (cases t) auto
    show ?thesis
    proof (cases "d = CHR ''u''")
      case False
      have d: "d \<in> {CHR ''b'', CHR ''f'', CHR ''n'', CHR ''r'', CHR ''t'', BSL, CHR ''/'', QUOTE}"
        and "scan (InString (raw @ [BSL, d]), stk) t1 = JDone v rest"
        using e False by (auto simp: t split: if_splits)
      from IH [OF _ this(2)] obtain b s1 where "t1 = b @ QUOTE # s1" "string_body b"
        "scan (complete_value (JString (unquote ((raw @ [BSL, d]) @ b))) stk) s1 = JDone v rest" using s t by auto
      then show ?thesis using 2 d s t body_escape by (intro exI [of _ "BSL # d # b"] exI [of _ s1]) (simp del: scan.simps)
    next
      case True
      have e: "scan (InStringEscU 4 (raw @ [BSL, CHR ''u'']), stk) t1 = JDone v rest"
        using e by (auto simp: t True BSL_def QUOTE_def split: if_splits)
      obtain ds t2 where ds: "t1 = ds @ t2" "length ds = 4" "list_all (\<lambda>a. hex_digit a \<noteq> None) ds"
        "scan (InString ((raw @ [BSL, CHR ''u'']) @ ds), stk) t2 = JDone v rest"
        using scan_unicodeD [OF e] by blast
      from IH [OF _ ds(4)] obtain b s1 where "t2 = b @ QUOTE # s1" "string_body b"
        "scan (complete_value (JString (unquote (((raw @ [BSL, CHR ''u'']) @ ds) @ b))) stk) s1 = JDone v rest" using s t ds(1) by auto
      then show ?thesis using 2 True s t ds body_unicode [OF ds(3,2)] by (intro exI [of _ "BSL # CHR ''u'' # ds @ b"] exI [of _ s1]) (simp del: scan.simps)
    qed
  next
    case 4
    then show ?thesis using "1.prems" s by simp
  qed
qed

lemma scan_numberD:
  "scan (InNumber n raw, stk) s = JDone v rest \<Longrightarrow> \<exists>w s1. s = w @ s1 \<and> accepts n w \<and>
     scan (complete_value (JNumber (raw @ w)) stk) s1 = JDone v rest"
proof (induction s arbitrary: n raw)
  case Nil
  then have "num_final n" "scan (complete_value (JNumber raw) stk) [] = JDone v rest"
    by (auto split: if_splits)
  then show ?case by simp
next
  case (Cons c s)
  show ?case
  proof (cases "num_step n c")
    case None
    then have "num_final n" "scan (complete_value (JNumber raw) stk) (c # s) = JDone v rest"
      using Cons.prems by (auto split: if_splits)
    then show ?thesis by (intro exI [of _ "[]"] exI [of _ "c # s"]) (simp del: scan.simps)
  next
    case (Some n')
    then have "scan (InNumber n' (raw @ [c]), stk) s = JDone v rest" using Cons.prems by simp
    from Cons.IH [OF this] obtain w s1 where "s = w @ s1" "accepts n' w"
      "scan (complete_value (JNumber ((raw @ [c]) @ w)) stk) s1 = JDone v rest" by blast
    then show ?thesis using Some by (intro exI [of _ "c # w"] exI [of _ s1]) (simp del: scan.simps)
  qed
qed

lemma scan_literalD:
  assumes "scan (InLiteral lit x, stk) s = JDone v rest" "lit \<noteq> []"
  shows "\<exists>s1. s = lit @ s1 \<and> scan (complete_value x stk) s1 = JDone v rest"
  using assms
proof (induction lit arbitrary: s)
  case (Cons c lit)
  obtain t where "s = c # t" "scan (if lit = [] then complete_value x stk else (InLiteral lit x, stk)) t = JDone v rest"
    using Cons.prems by (cases s) (auto split: if_splits)
  then show ?case using Cons.IH [of t] by (cases "lit = []") (auto simp del: scan.simps)
qed simp

text \<open>
  What a successful scan from the start of a value, of the elements of an array, of the members
  of an object has read, with what is left to scan.
\<close>

definition value_read :: "string \<Rightarrow> bool" where
  "value_read s \<longleftrightarrow> (\<forall>stk v rest. length stk \<le> maxNestingDepth \<longrightarrow> scan (BeginValue, stk) s = JDone v rest \<longrightarrow>
     (\<exists>u x t s1. s = u @ t @ s1 \<and> spaces u \<and> json_text x t \<and> json_depth x + length stk \<le> maxNestingDepth \<and>
        scan (complete_value x stk) s1 = JDone v rest))"

definition elements_read :: "string \<Rightarrow> bool" where
  "elements_read s \<longleftrightarrow> (\<forall>xs stk v rest. length stk < maxNestingDepth \<longrightarrow>
     scan (BeginValue, ArrayValue xs # stk) s = JDone v rest \<longrightarrow>
     (\<exists>ys t s1. s = t @ CHR '']'' # s1 \<and> json_elements ys t \<and> (\<forall>y \<in> set ys. json_depth y + Suc (length stk) \<le> maxNestingDepth) \<and>
        scan (complete_value (JArray (xs @ ys)) stk) s1 = JDone v rest))"

definition members_read :: "string \<Rightarrow> bool" where
  "members_read s \<longleftrightarrow> (\<forall>ms stk v rest. length stk < maxNestingDepth \<longrightarrow>
     scan (BeginString, ObjectKey ms None # stk) s = JDone v rest \<longrightarrow>
     (\<exists>ns t s1. s = t @ CHR ''}'' # s1 \<and> json_members ns t \<and> (\<forall>(k, y) \<in> set ns. json_depth y + Suc (length stk) \<le> maxNestingDepth) \<and>
        scan (complete_value (JObject (ms @ ns)) stk) s1 = JDone v rest))"

lemma json_depth_bound:
  "(\<forall>y \<in> set ys. json_depth y + Suc k \<le> m) \<Longrightarrow> k < m \<Longrightarrow> json_depth (JArray ys) + k \<le> m"
  "(\<forall>(a, y) \<in> set ns. json_depth y + Suc k \<le> m) \<Longrightarrow> k < m \<Longrightarrow> json_depth (JObject ns) + k \<le> m"
proof -
  have *: "(\<forall>d \<in> set ds. d + Suc k \<le> m) \<Longrightarrow> k < m \<Longrightarrow> Suc (foldr max ds 0) + k \<le> m" for ds
    by (induction ds) (auto simp: max_def)
  show "(\<forall>y \<in> set ys. json_depth y + Suc k \<le> m) \<Longrightarrow> k < m \<Longrightarrow> json_depth (JArray ys) + k \<le> m"
    using * [of "map json_depth ys"] by simp
  show "(\<forall>(a, y) \<in> set ns. json_depth y + Suc k \<le> m) \<Longrightarrow> k < m \<Longrightarrow> json_depth (JObject ns) + k \<le> m"
    using * [of "map (\<lambda>(a, y). json_depth y) ns"] by fastforce
qed

lemma elements_read_step:
  assumes "value_read s" "\<And>s'. length s' < length s \<Longrightarrow> elements_read s'"
  shows "elements_read s"
  unfolding elements_read_def
proof (intro allI impI)
  fix xs stk v rest
  assume d: "length stk < maxNestingDepth" and s: "scan (BeginValue, ArrayValue xs # stk) s = JDone v rest"
  have "length (ArrayValue xs # stk) \<le> maxNestingDepth" using d by simp
  from assms(1) [unfolded value_read_def, rule_format, OF this s] obtain u x t s1 where
    a: "s = u @ t @ s1" "spaces u" "json_text x t" "json_depth x + Suc (length stk) \<le> maxNestingDepth"
    "scan (EndValue, ArrayValue (xs @ [x]) # stk) s1 = JDone v rest"
    by (auto simp del: scan.simps)
  from a(5) obtain w c s2 cfg where b: "s1 = w @ c # s2" "spaces w" "scan_step (EndValue, ArrayValue (xs @ [x]) # stk) c = Some cfg"
    "\<not> json_space c" "scan cfg s2 = JDone v rest"
    by (elim scan_waitingD [rotated]) simp_all
  consider "c = CHR '',''" "cfg = (BeginValue, ArrayValue (xs @ [x]) # stk)"
    | "c = CHR '']''" "cfg = complete_value (JArray (xs @ [x])) stk"
    using b(3,4) by (auto split: if_splits)
  then show "\<exists>ys t s1. s = t @ CHR '']'' # s1 \<and> json_elements ys t \<and>
      (\<forall>y \<in> set ys. json_depth y + Suc (length stk) \<le> maxNestingDepth) \<and> scan (complete_value (JArray (xs @ ys)) stk) s1 = JDone v rest"
  proof cases
    case 1
    have "elements_read s2" by (rule assms(2)) (simp add: a b)
    from this [unfolded elements_read_def, rule_format, OF d b(5) [unfolded 1]] obtain ys ts s3 where
      e: "s2 = ts @ CHR '']'' # s3" "json_elements ys ts" "\<forall>y \<in> set ys. json_depth y + Suc (length stk) \<le> maxNestingDepth"
      "scan (complete_value (JArray ((xs @ [x]) @ ys)) stk) s3 = JDone v rest" by blast
    show ?thesis
      using a b 1 e element_next [OF a(2,3) b(2) e(2)]
      by (intro exI [of _ "x # ys"] exI [of _ "u @ t @ w @ '','' @ ts"] exI [of _ s3]) (simp del: scan.simps)
  next
    case 2
    show ?thesis
      using a b 2 element_last [OF a(2,3) b(2)]
      by (intro exI [of _ "[x]"] exI [of _ "u @ t @ w"] exI [of _ s2]) (simp del: scan.simps)
  qed
qed

lemma members_read_step:
  assumes "\<And>s'. length s' < length s \<Longrightarrow> value_read s' \<and> members_read s'"
  shows "members_read s"
  unfolding members_read_def
proof (intro allI impI)
  fix ms stk v rest
  assume d: "length stk < maxNestingDepth" and s: "scan (BeginString, ObjectKey ms None # stk) s = JDone v rest"
  from s obtain u c s1 cfg where a: "s = u @ c # s1" "spaces u" "scan_step (BeginString, ObjectKey ms None # stk) c = Some cfg"
    "\<not> json_space c" "scan cfg s1 = JDone v rest"
    by (elim scan_waitingD [rotated]) simp_all
  then have c: "c = QUOTE" "scan (InString [], ObjectKey ms None # stk) s1 = JDone v rest"
    by (auto split: if_splits)
  from scan_stringD [OF c(2)] obtain k s2 where k: "s1 = k @ QUOTE # s2" "string_body k"
    "scan (EndValue, ObjectKey ms (Some (unquote k)) # stk) s2 = JDone v rest" by (auto simp del: scan.simps)
  from k(3) obtain w c2 s3 cfg2 where b: "s2 = w @ c2 # s3" "spaces w" "scan_step (EndValue, ObjectKey ms (Some (unquote k)) # stk) c2 = Some cfg2"
    "\<not> json_space c2" "scan cfg2 s3 = JDone v rest"
    by (elim scan_waitingD [rotated]) simp_all
  then have c2: "c2 = CHR '':''" "scan (BeginValue, ObjectValue ms (unquote k) None # stk) s3 = JDone v rest"
    by (auto split: if_splits)
  have "value_read s3" using assms [of s3] by (simp add: a k b)
  from this [unfolded value_read_def, rule_format, OF _ c2(2)] obtain u' x t s4 where
    x: "s3 = u' @ t @ s4" "spaces u'" "json_text x t" "json_depth x + Suc (length stk) \<le> maxNestingDepth"
    "scan (EndValue, ObjectValue ms (unquote k) (Some x) # stk) s4 = JDone v rest"
    using d by (auto simp: complete_in_object simp del: scan.simps)
  from x(5) obtain w' c3 s5 cfg3 where e: "s4 = w' @ c3 # s5" "spaces w'"
    "scan_step (EndValue, ObjectValue ms (unquote k) (Some x) # stk) c3 = Some cfg3" "\<not> json_space c3" "scan cfg3 s5 = JDone v rest"
    by (elim scan_waitingD [rotated]) simp_all
  let ?t = "u @ QUOTE # k @ QUOTE # w @ '':'' @ u' @ t @ w'"
  have s: "s = ?t @ c3 # s5" by (simp add: a k b x e c c2)
  consider "c3 = CHR '',''" "cfg3 = (BeginString, ObjectKey (ms @ [(unquote k, x)]) None # stk)"
    | "c3 = CHR ''}''" "cfg3 = complete_value (JObject (ms @ [(unquote k, x)])) stk"
    using e(3,4) by (auto split: if_splits)
  then show "\<exists>ns t s1. s = t @ CHR ''}'' # s1 \<and> json_members ns t \<and>
      (\<forall>(k, y) \<in> set ns. json_depth y + Suc (length stk) \<le> maxNestingDepth) \<and> scan (complete_value (JObject (ms @ ns)) stk) s1 = JDone v rest"
  proof cases
    case 1
    have "members_read s5" using assms [of s5] by (simp add: s)
    from this [unfolded members_read_def, rule_format, OF d e(5) [unfolded 1]] obtain ns ts s6 where
      r: "s5 = ts @ CHR ''}'' # s6" "json_members ns ts" "\<forall>(k, y) \<in> set ns. json_depth y + Suc (length stk) \<le> maxNestingDepth"
      "scan (complete_value (JObject ((ms @ [(unquote k, x)]) @ ns)) stk) s6 = JDone v rest" by blast
    show ?thesis
      using s 1 r x(4) member_next [OF a(2) k(2) b(2) x(2,3) e(2) r(2)]
      by (intro exI [of _ "(unquote k, x) # ns"] exI [of _ "?t @ '','' @ ts"] exI [of _ s6]) (simp del: scan.simps)
  next
    case 2
    show ?thesis
      using s 2 e(5) x(4) member_last [OF a(2) k(2) b(2) x(2,3) e(2)]
      by (intro exI [of _ "[(unquote k, x)]"] exI [of _ ?t] exI [of _ s5]) (simp del: scan.simps)
  qed
qed

lemma array_read:
  assumes "elements_read s" "length stk < maxNestingDepth" "scan (BeginValueOrEmpty, ArrayValue [] # stk) s = JDone v rest"
  shows "\<exists>x t s1. CHR ''['' # s = t @ s1 \<and> json_text x t \<and> json_depth x + length stk \<le> maxNestingDepth \<and>
    scan (complete_value x stk) s1 = JDone v rest"
proof -
  obtain w c s1 cfg where a: "s = w @ c # s1" "spaces w" "\<not> json_space c"
    "scan_step (BeginValueOrEmpty, ArrayValue [] # stk) c = Some cfg" "scan cfg s1 = JDone v rest"
    using assms(3) by (elim scan_waitingD [rotated]) simp_all
  show ?thesis
  proof (cases "c = CHR '']''")
    case True
    then show ?thesis using a assms(2) text_empty_array [OF a(2)]
      by (intro exI [of _ "JArray []"] exI [of _ "''['' @ w @ '']''"] exI [of _ s1]) (simp del: scan.simps)
  next
    case False
    then have "scan (BeginValue, ArrayValue [] # stk) s = JDone v rest"
      using a by (simp add: scan_spaces scan_waiting del: scan.simps)
    from assms(1) [unfolded elements_read_def, rule_format, OF assms(2) this] obtain ys t s2 where
      e: "s = t @ CHR '']'' # s2" "json_elements ys t" "\<forall>y \<in> set ys. json_depth y + Suc (length stk) \<le> maxNestingDepth"
      "scan (complete_value (JArray ys) stk) s2 = JDone v rest" by auto
    show ?thesis using e text_array [OF e(2)] json_depth_bound(1) [OF e(3) assms(2)]
      by (intro exI [of _ "JArray ys"] exI [of _ "''['' @ t @ '']''"] exI [of _ s2]) (simp del: scan.simps)
  qed
qed

lemma object_read:
  assumes "members_read s" "length stk < maxNestingDepth" "scan (BeginStringOrEmpty, ObjectKey [] None # stk) s = JDone v rest"
  shows "\<exists>x t s1. CHR ''{'' # s = t @ s1 \<and> json_text x t \<and> json_depth x + length stk \<le> maxNestingDepth \<and>
    scan (complete_value x stk) s1 = JDone v rest"
proof -
  obtain w c s1 cfg where a: "s = w @ c # s1" "spaces w" "\<not> json_space c"
    "scan_step (BeginStringOrEmpty, ObjectKey [] None # stk) c = Some cfg" "scan cfg s1 = JDone v rest"
    using assms(3) by (elim scan_waitingD [rotated]) simp_all
  show ?thesis
  proof (cases "c = CHR ''}''")
    case True
    then show ?thesis using a assms(2) text_empty_object [OF a(2)]
      by (intro exI [of _ "JObject []"] exI [of _ "''{'' @ w @ ''}''"] exI [of _ s1]) (simp del: scan.simps)
  next
    case False
    then have "scan (BeginString, ObjectKey [] None # stk) s = JDone v rest"
      using a by (auto simp: scan_spaces scan_waiting simp del: scan.simps split: if_splits)
    from assms(1) [unfolded members_read_def, rule_format, OF assms(2) this] obtain ns t s2 where
      e: "s = t @ CHR ''}'' # s2" "json_members ns t" "\<forall>(k, y) \<in> set ns. json_depth y + Suc (length stk) \<le> maxNestingDepth"
      "scan (complete_value (JObject ns) stk) s2 = JDone v rest" by auto
    show ?thesis using e text_object [OF e(2)] json_depth_bound(2) [OF e(3) assms(2)]
      by (intro exI [of _ "JObject ns"] exI [of _ "''{'' @ t @ ''}''"] exI [of _ s2]) (simp del: scan.simps)
  qed
qed

lemma literal_read:
  assumes "scan (InLiteral lit y, stk) s = JDone v rest" "lit \<noteq> []" "json_text y (c # lit)" "json_depth y = 0"
  shows "\<exists>x t s1. c # s = t @ s1 \<and> json_text x t \<and> json_depth x = 0 \<and> scan (complete_value x stk) s1 = JDone v rest"
proof -
  obtain s1 where "s = lit @ s1" "scan (complete_value y stk) s1 = JDone v rest"
    using scan_literalD [OF assms(1,2)] by blast
  then show ?thesis using assms(3,4) by (intro exI [of _ y] exI [of _ "c # lit"] exI [of _ s1]) (simp del: scan.simps)
qed

lemma scalar_read:
  assumes "begin_value c stk = Some cfg" "c \<noteq> CHR ''['' " "c \<noteq> CHR ''{''" "scan cfg s = JDone v rest"
  shows "\<exists>x t s1. c # s = t @ s1 \<and> json_text x t \<and> json_depth x = 0 \<and> scan (complete_value x stk) s1 = JDone v rest"
proof -
  consider "c = QUOTE" "cfg = (InString [], stk)"
    | "c = CHR ''t''" "cfg = (InLiteral ''rue'' (JBool True), stk)"
    | "c = CHR ''f''" "cfg = (InLiteral ''alse'' (JBool False), stk)"
    | "c = CHR ''n''" "cfg = (InLiteral ''ull'' JNull, stk)"
    | n where "num_start c = Some n" "cfg = (InNumber n [c], stk)"
    using assms(1-3) by (auto simp: begin_value_def split: if_splits option.splits)
  then show ?thesis
  proof cases
    case 1
    from scan_stringD [OF assms(4) [unfolded 1]] obtain b s1 where "s = b @ QUOTE # s1" "string_body b"
      "scan (complete_value (JString (unquote b)) stk) s1 = JDone v rest" by auto
    then show ?thesis using 1 text_string [of b]
      by (intro exI [of _ "JString (unquote b)"] exI [of _ "QUOTE # b @ [QUOTE]"] exI [of _ s1]) (simp del: scan.simps)
  next
    case 2
    show ?thesis using literal_read [OF assms(4) [unfolded 2], of c] 2(1) text_true by simp
  next
    case 3
    show ?thesis using literal_read [OF assms(4) [unfolded 3], of c] 3(1) text_false by simp
  next
    case 4
    show ?thesis using literal_read [OF assms(4) [unfolded 4], of c] 4(1) text_null by simp
  next
    case (5 n)
    from scan_numberD [OF assms(4) [unfolded 5]] obtain w s1 where n: "s = w @ s1" "accepts n w"
      "scan (complete_value (JNumber (c # w)) stk) s1 = JDone v rest" by auto
    have "number_text (c # w)"
      unfolding json_number_text [symmetric] using n(2) 5(1) by (simp add: json_number_def accepts_def)
    then show ?thesis using n text_number [of "c # w"]
      by (intro exI [of _ "JNumber (c # w)"] exI [of _ "c # w"] exI [of _ s1]) (simp del: scan.simps)
  qed
qed

lemma value_read_step:
  assumes "\<And>s'. length s' < length s \<Longrightarrow> elements_read s' \<and> members_read s'"
  shows "value_read s"
  unfolding value_read_def
proof (intro allI impI)
  fix stk v rest
  assume d: "length stk \<le> maxNestingDepth" and s: "scan (BeginValue, stk) s = JDone v rest"
  obtain u c s1 cfg where a: "s = u @ c # s1" "spaces u" "\<not> json_space c" "begin_value c stk = Some cfg" "scan cfg s1 = JDone v rest"
    using s by (elim scan_waitingD [rotated]) simp_all
  have l: "length s1 < length s" by (simp add: a(1))
  consider "c = CHR ''[''" | "c = CHR ''{''" | "c \<noteq> CHR ''[''" "c \<noteq> CHR ''{''" by blast
  then have "\<exists>x t s2. c # s1 = t @ s2 \<and> json_text x t \<and> json_depth x + length stk \<le> maxNestingDepth \<and>
      scan (complete_value x stk) s2 = JDone v rest"
  proof cases
    case 1
    then show ?thesis using array_read [of s1 stk v rest] assms [OF l] a(4,5) by (auto simp: begin_value_def push_def simp del: scan.simps split: if_splits)
  next
    case 2
    then show ?thesis using object_read [of s1 stk v rest] assms [OF l] a(4,5) by (auto simp: begin_value_def push_def simp del: scan.simps split: if_splits)
  next
    case 3
    then show ?thesis using scalar_read [OF a(4) _ _ a(5)] d by fastforce
  qed
  then show "\<exists>u x t s1. s = u @ t @ s1 \<and> spaces u \<and> json_text x t \<and> json_depth x + length stk \<le> maxNestingDepth \<and>
      scan (complete_value x stk) s1 = JDone v rest"
    using a(1,2) by metis
qed

lemma scanned_is_text: "value_read s \<and> elements_read s \<and> members_read s"
proof (induction s rule: length_induct)
  case (1 s)
  then have v: "value_read s" by (intro value_read_step) blast
  moreover have "elements_read s" using 1 by (intro elements_read_step [OF v]) blast
  moreover have "members_read s" using 1 by (intro members_read_step) blast
  ultimately show ?case by blast
qed

section \<open>The decoder and the grammar\<close>

lemma complete_top: "complete_value v [] = (Top v, [])"
  by (cases v) simp_all

lemma scan_top: "scan (Top v, []) s = JDone v s"
  by (cases s) simp_all

lemma json_Decode_text:
  assumes "json_Decode s = Inr (v, rest)"
  shows "\<exists>u t. s = u @ t @ rest \<and> spaces u \<and> json_text v t \<and> json_depth v \<le> maxNestingDepth"
proof -
  have "scan (BeginValue, []) s = JDone v rest"
    using assms by (simp add: json_Decode_def split: scan_result.splits)
  then obtain u x t s1 where "s = u @ t @ s1" "spaces u" "json_text x t" "json_depth x \<le> maxNestingDepth"
    "scan (complete_value x []) s1 = JDone v rest"
    using scanned_is_text [of s, THEN conjunct1, unfolded value_read_def, rule_format, of "[]" v rest] by auto
  then show ?thesis by (auto simp: complete_top scan_top simp del: scan.simps)
qed

lemma json_text_Decode:
  assumes "spaces u" "json_text v t" "json_depth v \<le> maxNestingDepth" "ends_value v rest"
  shows "json_Decode (u @ t @ rest) = Inr (v, rest)"
proof -
  have "scan (BeginValue, []) (u @ t @ rest) = JDone v rest"
    using scannedD [OF text_scanned(1) [OF assms(2)], of "[]" rest] assms
    by (simp add: scan_spaces complete_top scan_top del: scan.simps)
  then show ?thesis by (simp add: json_Decode_def)
qed

text \<open>The first value of the stream with nothing but white space behind it: exactly the documents.\<close>

lemma json_Decode_document:
  "(\<exists>rest. json_Decode s = Inr (v, rest) \<and> spaces rest) \<longleftrightarrow> json_document v s"
proof
  assume "\<exists>rest. json_Decode s = Inr (v, rest) \<and> spaces rest"
  then show "json_document v s" using json_Decode_text unfolding json_document_def by blast
next
  assume "json_document v s"
  then obtain u t w where s: "s = u @ t @ w" "spaces u" "json_text v t" "spaces w" "json_depth v \<le> maxNestingDepth"
    by (auto simp: json_document_def)
  have "ends_value v w"
    using s(4) by (cases v; cases w) (auto simp: num_char_def is_digit_def byte_in_def is_e_def json_space_def)
  from json_text_Decode [OF s(2,3,5) this] s show "\<exists>rest. json_Decode s = Inr (v, rest) \<and> spaces rest" by blast
qed

end
