(* ===== verification/Argon_Permits.thy ===== *)
theory Argon_Permits
  imports Password "HOL-Library.Multiset"
begin

text \<open>
  The process-wide bound on concurrent Argon2id work (\<open>password.go\<close>: \<open>argonSem\<close>, the three
  atomic counters, \<open>acquireArgonPermit\<close> and \<open>releaseArgonPermit\<close>) as a transition system: one
  step per atomic operation, any number of callers interleaved in any order. Callers are
  a multiset of program points.
\<close>

section \<open>The state\<close>

datatype caller =
    Queued           \<comment> \<open>counted as waiting, at the \<open>select\<close>\<close>
  | Leaving          \<comment> \<open>\<open>ctx.Done()\<close> was chosen; the deferred decrement is still to run\<close>
  | TookSem          \<comment> \<open>the send on \<open>argonSem\<close> went through\<close>
  | Counted int      \<comment> \<open>\<open>n := argonInFlight.Add(1)\<close> done, at the head of the loop\<close>
  | Loaded int int   \<comment> \<open>\<open>n\<close> and the \<open>peak\<close> just loaded\<close>
  | Acquired         \<comment> \<open>the loop is left; the deferred decrement is still to run\<close>
  | Holding          \<comment> \<open>\<open>acquireArgonPermit\<close> returned nil\<close>
  | Releasing        \<comment> \<open>\<open>argonInFlight.Add(-1)\<close> done, the receive is still to run\<close>

record argon_state =
  argonSem :: nat
  argonInFlight :: int
  argonPeakInFlight :: int
  argonWaiting :: int
  callers :: "caller multiset"

definition argon_init :: "argon_state \<Rightarrow> bool" where
  "argon_init s \<longleftrightarrow>
     s = \<lparr>argonSem = 0, argonInFlight = 0, argonPeakInFlight = 0, argonWaiting = 0, callers = {#}\<rparr>"

section \<open>The steps\<close>

definition move :: "caller \<Rightarrow> caller \<Rightarrow> argon_state \<Rightarrow> argon_state" where
  "move p q s = s\<lparr>callers := add_mset q (callers s - {#p#})\<rparr>"

definition leave :: "caller \<Rightarrow> argon_state \<Rightarrow> argon_state" where
  "leave p s = s\<lparr>callers := callers s - {#p#}\<rparr>"

inductive acquire_step :: "argon_state \<Rightarrow> argon_state \<Rightarrow> bool" where
  arrive: "acquire_step s (s\<lparr>argonWaiting := argonWaiting s + 1, callers := add_mset Queued (callers s)\<rparr>)"
| take_sem: "Queued \<in># callers s \<Longrightarrow> argonSem s < argonConcurrencyCap \<Longrightarrow>
    acquire_step s (move Queued TookSem (s\<lparr>argonSem := argonSem s + 1\<rparr>))"
| ctx_done: "Queued \<in># callers s \<Longrightarrow> acquire_step s (move Queued Leaving s)"
| return_err: "Leaving \<in># callers s \<Longrightarrow>
    acquire_step s (leave Leaving (s\<lparr>argonWaiting := argonWaiting s - 1\<rparr>))"
| count: "TookSem \<in># callers s \<Longrightarrow>
    acquire_step s (move TookSem (Counted (argonInFlight s + 1))
      (s\<lparr>argonInFlight := argonInFlight s + 1\<rparr>))"
| load: "Counted n \<in># callers s \<Longrightarrow>
    acquire_step s (move (Counted n) (Loaded n (argonPeakInFlight s)) s)"
| not_a_peak: "Loaded n peak \<in># callers s \<Longrightarrow> n \<le> peak \<Longrightarrow>
    acquire_step s (move (Loaded n peak) Acquired s)"
| swap: "Loaded n peak \<in># callers s \<Longrightarrow> \<not> n \<le> peak \<Longrightarrow> argonPeakInFlight s = peak \<Longrightarrow>
    acquire_step s (move (Loaded n peak) Acquired (s\<lparr>argonPeakInFlight := n\<rparr>))"
| swap_lost: "Loaded n peak \<in># callers s \<Longrightarrow> \<not> n \<le> peak \<Longrightarrow> argonPeakInFlight s \<noteq> peak \<Longrightarrow>
    acquire_step s (move (Loaded n peak) (Counted n) s)"
| return_nil: "Acquired \<in># callers s \<Longrightarrow>
    acquire_step s (move Acquired Holding (s\<lparr>argonWaiting := argonWaiting s - 1\<rparr>))"

inductive release_step :: "argon_state \<Rightarrow> argon_state \<Rightarrow> bool" where
  uncount: "Holding \<in># callers s \<Longrightarrow>
    release_step s (move Holding Releasing (s\<lparr>argonInFlight := argonInFlight s - 1\<rparr>))"
| receive: "Releasing \<in># callers s \<Longrightarrow> 0 < argonSem s \<Longrightarrow>
    release_step s (leave Releasing (s\<lparr>argonSem := argonSem s - 1\<rparr>))"

definition argon_step :: "argon_state \<Rightarrow> argon_state \<Rightarrow> bool" where
  "argon_step s t \<longleftrightarrow> acquire_step s t \<or> release_step s t"

section \<open>The invariant\<close>

fun has_permit :: "caller \<Rightarrow> bool" where
  "has_permit Queued = False"
| "has_permit Leaving = False"
| "has_permit _ = True"

fun in_flight :: "caller \<Rightarrow> bool" where
  "in_flight (Counted n) = True"
| "in_flight (Loaded n p) = True"
| "in_flight Acquired = True"
| "in_flight Holding = True"
| "in_flight _ = False"

fun is_waiting :: "caller \<Rightarrow> bool" where
  "is_waiting Holding = False"
| "is_waiting Releasing = False"
| "is_waiting _ = True"

definition tally :: "(caller \<Rightarrow> bool) \<Rightarrow> argon_state \<Rightarrow> nat" where
  "tally P s = size (filter_mset P (callers s))"

text \<open>What a caller inside the peak loop has read is consistent with the counters.\<close>

fun caller_ok :: "int \<Rightarrow> caller \<Rightarrow> bool" where
  "caller_ok peak (Counted n) = (n \<le> int argonConcurrencyCap)"
| "caller_ok peak (Loaded n p) = (n \<le> int argonConcurrencyCap \<and> p \<le> peak)"
| "caller_ok peak _ = True"

text \<open>The loop will still raise the peak to at least \<open>k\<close>.\<close>

fun will_raise :: "int \<Rightarrow> caller \<Rightarrow> bool" where
  "will_raise k (Counted n) = (k \<le> n)"
| "will_raise k (Loaded n p) = (k \<le> n)"
| "will_raise k _ = False"

definition argon_inv :: "argon_state \<Rightarrow> bool" where
  "argon_inv s \<longleftrightarrow>
     argonSem s = tally has_permit s \<and> argonSem s \<le> argonConcurrencyCap \<and>
     argonInFlight s = int (tally in_flight s) \<and> argonWaiting s = int (tally is_waiting s) \<and>
     argonPeakInFlight s \<le> int argonConcurrencyCap \<and>
     (\<forall>c \<in># callers s. caller_ok (argonPeakInFlight s) c) \<and>
     (argonInFlight s \<le> argonPeakInFlight s \<or> (\<exists>c \<in># callers s. will_raise (argonInFlight s) c))"

lemma tally_move:
  "p \<in># callers s \<Longrightarrow> tally P (move p q s) = tally P s - of_bool (P p) + of_bool (P q)"
  by (auto simp: tally_def move_def size_Diff_singleton)

lemma tally_leave: "p \<in># callers s \<Longrightarrow> tally P (leave p s) = tally P s - of_bool (P p)"
  by (auto simp: tally_def leave_def size_Diff_singleton)

lemma tally_pos: "p \<in># callers s \<Longrightarrow> P p \<Longrightarrow> 0 < tally P s"
  by (auto simp: tally_def nonempty_has_size [symmetric])

lemma tally_update [simp]:
  "tally P (s\<lparr>argonSem := a\<rparr>) = tally P s" "tally P (s\<lparr>argonInFlight := b\<rparr>) = tally P s"
  "tally P (s\<lparr>argonPeakInFlight := b\<rparr>) = tally P s" "tally P (s\<lparr>argonWaiting := b\<rparr>) = tally P s"
  "tally P (s\<lparr>argonWaiting := b, callers := M\<rparr>) = size (filter_mset P M)"
  by (simp_all add: tally_def)

lemma in_flight_le_permits: "tally in_flight s \<le> tally has_permit s"
  unfolding tally_def
  by (intro size_mset_mono filter_mset_mono_strong) (auto elim: in_flight.elims)

lemma in_flight_lt_permits: "TookSem \<in># callers s \<Longrightarrow> tally in_flight s < tally has_permit s"
  using in_flight_le_permits [of "leave TookSem s"] tally_pos [of TookSem s has_permit]
  by (simp add: tally_leave)

lemma callers_move [simp]: "callers (move p q s) = add_mset q (callers s - {#p#})"
  and callers_leave [simp]: "callers (leave p s) = callers s - {#p#}"
  by (simp_all add: move_def leave_def)

lemma counters_move [simp]:
  "argonSem (move p q s) = argonSem s" "argonInFlight (move p q s) = argonInFlight s"
  "argonPeakInFlight (move p q s) = argonPeakInFlight s" "argonWaiting (move p q s) = argonWaiting s"
  "argonSem (leave p s) = argonSem s" "argonInFlight (leave p s) = argonInFlight s"
  "argonPeakInFlight (leave p s) = argonPeakInFlight s" "argonWaiting (leave p s) = argonWaiting s"
  by (simp_all add: move_def leave_def)

text \<open>The invariant in three parts, each kept by every step for its own reason.\<close>

definition counters_inv :: "argon_state \<Rightarrow> bool" where
  "counters_inv s \<longleftrightarrow>
     argonSem s = tally has_permit s \<and> argonSem s \<le> argonConcurrencyCap \<and>
     argonInFlight s = int (tally in_flight s) \<and> argonWaiting s = int (tally is_waiting s)"

definition loop_inv :: "argon_state \<Rightarrow> bool" where
  "loop_inv s \<longleftrightarrow> argonPeakInFlight s \<le> int argonConcurrencyCap \<and>
     (\<forall>c \<in># callers s. caller_ok (argonPeakInFlight s) c)"

definition peak_inv :: "argon_state \<Rightarrow> bool" where
  "peak_inv s \<longleftrightarrow> argonInFlight s \<le> argonPeakInFlight s \<or>
     (\<exists>c \<in># callers s. will_raise (argonInFlight s) c)"

lemma argon_inv_parts: "argon_inv s \<longleftrightarrow> counters_inv s \<and> loop_inv s \<and> peak_inv s"
  by (auto simp: argon_inv_def counters_inv_def loop_inv_def peak_inv_def)

lemmas tally_step = tally_move tally_leave

lemma counters_step:
  assumes "counters_inv s" "argon_step s t"
  shows "counters_inv t"
  using assms(2) unfolding argon_step_def
proof (elim disjE)
  assume "acquire_step s t"
  then show ?thesis
    using assms(1) tally_pos [of Queued s is_waiting] tally_pos [of Leaving s is_waiting]
      tally_pos [of TookSem s has_permit] tally_pos [of TookSem s is_waiting]
      tally_pos [of Acquired s is_waiting] tally_pos [of Acquired s has_permit]
      tally_pos [of Acquired s in_flight]
    by cases (auto simp: counters_inv_def tally_step tally_pos Suc_le_eq int_ops simp flip: tally_def
        dest: tally_pos [where P = has_permit] tally_pos [where P = in_flight] tally_pos [where P = is_waiting])
next
  assume "release_step s t"
  then show ?thesis
    using assms(1) tally_pos [of Holding s in_flight] tally_pos [of Holding s has_permit]
      tally_pos [of Releasing s has_permit]
    by cases (auto simp: counters_inv_def tally_step)
qed

lemma caller_ok_mono: "caller_ok peak c \<Longrightarrow> peak \<le> peak' \<Longrightarrow> caller_ok peak' c"
  by (cases c) auto

lemma loop_step:
  assumes "loop_inv s" "counters_inv s" "argon_step s t"
  shows "loop_inv t"
proof -
  have ok: "caller_ok (argonPeakInFlight s) c" if "c \<in># callers s" for c
    using assms(1) that by (simp add: loop_inv_def)
  have room: "int (tally in_flight s) < int argonConcurrencyCap" if "TookSem \<in># callers s"
    using in_flight_lt_permits [OF that] assms(2) by (simp add: counters_inv_def)
  from assms(3) show ?thesis unfolding argon_step_def
  proof (elim disjE)
    assume "acquire_step s t"
    then show ?thesis
    proof cases
      case (count)
      then show ?thesis using assms(1,2) room by (auto simp: loop_inv_def counters_inv_def dest: in_diffD)
    next
      case (swap n peak)
      then have "caller_ok n c" if "c \<in># callers s" for c
        using caller_ok_mono [OF ok [OF that], of n] by simp
      then show ?thesis using swap ok [OF swap(2)] by (auto simp: loop_inv_def dest!: in_diffD)
    qed (use assms(1) ok in \<open>fastforce simp: loop_inv_def dest: in_diffD\<close>)+
  next
    assume "release_step s t"
    then show ?thesis
      using assms(1) by cases (auto simp: loop_inv_def dest: in_diffD)
  qed
qed

lemma will_raise_mono: "will_raise k c \<Longrightarrow> j \<le> k \<Longrightarrow> will_raise j c"
  by (cases c) auto

lemma peak_step:
  assumes "peak_inv s" "loop_inv s" "argon_step s t"
  shows "peak_inv t"
proof (cases "argonInFlight s \<le> argonPeakInFlight s")
  case True
  with assms(3) show ?thesis
    unfolding argon_step_def by (auto simp: peak_inv_def elim!: acquire_step.cases release_step.cases)
next
  case False
  then obtain c where c: "c \<in># callers s" "will_raise (argonInFlight s) c"
    using assms(1) by (auto simp: peak_inv_def)
  have ok: "caller_ok (argonPeakInFlight s) c" if "c \<in># callers s" for c
    using assms(2) that by (simp add: loop_inv_def)
  have stays: "c \<in># callers s - {#p#}" if "p \<noteq> c" for p
    using c(1) that by (simp add: in_diff_count)
  from assms(3) show ?thesis unfolding argon_step_def
  proof (elim disjE)
    assume "acquire_step s t"
    then show ?thesis
    proof cases
      case (load n)
      then show ?thesis using c stays [of "Counted n"] by (cases "Counted n = c") (auto simp: peak_inv_def)
    next
      case (not_a_peak n peak)
      then show ?thesis using c stays [of "Loaded n peak"] ok [OF not_a_peak(2)]
        by (cases "Loaded n peak = c") (auto simp: peak_inv_def)
    next
      case (swap n peak)
      then show ?thesis using c stays [of "Loaded n peak"]
        by (cases "Loaded n peak = c") (auto simp: peak_inv_def)
    next
      case (swap_lost n peak)
      then show ?thesis using c stays [of "Loaded n peak"]
        by (cases "Loaded n peak = c") (auto simp: peak_inv_def)
    qed (use c stays in \<open>force simp: peak_inv_def\<close>)+
  next
    assume "release_step s t"
    then show ?thesis
      using c stays by cases (force simp: peak_inv_def intro: will_raise_mono)+
  qed
qed

interpretation argon: invariant_system argon_init argon_step argon_inv
proof
  show "argon_inv s" if "argon_init s" for s
    using that by (simp add: argon_inv_def argon_init_def tally_def argonConcurrencyCap_def)
  show "argon_inv t" if "argon_inv s" "argon_step s t" for s t
    using that counters_step loop_step peak_step by (auto simp: argon_inv_parts)
qed

text \<open>
  C23. However callers interleave, at most four hold a permit and at most four hashes are in
  flight, the recorded peak included; the channel holds exactly one token per permit
  holder, so no permit leaks and a release never blocks; and once no caller is inside the
  peak loop the recorded peak is at least the number in flight.
\<close>

theorem argon_work_bounded:
  assumes "reach argon_init argon_step s"
  shows "argonSem s = size (filter_mset has_permit (callers s)) \<and> argonSem s \<le> 4 \<and>
    argonInFlight s \<le> 4 \<and> argonPeakInFlight s \<le> 4 \<and>
    (Releasing \<in># callers s \<longrightarrow> 0 < argonSem s) \<and>
    ((\<forall>c \<in># callers s. \<not> will_raise (argonInFlight s) c) \<longrightarrow>
       argonInFlight s \<le> argonPeakInFlight s)"
proof -
  have inv: "argon_inv s" using assms by (rule argon.reach_inv)
  moreover have "Releasing \<in># callers s \<longrightarrow> 0 < tally has_permit s" by (auto intro: tally_pos)
  ultimately show ?thesis
    using in_flight_le_permits [of s]
    by (auto simp: argon_inv_def argonConcurrencyCap_def tally_def)
qed

definition one_holder :: argon_state where
  "one_holder = \<lparr>argonSem = 1, argonInFlight = 1, argonPeakInFlight = 1, argonWaiting = 0,
     callers = {#Holding#}\<rparr>"

lemma one_holder_reachable: "reach argon_init argon_step one_holder"
proof -
  let ?s = "\<lambda>a b c d m. \<lparr>argonSem = a, argonInFlight = b, argonPeakInFlight = c, argonWaiting = d, callers = m\<rparr>"
  note [simp] = move_def argonConcurrencyCap_def
  have st: "reach argon_init argon_step u \<Longrightarrow> acquire_step u v \<Longrightarrow> reach argon_init argon_step v" for u v
    by (erule reach_step) (simp add: argon_step_def)
  have "reach argon_init argon_step (?s 0 0 0 0 {#})" by (rule reach_init) (simp add: argon_init_def)
  from st [OF this arrive] have "reach argon_init argon_step (?s 0 0 0 1 {#Queued#})" by simp
  from st [OF this take_sem] have "reach argon_init argon_step (?s 1 0 0 1 {#TookSem#})" by simp
  from st [OF this count] have "reach argon_init argon_step (?s 1 1 0 1 {#Counted 1#})" by simp
  from st [OF this load, of 1] have "reach argon_init argon_step (?s 1 1 0 1 {#Loaded 1 0#})" by simp
  from st [OF this swap, of 1 0] have "reach argon_init argon_step (?s 1 1 1 1 {#Acquired#})" by simp
  from st [OF this return_nil] show ?thesis by (simp add: one_holder_def)
qed

theorem argon_work_bounded_witness:
  "reach argon_init argon_step one_holder \<and> argonSem one_holder = 1 \<and> argonSem one_holder \<le> 4 \<and>
   argonInFlight one_holder \<le> argonPeakInFlight one_holder"
  using argon_work_bounded [OF one_holder_reachable] one_holder_reachable
  by (simp add: one_holder_def)

section \<open>Everyone is served\<close>

text \<open>The steps of the callers already there, none of them giving up.\<close>

definition serve_step :: "argon_state \<Rightarrow> argon_state \<Rightarrow> bool" where
  "serve_step s t \<longleftrightarrow> argon_step s t \<and> size (callers t) \<le> size (callers s) \<and>
     count (callers t) Leaving \<le> count (callers s) Leaving"

text \<open>
  How far a caller still has to go, given the peak: one that loaded a peak which has been raised
  since will go round the loop again.
\<close>

fun way_to_go :: "int \<Rightarrow> caller \<Rightarrow> nat" where
  "way_to_go peak Queued = 9"
| "way_to_go peak Leaving = 1"
| "way_to_go peak TookSem = 8"
| "way_to_go peak (Counted n) = 6"
| "way_to_go peak (Loaded n p) = (if p = peak then 5 else 7)"
| "way_to_go peak Acquired = 3"
| "way_to_go peak Holding = 2"
| "way_to_go peak Releasing = 1"

definition remaining_way :: "argon_state \<Rightarrow> nat" where
  "remaining_way s = sum_mset (image_mset (way_to_go (argonPeakInFlight s)) (callers s))"

definition served :: "(argon_state \<times> argon_state) set" where
  "served = measures [\<lambda>s. nat (int argonConcurrencyCap - argonPeakInFlight s), remaining_way]"

lemma way_remove:
  "p \<in># M \<Longrightarrow> sum_mset (image_mset f (M - {#p#})) + f p = sum_mset (image_mset (f :: caller \<Rightarrow> nat) M)"
  by (metis add.commute image_mset_add_mset insert_DiffM sum_mset.insert)

lemma way_move:
  assumes "p \<in># callers s" "argonPeakInFlight t = argonPeakInFlight s" "callers t = add_mset q (callers s - {#p#})"
    and "way_to_go (argonPeakInFlight s) q < way_to_go (argonPeakInFlight s) p"
  shows "(t, s) \<in> served"
  using way_remove [OF assms(1), of "way_to_go (argonPeakInFlight s)"] assms(2-4)
  by (simp add: served_def remaining_way_def)

lemma way_leave:
  assumes "p \<in># callers s" "argonPeakInFlight t = argonPeakInFlight s" "callers t = callers s - {#p#}"
    and "0 < way_to_go (argonPeakInFlight s) p"
  shows "(t, s) \<in> served"
  using way_remove [OF assms(1), of "way_to_go (argonPeakInFlight s)"] assms(2-4)
  by (simp add: served_def remaining_way_def)

lemma serve_step_descends:
  assumes "argon_inv s" "serve_step s t"
  shows "(t, s) \<in> served"
proof -
  have ok: "caller_ok (argonPeakInFlight s) c" if "c \<in># callers s" for c
    using assms(1) that by (simp add: argon_inv_def)
  from assms(2) have "acquire_step s t \<or> release_step s t" by (simp add: serve_step_def argon_step_def)
  then show ?thesis
  proof (elim disjE)
    assume "acquire_step s t"
    then show ?thesis
    proof cases
      case arrive
      then show ?thesis using assms(2) by (simp add: serve_step_def)
    next
      case take_sem
      then show ?thesis by (intro way_move [where p = Queued and q = TookSem]) simp_all
    next
      case ctx_done
      then show ?thesis by (intro way_move [where p = Queued and q = Leaving]) simp_all
    next
      case return_err
      then show ?thesis by (intro way_leave [of Leaving]) simp_all
    next
      case count
      then show ?thesis by (intro way_move [where p = TookSem and q = "Counted (argonInFlight s + 1)"]) simp_all
    next
      case (load n)
      then show ?thesis by (intro way_move [where p = "Counted n" and q = "Loaded n (argonPeakInFlight s)"]) simp_all
    next
      case (not_a_peak n peak)
      then show ?thesis by (intro way_move [where p = "Loaded n peak" and q = Acquired]) simp_all
    next
      case (swap n peak)
      then show ?thesis using ok [OF swap(2)] by (simp add: served_def)
    next
      case (swap_lost n peak)
      then show ?thesis by (intro way_move [where p = "Loaded n peak" and q = "Counted n"]) simp_all
    next
      case return_nil
      then show ?thesis by (intro way_move [where p = Acquired and q = Holding]) simp_all
    qed
  next
    assume "release_step s t"
    then show ?thesis
    proof cases
      case uncount
      then show ?thesis by (intro way_move [where p = Holding and q = Releasing]) simp_all
    next
      case receive
      then show ?thesis by (intro way_leave [of Releasing]) simp_all
    qed
  qed
qed

interpretation serving: terminating_system serve_step argon_inv served
proof
  show "wf served" by (simp add: served_def)
  show "argon_inv t" if "argon_inv s" "serve_step s t" for s t
    using argon.inv_step that by (simp add: serve_step_def)
  show "(t, s) \<in> served" if "argon_inv s" "serve_step s t" for s t
    using that by (rule serve_step_descends)
qed

text \<open>A permit holder is never stuck, and without holders there is room.\<close>

lemma serve_acquire:
  assumes "acquire_step s t" "size (callers t) \<le> size (callers s)" "count (callers t) Leaving \<le> count (callers s) Leaving"
  shows "\<exists>t. serve_step s t"
  using assms by (auto simp: serve_step_def argon_step_def)

lemma size_move: "p \<in># M \<Longrightarrow> size (add_mset q (M - {#p#})) \<le> size M"
  by (metis insert_DiffM order_refl size_add_mset)

lemma holder_steps:
  assumes "argon_inv s" "c \<in># callers s" "c \<noteq> Queued"
  shows "\<exists>t. serve_step s t"
proof -
  note sz = size_move [OF assms(2)]
  show ?thesis
  proof (cases c)
    case Queued
    then show ?thesis using assms(3) by simp
  next
    case Leaving
    then show ?thesis using return_err [of s] assms(2) by (intro serve_acquire) (auto simp: size_Diff1_le)
  next
    case TookSem
    then show ?thesis using count [of s] assms(2) sz by (intro serve_acquire) auto
  next
    case (Counted n)
    then show ?thesis using load [of n s] assms(2) sz by (intro serve_acquire) auto
  next
    case (Loaded n p)
    consider "n \<le> p" | "\<not> n \<le> p" "argonPeakInFlight s = p" | "\<not> n \<le> p" "argonPeakInFlight s \<noteq> p" by blast
    then obtain q t where "acquire_step s t" "callers t = add_mset q (callers s - {#Loaded n p#})" "q \<noteq> Leaving"
      using not_a_peak [of n p s] swap [of n p s] swap_lost [of n p s] assms(2) Loaded by cases fastforce+
    then show ?thesis using assms(2) sz Loaded by (intro serve_acquire [of s t]) auto
  next
    case Acquired
    then show ?thesis using return_nil [of s] assms(2) sz by (intro serve_acquire) auto
  next
    case Holding
    then show ?thesis using uncount [of s] assms(2) sz by (auto simp: serve_step_def argon_step_def)
  next
    case Releasing
    then have "0 < argonSem s" using assms(1,2) tally_pos [of Releasing s has_permit] by (simp add: argon_inv_def)
    then show ?thesis
      using receive [of s] assms(2) Releasing by (auto simp: serve_step_def argon_step_def size_Diff1_le)
  qed
qed

lemma progress:
  assumes "argon_inv s" "callers s \<noteq> {#}"
  shows "\<exists>t. serve_step s t"
proof (cases "\<exists>c \<in># callers s. c \<noteq> Queued")
  case True
  then show ?thesis using holder_steps [OF assms(1)] by blast
next
  case False
  then have q: "Queued \<in># callers s" using assms(2) by (metis multiset_nonemptyE)
  have "c \<notin># filter_mset has_permit (callers s)" for c using False by auto
  then have "filter_mset has_permit (callers s) = {#}" by (metis multiset_nonemptyE)
  then have "tally has_permit s = 0" unfolding tally_def by (simp only: size_empty)
  then have "argonSem s < argonConcurrencyCap"
    using assms(1) by (simp add: argon_inv_def argonConcurrencyCap_def)
  then show ?thesis using take_sem [OF q] q size_move [OF q] by (intro serve_acquire) auto
qed

text \<open>
  C24. Everyone is served: from any reachable state, once no caller arrives and none gives up,
  every run of the callers present is finite, none can end while a caller is left, and in the
  end all permits are back and every counter but the peak is zero.
\<close>

theorem argon_everyone_served:
  assumes "reach argon_init argon_step s"
  shows "(\<forall>f. f 0 = s \<longrightarrow> (\<exists>i. \<not> serve_step (f i) (f (Suc i)))) \<and>
    (\<exists>t. serve_step\<^sup>*\<^sup>* s t \<and> (\<forall>u. \<not> serve_step t u)) \<and>
    (\<forall>t. serve_step\<^sup>*\<^sup>* s t \<longrightarrow> (\<forall>u. \<not> serve_step t u) \<longrightarrow>
       callers t = {#} \<and> argonSem t = 0 \<and> argonInFlight t = 0 \<and> argonWaiting t = 0)"
proof -
  have inv: "argon_inv s" using assms by (rule argon.reach_inv)
  have "callers t = {#} \<and> argonSem t = 0 \<and> argonInFlight t = 0 \<and> argonWaiting t = 0"
    if "serve_step\<^sup>*\<^sup>* s t" "\<forall>u. \<not> serve_step t u" for t
  proof -
    have it: "argon_inv t" by (rule serving.run_inv [OF that(1) inv])
    then have "callers t = {#}" using progress that(2) by blast
    then show ?thesis using it by (simp add: argon_inv_def tally_def)
  qed
  then show ?thesis using serving.no_infinite_run serving.comes_to_rest [OF inv] inv by blast
qed

theorem argon_everyone_served_witness:
  "\<exists>t. serve_step\<^sup>*\<^sup>* one_holder t \<and> callers t = {#} \<and> argonSem t = 0"
  using argon_everyone_served [OF one_holder_reachable] by blast

end
