(* ===== verification/Login.thy ===== *)
theory Login
  imports Session
begin

text \<open>
  Local login (\<open>backend/internal/auth/login.go\<close>): the backoff read, the credential lookup, the
  wait for an Argon2 permit, the second backoff read and the password check under it, the
  recording of a failure, and the session of a success.
\<close>

section \<open>Responses\<close>

datatype login_response =
    LocalLogin204 cookie
  | LocalLogin400 string
  | LocalLogin401 string
  | LocalLogin429 string int
  | LocalLogin500 string
  | LoginPanic

definition login_internalError :: login_response where
  "login_internalError = LocalLogin500 CodeInternal"

definition invalidCredentials :: login_response where
  "invalidCredentials = LocalLogin401 CodeInvalidCredentials"

section \<open>The dummy hash\<close>

definition dummyPassword :: string where
  "dummyPassword = ''this password matches nothing, by construction''"

text \<open>
  \<open>dummyHash\<close> is computed at start-up from the salt \<open>crypto/rand\<close> gives it; the process does
  not start without one.
\<close>

definition dummyHash_for :: "argon2 \<Rightarrow> string \<Rightarrow> string option" where
  "dummyHash_for idk salt =
     (case HashPassword idk (Some salt) (Inr ()) dummyPassword of Inl _ \<Rightarrow> None | Inr phc \<Rightarrow> Some phc)"

section \<open>Keys\<close>

definition normalizeEmail :: "externals \<Rightarrow> string \<Rightarrow> string" where
  "normalizeEmail ext email = ToLower (ext_ulow ext) (TrimSpace email)"

definition backoffKeys :: "ctx \<Rightarrow> string \<Rightarrow> string list" where
  "backoffKeys c email =
     (''email:'' @ email) # (let ip = clientIPFrom c in if ip \<noteq> [] then [''ip:'' @ ip] else [])"

section \<open>The backoff\<close>

definition backoffRemaining :: "ctx \<Rightarrow> string list \<Rightarrow> world \<Rightarrow> (query_error + int) \<times> world" where
  "backoffRemaining c keys w =
     (case run c (GetLoginBackoff keys) w of
        (Inl e, w1) \<Rightarrow> (if e = ErrNoRows then Inr 0 else Inl e, w1)
      | (Inr remaining, w1) \<Rightarrow> (Inr (if remaining \<le> 0 then 0 else remaining * 1000), w1))"

definition throttled :: "ctx \<Rightarrow> string list \<Rightarrow> world \<Rightarrow> login_response option \<times> world" where
  "throttled c keys w =
     (case backoffRemaining c keys w of
        (Inl e, w1) \<Rightarrow> (Some login_internalError, logQueryError ''login: read backoff'' e w1)
      | (Inr wait, w1) \<Rightarrow>
        if wait \<le> 0 then (None, w1)
        else (Some (LocalLogin429 CodeTooManyAttempts (wait div 1000000000 + 1)), w1))"

fun recordFailure :: "Handlers \<Rightarrow> ctx \<Rightarrow> string list \<Rightarrow> world \<Rightarrow> world" where
  "recordFailure h c [] w = w"
| "recordFailure h c (key # keys) w =
     (case run c (RecordLoginFailure
              \<lparr>rlf_Key = key, rlf_FirstBackoff = intervalFrom (firstBackoff h),
               rlf_MaxBackoff = intervalFrom (maxBackoff h)\<rparr>) w of
        (Inl e, w1) \<Rightarrow> recordFailure h c keys (slog Error ''login: record failure'' w1)
      | (Inr _, w1) \<Rightarrow> recordFailure h c keys w1)"

section \<open>The credential\<close>

datatype resolve_error = LookUpUser query_error | LookUpCredential query_error

definition resolve_cause :: "resolve_error \<Rightarrow> query_error" where
  "resolve_cause e = (case e of LookUpUser q \<Rightarrow> q | LookUpCredential q \<Rightarrow> q)"

text \<open>No User is \<open>db.User{}\<close>, whose id is not valid.\<close>

definition resolve ::
  "externals \<Rightarrow> string \<Rightarrow> ctx \<Rightarrow> string \<Rightarrow> world \<Rightarrow> (resolve_error + User option \<times> string) \<times> world" where
  "resolve ext dummyHash c email w =
     (case run c (GetUserByEmail (ext_pg_lower ext) email) w of
        (Inl e, w1) \<Rightarrow>
          if e = ErrNoRows then (Inr (None, dummyHash), w1) else (Inl (LookUpUser e), w1)
      | (Inr user, w1) \<Rightarrow>
        (case run c (GetCredentialByUserID (usr_ID user)) w1 of
           (Inl e, w2) \<Rightarrow>
             if e = ErrNoRows then (Inr (None, dummyHash), w2) else (Inl (LookUpCredential e), w2)
         | (Inr cred, w2) \<Rightarrow> (Inr (Some user, cr_PasswordHash cred), w2)))"

section \<open>The permit\<close>

text \<open>
  The wait for an Argon2 permit as one request sees it: refused when the context has ended
  before it or by the time the permit is free. The permits themselves are in theory
  Argon-Permits.
\<close>

definition acquireArgonPermit :: "ctx \<Rightarrow> world \<Rightarrow> (ctx_err + unit) \<times> world" where
  "acquireArgonPermit c w =
     (case ctx_Err (w_clock w) c of
        Some e \<Rightarrow> (Inl e, w)
      | None \<Rightarrow>
        let (ns, others) = (case w_queue w of [] \<Rightarrow> (0, \<lambda>d. d) | q # _ \<Rightarrow> q);
            w1 = elapse ns (w\<lparr>w_queue := tl (w_queue w), w_db := others (w_db w)\<rparr>)
        in (case ctx_Err (w_clock w1) c of Some e \<Rightarrow> (Inl e, w1) | None \<Rightarrow> (Inr (), w1)))"

definition handlerBudget :: "ctx \<Rightarrow> world \<Rightarrow> int option" where
  "handlerBudget c w = (case cx_deadline c of None \<Rightarrow> None | Some deadline \<Rightarrow> Some (deadline - w_clock w))"

definition afterPermit :: "ctx \<Rightarrow> int option \<Rightarrow> world \<Rightarrow> ctx" where
  "afterPermit c budget w =
     (case budget of None \<Rightarrow> WithoutCancel c | Some b \<Rightarrow> WithTimeout (w_clock w) b (WithoutCancel c))"

section \<open>The login\<close>

datatype check_result = Refused login_response | Verdict bool | CheckPanic

definition checkPassword ::
  "externals \<Rightarrow> Handlers \<Rightarrow> ctx \<Rightarrow> string list \<Rightarrow> string \<Rightarrow> string \<Rightarrow> world \<Rightarrow> check_result \<times> world" where
  "checkPassword ext h c keys password phc w =
     (case throttled c keys w of
        (Some refused, w1) \<Rightarrow> (Refused refused, w1)
      | (None, w1) \<Rightarrow>
        (case verifyHoldingPermit (ext_idk ext) password phc of
           None \<Rightarrow> (CheckPanic, w1)
         | Some False \<Rightarrow> (Verdict False, recordFailure h c keys w1)
         | Some True \<Rightarrow> (Verdict True, w1)))"

definition finishLogin ::
  "externals \<Rightarrow> Handlers \<Rightarrow> ctx \<Rightarrow> string list \<Rightarrow> User option \<Rightarrow> world \<Rightarrow> login_response \<times> world" where
  "finishLogin ext h c keys user w =
     (let w1 = (case run c (ClearLoginAttempts keys) w of
                  (Inl e, w') \<Rightarrow> slog Warn ''login: clear attempts'' w' | (Inr _, w') \<Rightarrow> w')
      in case IssueSession ext h c (map_option usr_ID user) (userAgentFrom c) w1 of
           (Inl e, w2) \<Rightarrow> (login_internalError, slog Error ''login: issue session'' w2)
         | (Inr ck, w2) \<Rightarrow> (LocalLogin204 ck, w2))"

definition LocalLogin ::
  "externals \<Rightarrow> Handlers \<Rightarrow> string \<Rightarrow> ctx \<Rightarrow> string \<Rightarrow> string \<Rightarrow> world \<Rightarrow> login_response \<times> world" where
  "LocalLogin ext h dummyHash c rawEmail password w =
     (let email = normalizeEmail ext rawEmail;
          keys = backoffKeys c email;
          budget = handlerBudget c w
      in case throttled c keys w of
        (Some refused, w1) \<Rightarrow> (refused, w1)
      | (None, w1) \<Rightarrow>
        (case resolve ext dummyHash c email w1 of
           (Inl e, w2) \<Rightarrow>
             (login_internalError, logQueryError ''login: resolve credential'' (resolve_cause e) w2)
         | (Inr (user, phc), w2) \<Rightarrow>
           (case acquireArgonPermit c w2 of
              (Inl e, w3) \<Rightarrow>
                (login_internalError,
                 if e = Canceled
                 then slog Warn ''login: client left while waiting for an argon2 permit'' w3
                 else slog Error ''login: wait for argon2 permit'' w3)
            | (Inr _, w3) \<Rightarrow>
              let c' = afterPermit c budget w3
              in (case checkPassword ext h c' keys password phc w3 of
                    (Refused refused, w4) \<Rightarrow> (refused, w4)
                  | (CheckPanic, w4) \<Rightarrow> (LoginPanic, w4)
                  | (Verdict False, w4) \<Rightarrow> (invalidCredentials, w4)
                  | (Verdict True, w4) \<Rightarrow> finishLogin ext h c' keys user w4))))"

section \<open>Statements that only read\<close>

definition readonly :: "'a query \<Rightarrow> bool" where
  "readonly q \<longleftrightarrow> (\<forall>t d x d'. q t d = Inr (x, d') \<longrightarrow> d' = d)"

lemma readonly_queries [simp]:
  "readonly (GetLoginBackoff keys)" "readonly (GetUserByEmail f e)" "readonly (GetCredentialByUserID u)"
  "readonly (GetUserByID u)" "readonly (GetHouseholdByID i)" "readonly (GetLiveSession g)" "readonly Ping"
  by (auto simp: readonly_def statement_defs split: if_splits option.splits)

text \<open>What every statement leaves alone, and what a read leaves alone besides.\<close>

lemma run_frame:
  assumes "run c q w = (res, w')"
  shows "w_queue w' = w_queue w" "w_rand w' = w_rand w" "w_clock w \<le> w_clock w'" "w_dbclock w \<le> w_dbclock w'"
  using assms by (auto simp: run_def Let_def elapse_def split: prod.splits option.splits sum.splits if_splits)

lemma run_readonly:
  assumes "readonly q" "run c q w = (res, w')"
  shows "w_db w' = w_db w"
  using assms
  by (auto simp: run_def Let_def elapse_def readonly_def split: prod.splits option.splits sum.splits if_splits)

lemma slog_frame [simp]:
  "w_db (slog l m w) = w_db w" "w_queue (slog l m w) = w_queue w" "w_rand (slog l m w) = w_rand w"
  "w_dbclock (slog l m w) = w_dbclock w" "w_clock (slog l m w) = w_clock w" "w_script (slog l m w) = w_script w"
  by (simp_all add: slog_def)

lemma logQueryError_frame [simp]:
  "w_db (logQueryError m e w) = w_db w" "w_queue (logQueryError m e w) = w_queue w"
  "w_dbclock (logQueryError m e w) = w_dbclock w"
  by (simp_all add: logQueryError_def)

section \<open>Reading the backoff\<close>

definition remaining_backoff :: "string list \<Rightarrow> timestamptz \<Rightarrow> database \<Rightarrow> int" where
  "remaining_backoff keys t d =
     (case List.map_filter (active_backoff t d) keys of [] \<Rightarrow> 0 | x # xs \<Rightarrow> fold max xs x - t)"

lemma GetLoginBackoff_eq:
  "GetLoginBackoff keys t d =
     (if list_all pg_text keys then Inr (remaining_backoff keys t d, d) else Inl InvalidText)"
  by (simp add: GetLoginBackoff_def checked_def remaining_backoff_def)

lemma set_map_filter: "set (List.map_filter f xs) = {y. \<exists>x \<in> set xs. f x = Some y}"
  by (induction xs) (auto simp: List.map_filter_simps split: option.splits)

lemma active_backoff_future: "active_backoff t d k = Some u \<Longrightarrow> t < u"
  by (auto simp: active_backoff_def split: option.splits if_splits)

text \<open>The answer is the longest active window of the keys, and zero exactly when there is none.\<close>

lemma remaining_backoff_cases:
  obtains (none) "remaining_backoff keys t d = 0" "\<forall>k \<in> set keys. active_backoff t d k = None"
  | (some) k u where "k \<in> set keys" "active_backoff t d k = Some u" "remaining_backoff keys t d = u - t"
      "0 < remaining_backoff keys t d"
      "\<forall>j \<in> set keys. \<forall>v. active_backoff t d j = Some v \<longrightarrow> v \<le> u"
proof (cases "List.map_filter (active_backoff t d) keys")
  case Nil
  then have "{y. \<exists>x \<in> set keys. active_backoff t d x = Some y} = {}"
    by (metis set_map_filter set_empty2)
  then have "\<forall>k \<in> set keys. active_backoff t d k = None" by (simp add: not_Some_eq [symmetric])
  then show thesis using none Nil by (simp add: remaining_backoff_def)
next
  case (Cons x xs)
  let ?S = "{y. \<exists>k \<in> set keys. active_backoff t d k = Some y}"
  have S: "?S = set (x # xs)" using set_map_filter [of "active_backoff t d" keys] by (simp add: Cons)
  have u: "fold max xs x = Max ?S" unfolding S by (rule Max.set_eq_fold [symmetric])
  have fin: "finite ?S" "?S \<noteq> {}" unfolding S by simp_all
  then have "Max ?S \<in> ?S" by (rule Max_in)
  then obtain k where k: "k \<in> set keys" "active_backoff t d k = Some (Max ?S)" by blast
  show thesis
  proof (rule some [OF k])
    show "remaining_backoff keys t d = Max ?S - t" by (simp add: remaining_backoff_def Cons u)
    then show "0 < remaining_backoff keys t d" using active_backoff_future [OF k(2)] by simp
    show "\<forall>j \<in> set keys. \<forall>v. active_backoff t d j = Some v \<longrightarrow> v \<le> Max ?S"
      using fin by (auto intro: Max_ge)
  qed
qed

lemma throttled_calm:
  assumes "calm c w" "list_all pg_text keys"
  shows "throttled c keys w =
    (let us = remaining_backoff keys (w_dbclock w) (w_db w)
     in if us \<le> 0 then (None, w)
        else (Some (LocalLogin429 CodeTooManyAttempts (us * 1000 div 1000000000 + 1)), w))"
  using assms
  by (simp add: throttled_def backoffRemaining_def run_calm GetLoginBackoff_eq Let_def)

lemma throttled_frame:
  assumes "throttled c keys w = (res, w')"
  shows "w_db w' = w_db w" "w_queue w' = w_queue w" "w_dbclock w \<le> w_dbclock w'"
proof -
  obtain r1 w1 where q: "run c (GetLoginBackoff keys) w = (r1, w1)" by force
  note f = run_frame [OF q] and d = run_readonly [OF _ q]
  show "w_db w' = w_db w" "w_queue w' = w_queue w" "w_dbclock w \<le> w_dbclock w'"
    using assms q f d
    by (auto simp: throttled_def backoffRemaining_def split: sum.splits if_splits)
qed

text \<open>A refusal is an outage, or a window of one of the keys that the answer covers.\<close>

lemma throttled_Some:
  assumes "throttled c keys w = (Some resp, w')"
  obtains (outage) "resp = login_internalError"
  | (window) n k u where "resp = LocalLogin429 CodeTooManyAttempts n" "k \<in> set keys"
      "active_backoff (w_dbclock w') (w_db w) k = Some u" "u < w_dbclock w' + n * 1000000"
      "w_dbclock w' + (n - 1) * 1000000 \<le> u" "1 \<le> n"
      "\<forall>j \<in> set keys. \<forall>v. active_backoff (w_dbclock w') (w_db w) j = Some v \<longrightarrow> v \<le> u"
proof -
  obtain r1 w1 where q: "run c (GetLoginBackoff keys) w = (r1, w1)" by force
  show thesis
  proof (cases r1)
    case (Inl e)
    then show thesis using assms q outage by (auto simp: throttled_def backoffRemaining_def split: if_splits)
  next
    case (Inr us)
    let ?t = "w_dbclock w1"
    have us: "us = remaining_backoff keys ?t (w_db w)"
      using run_Inr(1) [OF q [unfolded Inr]] by (auto simp: GetLoginBackoff_eq split: if_splits)
    have pos: "0 < us" and resp: "resp = LocalLogin429 CodeTooManyAttempts (us * 1000 div 1000000000 + 1)"
      and w1: "w' = w1"
      using assms q Inr by (auto simp: throttled_def backoffRemaining_def split: if_splits)
    define n where "n = us div 1000000 + 1"
    have n: "us * 1000 div 1000000000 + 1 = n" by (simp add: n_def flip: zdiv_zmult2_eq)
    have b: "us < n * 1000000" "(n - 1) * 1000000 \<le> us" "1 \<le> n"
    proof -
      have "us = us div 1000000 * 1000000 + us mod 1000000" by simp
      moreover have "0 \<le> us mod 1000000" "us mod 1000000 < 1000000" by simp_all
      ultimately show "us < n * 1000000" "(n - 1) * 1000000 \<le> us" unfolding n_def by (simp_all add: algebra_simps)
      show "1 \<le> n" using pos by (simp add: n_def)
    qed
    show thesis
    proof (cases rule: remaining_backoff_cases [of keys ?t "w_db w"])
      case none
      then show thesis using pos us by simp
    next
      case (some k u)
      show thesis
      proof (rule window [of n k u])
        show "\<forall>j \<in> set keys. \<forall>v. active_backoff (w_dbclock w') (w_db w) j = Some v \<longrightarrow> v \<le> u"
          using some(5) unfolding w1 .
      qed (use some(1-3) us b resp n in \<open>simp_all add: w1\<close>)
    qed
  qed
qed

section \<open>Lookups and permits\<close>

lemma resolve_frame:
  assumes "resolve ext dh c email w = (res, w')"
  shows "w_db w' = w_db w" "w_queue w' = w_queue w" "w_dbclock w \<le> w_dbclock w'"
proof -
  obtain r1 w1 where q1: "run c (GetUserByEmail (ext_pg_lower ext) email) w = (r1, w1)" by force
  have one: "w_db w1 = w_db w" "w_queue w1 = w_queue w" "w_dbclock w \<le> w_dbclock w1"
    using run_readonly [OF _ q1] run_frame [OF q1] by simp_all
  have two: "w_db w2 = w_db w1 \<and> w_queue w2 = w_queue w1 \<and> w_dbclock w1 \<le> w_dbclock w2"
    if "run c (GetCredentialByUserID u) w1 = (r2, w2)" for u r2 w2
    using run_readonly [OF _ that] run_frame [OF that] by simp
  show "w_db w' = w_db w" "w_queue w' = w_queue w" "w_dbclock w \<le> w_dbclock w'"
    using assms q1 one two by (fastforce simp: resolve_def split: sum.splits prod.splits if_splits)+
qed

text \<open>The hash a login is checked against, and for whom.\<close>

definition stored_hash :: "externals \<Rightarrow> string \<Rightarrow> string \<Rightarrow> database \<Rightarrow> User option \<times> string" where
  "stored_hash ext dh email d =
     (case List.find (\<lambda>u. ext_pg_lower ext (usr_Email u) = ext_pg_lower ext email \<and> usr_DeletedAt u = None) (users d) of
        None \<Rightarrow> (None, dh)
      | Some u \<Rightarrow> (case credentials d (usr_ID u) of None \<Rightarrow> (None, dh) | Some cr \<Rightarrow> (Some u, cr_PasswordHash cr)))"

lemma resolve_calm:
  assumes "calm c w" "pg_text email"
  shows "resolve ext dh c email w = (Inr (stored_hash ext dh email (w_db w)), w)"
  using assms
  by (auto simp: resolve_def run_calm GetUserByEmail_def GetCredentialByUserID_def checked_def one_row_def
      stored_hash_def split: option.splits)

lemma resolve_Inr:
  assumes "resolve ext dh c email w = (Inr (user, phc), w')"
  shows "(user, phc) = stored_hash ext dh email (w_db w)"
proof -
  let ?find = "List.find (\<lambda>u. ext_pg_lower ext (usr_Email u) = ext_pg_lower ext email \<and> usr_DeletedAt u = None) (users (w_db w))"
  obtain r1 w1 where q1: "run c (GetUserByEmail (ext_pg_lower ext) email) w = (r1, w1)" by force
  have db: "w_db w1 = w_db w" by (rule run_readonly [OF _ q1]) simp
  show ?thesis
  proof (cases r1)
    case (Inl e)
    then have e: "e = ErrNoRows" "user = None" "phc = dh" using assms q1 by (auto simp: resolve_def split: if_splits)
    then have "?find = None"
      using run_ErrNoRows [OF q1 [unfolded Inl e(1)]]
      by (simp add: GetUserByEmail_def checked_def one_row_def split: if_splits option.splits)
    then show ?thesis by (simp add: stored_hash_def e)
  next
    case (Inr u)
    have find: "?find = Some u"
      using run_Inr(1) [OF q1 [unfolded Inr]]
      by (simp add: GetUserByEmail_def checked_def one_row_def split: if_splits option.splits)
    obtain r2 w2 where q2: "run c (GetCredentialByUserID (usr_ID u)) w1 = (r2, w2)" by force
    show ?thesis
    proof (cases r2)
      case (Inl e)
      then have e: "e = ErrNoRows" "user = None" "phc = dh" using assms q1 q2 Inr by (auto simp: resolve_def split: if_splits)
      then have "credentials (w_db w) (usr_ID u) = None"
        using run_ErrNoRows [OF q2 [unfolded Inl e(1)]] db
        by (simp add: GetCredentialByUserID_def one_row_def split: option.splits)
      then show ?thesis by (simp add: stored_hash_def e find)
    next
      case cr: (Inr cr)
      have "credentials (w_db w) (usr_ID u) = Some cr"
        using run_Inr(1) [OF q2 [unfolded cr]] db
        by (simp add: GetCredentialByUserID_def one_row_def split: option.splits)
      moreover have "user = Some u" "phc = cr_PasswordHash cr"
        using assms q1 q2 Inr cr by (simp_all add: resolve_def)
      ultimately show ?thesis by (simp add: stored_hash_def find)
    qed
  qed
qed

lemma acquire_calm:
  "calm c w \<Longrightarrow> w_queue w = [] \<Longrightarrow> acquireArgonPermit c w = (Inr (), w)"
  by (simp add: acquireArgonPermit_def calm_def elapse_def)

lemma acquire_frame:
  assumes "acquireArgonPermit c w = (res, w')" "w_queue w = []"
  shows "w_db w' = w_db w" "w_dbclock w \<le> w_dbclock w'"
  using assms by (auto simp: acquireArgonPermit_def Let_def elapse_def split: option.splits)

section \<open>After the permit\<close>

text \<open>
  A login that got its permit is not cut short by its wait, nor by its client leaving:
  the context it goes on with ends only once the whole handler budget has passed again,
  counted from the moment it got the permit, and never when the request had no deadline.
\<close>

theorem permit_holder_keeps_its_budget:
  "ctx_Err t (afterPermit c budget w) =
     (case budget of None \<Rightarrow> None
      | Some b \<Rightarrow> if w_clock w + b \<le> t then Some DeadlineExceeded else None)"
  by (cases budget) (simp_all add: afterPermit_def WithoutCancel_def WithTimeout_def ctx_Err_def)

lemma ctx_Err_None_deadline: "ctx_Err t c = None \<Longrightarrow> cx_deadline c = Some b \<Longrightarrow> t < b"
  by (auto simp: ctx_Err_def split: option.splits if_splits)

lemma calm_afterPermit:
  assumes "calm c w"
  shows "calm (afterPermit c (handlerBudget c w) w) w"
proof -
  have "ctx_Err (w_clock w) (afterPermit c (handlerBudget c w) w) = None"
    using assms ctx_Err_None_deadline [of "w_clock w" c]
    by (auto simp: calm_def handlerBudget_def afterPermit_def WithoutCancel_def WithTimeout_def ctx_Err_def
        split: option.splits if_splits)
  with assms show ?thesis by (simp add: calm_def)
qed

section \<open>A failed login\<close>

text \<open>The effect of recording a failure under each key, where the statements go through.\<close>

definition failure_params :: "Handlers \<Rightarrow> string \<Rightarrow> RecordLoginFailureParams" where
  "failure_params h key = \<lparr>rlf_Key = key, rlf_FirstBackoff = intervalFrom (firstBackoff h),
     rlf_MaxBackoff = intervalFrom (maxBackoff h)\<rparr>"

definition count_failure :: "Handlers \<Rightarrow> timestamptz \<Rightarrow> string \<Rightarrow> database \<Rightarrow> database" where
  "count_failure h t key d =
     (case RecordLoginFailure (failure_params h key) t d of Inl _ \<Rightarrow> d | Inr (_, d') \<Rightarrow> d')"

lemma recordFailure_calm:
  "calm c w \<Longrightarrow> \<exists>w'. recordFailure h c keys w = w' \<and>
     w_db w' = fold (count_failure h (w_dbclock w)) keys (w_db w) \<and> w_script w' = w_script w \<and>
     w_dbclock w' = w_dbclock w \<and> w_clock w' = w_clock w"
proof (induction keys arbitrary: w)
  case (Cons k keys)
  obtain res where q: "run c (RecordLoginFailure (failure_params h k)) w =
      (res, w\<lparr>w_db := count_failure h (w_dbclock w) k (w_db w)\<rparr>)"
    using Cons.prems by (cases "RecordLoginFailure (failure_params h k) (w_dbclock w) (w_db w)")
      (auto simp: run_calm count_failure_def)
  let ?w = "w\<lparr>w_db := count_failure h (w_dbclock w) k (w_db w)\<rparr>"
  have "calm c ?w" "calm c (slog Error ''login: record failure'' ?w)"
    using Cons.prems by (simp_all add: slog_def)
  from Cons.IH [OF this(1)] Cons.IH [OF this(2)] show ?case
    using q by (cases res) (auto simp: failure_params_def)
qed simp

lemma count_failure_eq:
  "count_failure h t k d =
     (if pg_text k then case failure_row (failure_params h k) t (login_attempts d k) of
        Inl _ \<Rightarrow> d | Inr row \<Rightarrow> put_attempt row d else d)"
  by (simp add: count_failure_def RecordLoginFailure_def checked_def failure_params_def res_bind_def
      split: sum.split)

lemma put_attempt_frame [simp]:
  "login_attempts (put_attempt row d) = (login_attempts d)(la_Key row := Some row)"
  "sessions (put_attempt row d) = sessions d" "users (put_attempt row d) = users d"
  "credentials (put_attempt row d) = credentials d"
  by (simp_all add: put_attempt_def)

lemma count_failure_attempts:
  assumes "login_attempts d1 = login_attempts d2"
  shows "login_attempts (count_failure h t k d1) = login_attempts (count_failure h t k d2)"
  unfolding count_failure_eq assms
  by (cases "failure_row (failure_params h k) t (login_attempts d2 k)") (simp_all add: assms)

lemma count_failure_frame:
  "sessions (count_failure h t k d) = sessions d" "users (count_failure h t k d) = users d"
  "credentials (count_failure h t k d) = credentials d"
  unfolding count_failure_eq
  by (cases "failure_row (failure_params h k) t (login_attempts d k)"; simp)+

lemma fold_count_failure_attempts:
  "login_attempts d1 = login_attempts d2 \<Longrightarrow>
     login_attempts (fold (count_failure h t) keys d1) = login_attempts (fold (count_failure h t) keys d2)"
proof (induction keys arbitrary: d1 d2)
  case (Cons k keys)
  show ?case using Cons.IH [OF count_failure_attempts [OF Cons.prems]] by (simp only: fold.simps comp_apply)
qed simp

lemma fold_count_failure_frame:
  "sessions (fold (count_failure h t) keys d) = sessions d"
  by (induction keys arbitrary: d) (simp_all add: count_failure_frame)

section \<open>Properties of the login\<close>

definition login_keys :: "externals \<Rightarrow> ctx \<Rightarrow> string \<Rightarrow> string list" where
  "login_keys ext c rawEmail = backoffKeys c (normalizeEmail ext rawEmail)"

text \<open>Nothing fails or waits, and the address and the keys are text the database takes.\<close>

definition quiet_login :: "externals \<Rightarrow> ctx \<Rightarrow> string \<Rightarrow> world \<Rightarrow> bool" where
  "quiet_login ext c rawEmail w \<longleftrightarrow> calm c w \<and> w_queue w = [] \<and>
     pg_text (normalizeEmail ext rawEmail) \<and> list_all pg_text (login_keys ext c rawEmail)"

definition no_backoff :: "string list \<Rightarrow> world \<Rightarrow> bool" where
  "no_backoff keys w \<longleftrightarrow> (\<forall>k \<in> set keys. active_backoff (w_dbclock w) (w_db w) k = None)"

lemma throttled_none:
  assumes "calm c w" "list_all pg_text keys" "no_backoff keys w"
  shows "throttled c keys w = (None, w)"
proof -
  have "remaining_backoff keys (w_dbclock w) (w_db w) = 0"
    using assms(3) by (cases rule: remaining_backoff_cases [of keys "w_dbclock w" "w_db w"])
      (auto simp: no_backoff_def)
  then show ?thesis using assms(1,2) by (simp add: throttled_calm)
qed

text \<open>In a quiet world the login is its password check, under the context after the permit.\<close>

lemma LocalLogin_quiet:
  assumes "quiet_login ext c rawEmail w" "no_backoff (login_keys ext c rawEmail) w"
  obtains c' where "calm c' w" "userAgentFrom c' = userAgentFrom c"
    "LocalLogin ext h dh c rawEmail password w =
      (case verifyHoldingPermit (ext_idk ext) password (snd (stored_hash ext dh (normalizeEmail ext rawEmail) (w_db w))) of
         None \<Rightarrow> (LoginPanic, w)
       | Some False \<Rightarrow> (invalidCredentials, recordFailure h c' (login_keys ext c rawEmail) w)
       | Some True \<Rightarrow> finishLogin ext h c' (login_keys ext c rawEmail)
                        (fst (stored_hash ext dh (normalizeEmail ext rawEmail) (w_db w))) w)"
proof -
  let ?c' = "afterPermit c (handlerBudget c w) w" and ?keys = "login_keys ext c rawEmail"
  have c: "calm c w" "w_queue w = []" "pg_text (normalizeEmail ext rawEmail)" "list_all pg_text ?keys"
    using assms(1) by (simp_all add: quiet_login_def)
  have c': "calm ?c' w" by (rule calm_afterPermit [OF c(1)])
  have "userAgentFrom ?c' = userAgentFrom c"
    by (simp add: afterPermit_def userAgentFrom_def WithoutCancel_def WithTimeout_def split: option.split)
  moreover note throttled_none [OF c(1,4) assms(2)] throttled_none [OF c' c(4) assms(2)]
    resolve_calm [OF c(1,3), of ext dh] acquire_calm [OF c(1,2)]
  ultimately show thesis
    using c' by (intro that [of ?c'])
      (auto simp: LocalLogin_def login_keys_def checkPassword_def Let_def split: option.splits prod.splits bool.splits)
qed

text \<open>
  A failed login does not tell why it failed: whether the address is unknown, its User
  has no credential or the password is wrong, the answer is the same 401, the failure is
  counted alike under both keys, and no session appears. The two databases may differ in
  their Users and credentials in any way.
\<close>

theorem failed_logins_look_alike:
  assumes "quiet_login ext c rawEmail w" "no_backoff (login_keys ext c rawEmail) w"
    and "login_attempts d = login_attempts (w_db w)"
    and "verifyHoldingPermit (ext_idk ext) password (snd (stored_hash ext dh (normalizeEmail ext rawEmail) (w_db w))) = Some False"
    and "verifyHoldingPermit (ext_idk ext) password (snd (stored_hash ext dh (normalizeEmail ext rawEmail) d)) = Some False"
  shows "\<exists>w1 w2. LocalLogin ext h dh c rawEmail password w = (invalidCredentials, w1) \<and>
    LocalLogin ext h dh c rawEmail password (w\<lparr>w_db := d\<rparr>) = (invalidCredentials, w2) \<and>
    login_attempts (w_db w1) = login_attempts (w_db w2) \<and>
    login_attempts (w_db w1) =
      login_attempts (fold (count_failure h (w_dbclock w)) (login_keys ext c rawEmail) (w_db w)) \<and>
    sessions (w_db w1) = sessions (w_db w) \<and> sessions (w_db w2) = sessions d"
proof -
  let ?keys = "login_keys ext c rawEmail"
  have q2: "quiet_login ext c rawEmail (w\<lparr>w_db := d\<rparr>)" "no_backoff ?keys (w\<lparr>w_db := d\<rparr>)"
    using assms(1-3) by (simp_all add: quiet_login_def no_backoff_def active_backoff_def)
  obtain c1 where c1: "calm c1 w" "LocalLogin ext h dh c rawEmail password w = (invalidCredentials, recordFailure h c1 ?keys w)"
    using LocalLogin_quiet [OF assms(1,2), of h dh password] assms(4) by (metis option.case(2) bool.case(2))
  obtain c2 where c2: "calm c2 (w\<lparr>w_db := d\<rparr>)"
    "LocalLogin ext h dh c rawEmail password (w\<lparr>w_db := d\<rparr>) = (invalidCredentials, recordFailure h c2 ?keys (w\<lparr>w_db := d\<rparr>))"
    using LocalLogin_quiet [OF q2, of h dh password] assms(5) by (auto split: option.splits bool.splits)
  show ?thesis
    using c1 c2 recordFailure_calm [OF c1(1), of h ?keys] recordFailure_calm [OF c2(1), of h ?keys]
      fold_count_failure_attempts [OF assms(3), of h "w_dbclock w" ?keys]
    by (auto simp: fold_count_failure_frame)
qed

definition toy_salt :: string where "toy_salt = replicate 16 (CHR ''s'')"

definition toy_dummy :: string where
  "toy_dummy = buildPHC 19456 2 1 toy_salt (toy_idk dummyPassword toy_salt 2 19456 1 32)"

definition member_db :: database where
  "member_db = one_user_db\<lparr>credentials := [''u1'' \<mapsto>
     \<lparr>cr_UserID = ''u1'', cr_PasswordHash = buildPHC 19456 2 1 toy_salt (toy_idk ''right'' toy_salt 2 19456 1 32),
      cr_CreatedAt = 0, cr_UpdatedAt = 0\<rparr>]\<rparr>"

definition member_world :: world where
  "member_world = quiet_world\<lparr>w_db := member_db\<rparr>"

definition toy_email :: string where "toy_email = ''a@b.c''"

lemma toy_email_normal: "normalizeEmail toy_ext toy_email = ''a@b.c''"
  by (simp add: normalizeEmail_def toy_email_def TrimSpace_ascii is_ascii_def trim_both_def IsSpace_def
      ToLower_def lower_byte_id)

lemma toy_keys_at: "clientIPFrom c = [] \<Longrightarrow> login_keys toy_ext c toy_email = [''email:a@b.c'']"
  by (simp add: login_keys_def toy_email_normal backoffKeys_def)

lemma Background_values [simp]: "clientIPFrom Background = []" "userAgentFrom Background = []"
  by (simp_all add: clientIPFrom_def userAgentFrom_def Background_def)

lemma toy_keys: "login_keys toy_ext Background toy_email = [''email:a@b.c'']"
  by (simp add: toy_keys_at)

lemma toy_quiet_at:
  "calm c w \<Longrightarrow> clientIPFrom c = [] \<Longrightarrow> w_queue w = [] \<Longrightarrow> quiet_login toy_ext c toy_email w"
  by (simp add: quiet_login_def toy_keys_at toy_email_normal pg_text_def ValidString_ascii is_ascii_def)

lemma toy_quiet:
  "w_script w = [] \<Longrightarrow> w_queue w = [] \<Longrightarrow> quiet_login toy_ext Background toy_email w"
  by (simp add: toy_quiet_at calm_quiet)

lemma toy_lower [simp]: "map lower_byte ''a@b.c'' = ''a@b.c''"
  by (simp add: lower_byte_id)

lemma stored_member:
  "stored_hash toy_ext dh ''a@b.c'' member_db =
     (Some one_user, buildPHC 19456 2 1 toy_salt (toy_idk ''right'' toy_salt 2 19456 1 32))"
  by (simp add: stored_hash_def member_db_def one_user_db_def one_user_def)

lemma stored_nobody: "stored_hash toy_ext dh email empty_db = (None, dh)"
  by (simp add: stored_hash_def empty_db_def)

lemma toy_verify:
  "verifyHoldingPermit toy_idk guess (buildPHC 19456 2 1 toy_salt (toy_idk password toy_salt 2 19456 1 32)) =
     Some (toy_idk guess toy_salt 2 19456 1 32 = toy_idk password toy_salt 2 19456 1 32)"
  by (rule verify_built [OF toy_idk_length]) (simp add: toy_salt_def argonSaltLen_def)

lemma toy_ext_idk [simp]: "ext_idk toy_ext = toy_idk"
  by (simp add: toy_ext_def)

lemma toy_idk_prefix: "toy_idk p s t m q 32 = take 32 (p @ replicate 32 (CHR ''=''))"
  by (simp add: toy_idk_def)

lemma toy_verify_wrong:
  "x \<in> {''right'', dummyPassword} \<Longrightarrow>
     verifyHoldingPermit toy_idk ''wrong'' (buildPHC 19456 2 1 toy_salt (toy_idk x toy_salt 2 19456 1 32)) = Some False"
  unfolding toy_verify by (auto simp: toy_idk_prefix dummyPassword_def)

lemma toy_wrong:
  "verifyHoldingPermit (ext_idk toy_ext) ''wrong''
     (snd (stored_hash toy_ext toy_dummy (normalizeEmail toy_ext toy_email) (w_db member_world))) = Some False"
  "verifyHoldingPermit (ext_idk toy_ext) ''wrong''
     (snd (stored_hash toy_ext toy_dummy (normalizeEmail toy_ext toy_email) empty_db)) = Some False"
  by (simp_all add: toy_email_normal stored_member stored_nobody toy_dummy_def member_world_def toy_verify_wrong [unfolded One_nat_def])

theorem failed_logins_look_alike_witness:
  "\<exists>w1 w2.
     LocalLogin toy_ext month_handlers toy_dummy Background toy_email ''wrong'' member_world = (invalidCredentials, w1) \<and>
     LocalLogin toy_ext month_handlers toy_dummy Background toy_email ''wrong'' (member_world\<lparr>w_db := empty_db\<rparr>) =
       (invalidCredentials, w2) \<and>
     login_attempts (w_db w1) = login_attempts (w_db w2)"
proof -
  have q: "quiet_login toy_ext Background toy_email member_world"
    "no_backoff (login_keys toy_ext Background toy_email) member_world"
    "login_attempts empty_db = login_attempts (w_db member_world)"
    by (simp_all add: toy_quiet member_world_def quiet_world_def no_backoff_def active_backoff_def
        member_db_def one_user_db_def empty_db_def)
  show ?thesis using failed_logins_look_alike [OF q toy_wrong] by blast
qed

lemma IssueSession_nobody:
  assumes "calm c w"
  shows "\<exists>e w'. IssueSession ext h c None ua w = (Inl e, w') \<and> w_db w' = w_db w"
proof (cases "newSessionToken w")
  case (Pair t w1)
  have "calm c w1" "w_db w1 = w_db w"
    using Pair assms by (auto simp: newSessionToken_def rand_Read_def split: list.splits option.splits)
  then show ?thesis
    using Pair by (cases t) (auto simp: IssueSession_def Let_def run_calm CreateSession_def checked_def)
qed

text \<open>
  C35. One password tells them apart. The dummy hash is that of a constant in the source, so a
  login with that constant as the password and an address without a credential passes the
  check: instead of the 401 it gets for an address with one, it clears the backoff of both
  its keys and answers 500, the session of no User being refused by the database.
\<close>

theorem dummy_password_told_apart:
  assumes "quiet_login ext c rawEmail w" "no_backoff (login_keys ext c rawEmail) w"
    and "idkey_length (ext_idk ext)" "length salt = argonSaltLen" "dummyHash_for (ext_idk ext) salt = Some dh"
    and "fst (stored_hash ext dh (normalizeEmail ext rawEmail) (w_db w)) = None"
  shows "\<exists>w'. LocalLogin ext h dh c rawEmail dummyPassword w = (login_internalError, w') \<and>
    (\<forall>k \<in> set (login_keys ext c rawEmail). login_attempts (w_db w') k = None)"
proof -
  let ?keys = "login_keys ext c rawEmail"
  have dh: "dh = buildPHC 19456 2 1 salt (ext_idk ext dummyPassword salt 2 19456 1 32)"
    using assms(5) by (simp add: dummyHash_for_def HashPassword_built)
  have st: "stored_hash ext dh (normalizeEmail ext rawEmail) (w_db w) = (None, dh)"
    using assms(6) by (auto simp: stored_hash_def split: option.splits)
  obtain c' where c': "calm c' w"
    and l: "LocalLogin ext h dh c rawEmail dummyPassword w = finishLogin ext h c' ?keys None w"
    using LocalLogin_quiet [OF assms(1,2), of h dh dummyPassword] verify_built [OF assms(3,4), of dummyPassword dummyPassword]
    unfolding st dh [symmetric] by auto
  let ?w1 = "w\<lparr>w_db := w_db w\<lparr>login_attempts := (\<lambda>k. if k \<in> set ?keys then None else login_attempts (w_db w) k)\<rparr>\<rparr>"
  have r: "run c' (ClearLoginAttempts ?keys) w = (Inr (), ?w1)"
    using assms(1) c' by (simp add: run_calm ClearLoginAttempts_def checked_def quiet_login_def)
  obtain e w2 where i: "IssueSession ext h c' None (userAgentFrom c') ?w1 = (Inl e, w2)" "w_db w2 = w_db ?w1"
    using IssueSession_nobody [of c' ?w1 ext h "userAgentFrom c'"] c' by auto
  then show ?thesis using l r by (simp add: finishLogin_def)
qed

theorem dummy_password_told_apart_witness:
  "(\<exists>w'. LocalLogin toy_ext month_handlers toy_dummy Background toy_email dummyPassword
       (member_world\<lparr>w_db := empty_db\<rparr>) = (login_internalError, w')) \<and>
   invalidCredentials \<noteq> login_internalError"
proof -
  have "\<exists>w'. LocalLogin toy_ext month_handlers toy_dummy Background toy_email dummyPassword
      (member_world\<lparr>w_db := empty_db\<rparr>) = (login_internalError, w') \<and>
      (\<forall>k \<in> set (login_keys toy_ext Background toy_email). login_attempts (w_db w') k = None)"
    by (rule dummy_password_told_apart [where salt = toy_salt])
      (simp_all add: toy_quiet member_world_def quiet_world_def no_backoff_def active_backoff_def empty_db_def
        toy_idk_length toy_salt_def argonSaltLen_def dummyHash_for_def HashPassword_built toy_dummy_def
        stored_nobody [unfolded empty_db_def])
  then show ?thesis by (auto simp: invalidCredentials_def login_internalError_def)
qed

section \<open>What each answer means\<close>

lemma finishLogin_cases:
  assumes "finishLogin ext h c keys user w = (resp, w')"
  obtains (failed) "resp = login_internalError"
    "\<forall>k. login_attempts (w_db w') k = login_attempts (w_db w) k \<or> login_attempts (w_db w') k = None"
  | (issued) w1 ck where "IssueSession ext h c (map_option usr_ID user) (userAgentFrom c) w1 = (Inr ck, w')"
      "resp = LocalLogin204 ck"
      "\<forall>k. login_attempts (w_db w') k = login_attempts (w_db w) k \<or> login_attempts (w_db w') k = None"
      "users (w_db w1) = users (w_db w)"
proof -
  obtain r0 w0 where q: "run c (ClearLoginAttempts keys) w = (r0, w0)" by force
  define w1 where "w1 = (case r0 of Inl e \<Rightarrow> slog Warn ''login: clear attempts'' w0 | Inr _ \<Rightarrow> w0)"
  have a1: "login_attempts (w_db w1) k = login_attempts (w_db w) k \<or> login_attempts (w_db w1) k = None" for k
    using q by (auto simp: w1_def run_def Let_def elapse_def ClearLoginAttempts_def checked_def
        split: sum.splits prod.splits option.splits if_splits)
  have u1: "users (w_db w1) = users (w_db w)"
    using q by (auto simp: w1_def run_def Let_def elapse_def ClearLoginAttempts_def checked_def
        split: sum.splits prod.splits option.splits if_splits)
  obtain r2 w2 where i: "IssueSession ext h c (map_option usr_ID user) (userAgentFrom c) w1 = (r2, w2)" by force
  have a2: "login_attempts (w_db w2) = login_attempts (w_db w1)"
    using i by (auto simp: IssueSession_def newSessionToken_def rand_Read_def Let_def run_def elapse_def
        CreateSession_def checked_def split: list.splits option.splits prod.splits sum.splits if_splits)
  have f: "finishLogin ext h c keys user w =
      (case r2 of Inl e \<Rightarrow> (login_internalError, slog Error ''login: issue session'' w2) | Inr ck \<Rightarrow> (LocalLogin204 ck, w2))"
    using q i by (simp add: finishLogin_def w1_def split: sum.split)
  show thesis
  proof (cases r2)
    case (Inl e)
    then have "resp = login_internalError" "login_attempts (w_db w') = login_attempts (w_db w1)"
      using assms f a2 by auto
    then show thesis using a1 by (intro failed) simp_all
  next
    case (Inr ck)
    then have "resp = LocalLogin204 ck" "w' = w2" using assms f by auto
    then show thesis using a1 a2 u1 i Inr by (intro issued [of w1 ck]) simp_all
  qed
qed

text \<open>
  Every way a login ends, with what is known of the database: what the lookup found before
  the queue, and what the permit was obtained on.
\<close>

lemma LocalLogin_cases:
  assumes "LocalLogin ext h dh c rawEmail password w = (resp, w')"
  obtains (refused) w1 c1 w2 where "throttled c1 (login_keys ext c rawEmail) w1 = (Some resp, w2)" "w_db w' = w_db w2"
      "w_dbclock w \<le> w_dbclock w1" "w_queue w = [] \<longrightarrow> w_db w1 = w_db w" "w' = w2"
  | (outage) "resp = login_internalError" "w_queue w = [] \<longrightarrow> w_db w' = w_db w"
  | (panicked) phc where "resp = LoginPanic" "verifyHoldingPermit (ext_idk ext) password phc = None"
  | (wrong) w1 c1 where "resp = invalidCredentials" "w' = recordFailure h c1 (login_keys ext c rawEmail) w1"
      "verifyHoldingPermit (ext_idk ext) password (snd (stored_hash ext dh (normalizeEmail ext rawEmail) (w_db w))) = Some False"
  | (right) w1 c1 w2 where
      "finishLogin ext h c1 (login_keys ext c rawEmail) (fst (stored_hash ext dh (normalizeEmail ext rawEmail) (w_db w))) w1 = (resp, w')"
      "verifyHoldingPermit (ext_idk ext) password (snd (stored_hash ext dh (normalizeEmail ext rawEmail) (w_db w))) = Some True"
      "throttled c1 (login_keys ext c rawEmail) w2 = (None, w1)" "w_queue w = [] \<longrightarrow> w_db w1 = w_db w"
proof -
  let ?keys = "login_keys ext c rawEmail" and ?email = "normalizeEmail ext rawEmail"
  obtain t1 w1 where q1: "throttled c ?keys w = (t1, w1)" by force
  note f1 = throttled_frame [OF q1]
  obtain t2 w2 where q2: "resolve ext dh c ?email w1 = (t2, w2)" by force
  note f2 = resolve_frame [OF q2]
  obtain t3 w3 where q3: "acquireArgonPermit c w2 = (t3, w3)" by force
  have f3: "w_queue w = [] \<longrightarrow> w_db w3 = w_db w" "w_dbclock w \<le> w_dbclock w3"
    using acquire_frame [OF q3] q3 f1 f2
    by (auto simp: acquireArgonPermit_def Let_def elapse_def split: option.splits prod.splits list.splits)
  define c1 where "c1 = afterPermit c (handlerBudget c w) w3"
  obtain t4 w4 where q4: "throttled c1 ?keys w3 = (t4, w4)" by force
  note f4 = throttled_frame [OF q4]
  note steps = q1 [unfolded login_keys_def] q2 q3 q4 [unfolded login_keys_def]
  show thesis
  proof (cases "(\<exists>r. t1 = Some r) \<or> (\<exists>e. t2 = Inl e) \<or> (\<exists>e. t3 = Inl e)")
    case True
    then consider r where "t1 = Some r" | e where "t1 = None" "t2 = Inl e"
      | e p where "t1 = None" "t2 = Inr p" "t3 = Inl e" by (cases t1; cases t2) auto
    then show thesis
    proof cases
      case 1
      then show thesis using assms steps(1) q1 f1 by (intro refused [of c w w1]) (auto simp: LocalLogin_def Let_def)
    next
      case 2
      then show thesis using assms steps(1,2) f1 f2 by (intro outage) (auto simp: LocalLogin_def Let_def)
    next
      case 3
      then show thesis using assms steps(1,2,3) f3 by (intro outage) (auto simp: LocalLogin_def Let_def split: prod.splits)
    qed
  next
    case False
    then obtain user phc where ok: "t1 = None" "t2 = Inr (user, phc)" "t3 = Inr ()"
      by (cases t1; cases t2; cases t3) auto
    have st: "stored_hash ext dh ?email (w_db w) = (user, phc)"
      using resolve_Inr [OF q2 [unfolded ok(2)]] f1(1) by simp
    have l: "LocalLogin ext h dh c rawEmail password w =
      (case checkPassword ext h c1 ?keys password phc w3 of
         (Refused r, w4) \<Rightarrow> (r, w4) | (CheckPanic, w4) \<Rightarrow> (LoginPanic, w4)
       | (Verdict False, w4) \<Rightarrow> (invalidCredentials, w4)
       | (Verdict True, w4) \<Rightarrow> finishLogin ext h c1 ?keys user w4)"
      using steps ok unfolding LocalLogin_def Let_def login_keys_def c1_def by simp
    show thesis
    proof (cases t4)
      case (Some r)
      then show thesis using assms l q4 f3 by (intro refused [of c1 w3 w4]) (auto simp: checkPassword_def)
    next
      case None
      show thesis
      proof (cases "verifyHoldingPermit (ext_idk ext) password phc")
        case n: None
        then show thesis using assms l q4 None by (intro panicked) (auto simp: checkPassword_def)
      next
        case (Some v)
        then show thesis
          using assms l q4 None st f3 f4
          by (cases v) (auto simp: checkPassword_def intro: wrong right)
      qed
    qed
  qed
qed

text \<open>
  C15. Only the right password of a real account gets a session: a 204 means that the address
  belonged to an undeleted User with a credential whose hash the password verified against,
  and that the session now in the database under the hash of the issued token is that
  User's.
\<close>

theorem login_success_sound:
  assumes "LocalLogin ext h dh c rawEmail password w = (LocalLogin204 ck, w')"
  shows "\<exists>u phc s. stored_hash ext dh (normalizeEmail ext rawEmail) (w_db w) = (Some u, phc) \<and>
    usr_DeletedAt u = None \<and> ext_pg_lower ext (usr_Email u) = ext_pg_lower ext (normalizeEmail ext rawEmail) \<and>
    verifyHoldingPermit (ext_idk ext) password phc = Some True \<and>
    sessions (w_db w') (HashToken ext (ck_Value ck)) = Some s \<and> ses_UserID s = usr_ID u"
  using assms
proof (cases rule: LocalLogin_cases)
  case (refused w1 c1 w2)
  from refused(1) show ?thesis by (cases rule: throttled_Some) (simp_all add: login_internalError_def)
next
  case (right w1 c1 w2)
  let ?st = "stored_hash ext dh (normalizeEmail ext rawEmail) (w_db w)"
  from right(1) show ?thesis
  proof (cases rule: finishLogin_cases)
    case (issued w3 ck')
    then have "IssueSession ext h c1 (map_option usr_ID (fst ?st)) (userAgentFrom c1) w3 = (Inr ck, w')" by simp
    then obtain uid s where uid: "map_option usr_ID (fst ?st) = Some uid"
      and s: "sessions (w_db w') (HashToken ext (ck_Value ck)) = Some s" "ses_UserID s = uid"
      by (rule IssueSession_Inr) auto
    then obtain u where u: "fst ?st = Some u" "uid = usr_ID u" by auto
    then have "usr_DeletedAt u = None \<and> ext_pg_lower ext (usr_Email u) = ext_pg_lower ext (normalizeEmail ext rawEmail)"
      by (auto simp: stored_hash_def find_Some_iff split: option.splits)
    then show ?thesis using u s right(2) by (cases ?st) auto
  qed (simp add: login_internalError_def)
qed (simp_all add: login_internalError_def invalidCredentials_def)


text \<open>
  C18. Retry-After tells the truth: a 429 is sent only while one of the request's own keys is in its
  window, and at the database's time of the refusal its seconds are the least whole number
  that reaches past the end of the longest of those windows.
\<close>

theorem retry_after_covers_window:
  assumes "LocalLogin ext h dh c rawEmail password w = (LocalLogin429 code n, w')"
  shows "code = CodeTooManyAttempts \<and> 1 \<le> n \<and>
    (\<exists>k \<in> set (login_keys ext c rawEmail). \<exists>u. active_backoff (w_dbclock w') (w_db w') k = Some u \<and>
       u < w_dbclock w' + n * 1000000 \<and> w_dbclock w' + (n - 1) * 1000000 \<le> u \<and>
       (\<forall>j \<in> set (login_keys ext c rawEmail). \<forall>v. active_backoff (w_dbclock w') (w_db w') j = Some v \<longrightarrow> v \<le> u))"
  using assms
proof (cases rule: LocalLogin_cases)
  case (refused w1 c1 w2)
  from refused(1) show ?thesis
  proof (cases rule: throttled_Some)
    case (window m k u)
    then show ?thesis using refused(5) throttled_frame(1) [OF refused(1)] by auto
  qed (simp add: login_internalError_def)
next
  case (right w1 c1 w2)
  from right(1) show ?thesis by (cases rule: finishLogin_cases) (simp_all add: login_internalError_def)
qed (simp_all add: login_internalError_def invalidCredentials_def)

section \<open>A login that waits\<close>

text \<open>Where no connection is lost, a statement takes the time the script says.\<close>

definition faultless :: "world \<Rightarrow> bool" where
  "faultless w \<longleftrightarrow> list_all (\<lambda>(_, f). f = NoFault) (w_script w)"

definition latency :: "nat \<Rightarrow> world \<Rightarrow> nat" where
  "latency k w = sum_list (map fst (take k (w_script w)))"

definition past_statement :: "world \<Rightarrow> world" where
  "past_statement w = elapse (fst (next_fault w)) (w\<lparr>w_script := tl (w_script w)\<rparr>)"

lemma past_statement_frame [simp]:
  "w_db (past_statement w) = w_db w" "w_queue (past_statement w) = w_queue w"
  "w_script (past_statement w) = tl (w_script w)"
  "w_clock (past_statement w) = w_clock w + int (fst (next_fault w))"
  "w_dbclock (past_statement w) = w_dbclock w + int (fst (next_fault w) div 1000)"
  by (simp_all add: past_statement_def elapse_def)

lemma latency_Suc: "latency (Suc k) w = fst (next_fault w) + latency k (past_statement w)"
  by (cases "w_script w") (simp_all add: latency_def next_fault_def)

lemma latency_0 [simp]: "latency 0 w = 0"
  by (simp add: latency_def)

lemma in_set_tl: "x \<in> set (tl xs) \<Longrightarrow> x \<in> set xs"
  by (cases xs) simp_all

lemma faultless_past [simp]: "faultless w \<Longrightarrow> faultless (past_statement w)"
  by (cases "w_script w") (simp_all add: faultless_def)

lemma ctx_Err_before: "ctx_Err t c = None \<Longrightarrow> s \<le> t \<Longrightarrow> ctx_Err s c = None"
  by (auto simp: ctx_Err_def split: option.splits if_splits)

lemma run_faultless:
  assumes "faultless w" "ctx_Err (w_clock (past_statement w)) c = None" "readonly q"
  shows "run c q w = (case q (w_dbclock (past_statement w)) (w_db w) of
    Inl e \<Rightarrow> (Inl e, past_statement w) | Inr (x, _) \<Rightarrow> (Inr x, past_statement w))"
proof -
  obtain ns f where n: "next_fault w = (ns, f)" by force
  then have f: "f = NoFault"
    using assms(1) by (cases "w_script w") (simp_all add: faultless_def next_fault_def)
  have p: "elapse ns (w\<lparr>w_script := tl (w_script w)\<rparr>) = past_statement w"
    by (simp add: past_statement_def n)
  have d: "d = w_db w" if "q (w_dbclock (past_statement w)) (w_db w) = Inr (x, d)" for x d
    using assms(3) that by (auto simp: readonly_def)
  have "(past_statement w)\<lparr>w_db := w_db w\<rparr> = past_statement w"
    by (simp add: past_statement_def elapse_def)
  with d assms(2) show ?thesis
    by (auto simp: run_def n p f stmt_error_def split: sum.split)
qed

lemma throttled_faultless:
  assumes "faultless w" "ctx_Err (w_clock (past_statement w)) c = None" "list_all pg_text keys"
  shows "throttled c keys w =
    (let us = remaining_backoff keys (w_dbclock (past_statement w)) (w_db w)
     in (if us \<le> 0 then None else Some (LocalLogin429 CodeTooManyAttempts (us * 1000 div 1000000000 + 1)),
         past_statement w))"
  using assms
  by (simp add: throttled_def backoffRemaining_def run_faultless GetLoginBackoff_eq Let_def)

text \<open>The lookup takes one statement, or two when the address has a User.\<close>

lemma resolve_faultless:
  assumes "faultless w" "ctx_Err (w_clock w + int (latency 2 w)) c = None" "pg_text email"
  shows "\<exists>w'. resolve ext dh c email w = (Inr (stored_hash ext dh email (w_db w)), w') \<and>
    (w' = past_statement w \<or> w' = past_statement (past_statement w))"
proof -
  have "ctx_Err (w_clock (past_statement w)) c = None" "ctx_Err (w_clock (past_statement (past_statement w))) c = None"
    by (rule ctx_Err_before [OF assms(2)], simp add: latency_Suc numeral_2_eq_2)+
  then have "run c (GetUserByEmail l email) w = (case GetUserByEmail l email (w_dbclock (past_statement w)) (w_db w) of
        Inl e \<Rightarrow> (Inl e, past_statement w) | Inr (x, _) \<Rightarrow> (Inr x, past_statement w))"
    and "run c (GetCredentialByUserID i) (past_statement w) =
      (case GetCredentialByUserID i (w_dbclock (past_statement (past_statement w))) (w_db w) of
        Inl e \<Rightarrow> (Inl e, past_statement (past_statement w)) | Inr (x, _) \<Rightarrow> (Inr x, past_statement (past_statement w)))"
    for l i
    using assms(1) by (simp_all add: run_faultless)
  then show ?thesis
    using assms(3)
    by (auto simp: resolve_def GetUserByEmail_def GetCredentialByUserID_def checked_def one_row_def
        stored_hash_def split: option.splits)
qed

lemma remaining_backoff_pos:
  "k \<in> set keys \<Longrightarrow> active_backoff t d k = Some u \<Longrightarrow> 0 < remaining_backoff keys t d"
  by (cases rule: remaining_backoff_cases [of keys t d]) auto

lemma active_backoff_later:
  "active_backoff t d k = None \<Longrightarrow> t \<le> s \<Longrightarrow> active_backoff s d k = None"
  "active_backoff t d k = Some u \<Longrightarrow> s < u \<Longrightarrow> active_backoff s d k = Some u"
  by (auto simp: active_backoff_def split: option.splits if_splits)

lemma acquire_in_time:
  assumes "w_queue w = (ns, others) # queue" "ctx_Err (w_clock w + int ns) c = None"
  shows "acquireArgonPermit c w = (Inr (), elapse ns (w\<lparr>w_queue := queue, w_db := others (w_db w)\<rparr>))"
  using assms ctx_Err_before [OF assms(2), of "w_clock w"] by (simp add: acquireArgonPermit_def elapse_def)

lemma afterPermit_in_time:
  assumes "\<And>b. handlerBudget c w = Some b \<Longrightarrow> int ns < b"
  shows "ctx_Err (w_clock w' + int ns) (afterPermit c (handlerBudget c w) w') = None"
  using assms by (cases "handlerBudget c w") (simp_all add: afterPermit_def WithoutCancel_def WithTimeout_def ctx_Err_def)

lemma scaled_div: "int (x div 1000) * 1000 \<le> int x"
  using div_mult_mod_eq [of x 1000] by linarith

text \<open>One or two statements on, in the time of the script.\<close>

lemma past_statements:
  assumes "w2 = past_statement w1 \<or> w2 = past_statement (past_statement w1)" "w1 = past_statement w"
  shows "w_clock w2 \<le> w_clock w + int (latency 3 w)"
    "(w_dbclock w2 - w_dbclock w) * 1000 + int (fst (next_fault w2)) \<le> int (latency 4 w)"
    "set (w_script w2) \<subseteq> set (w_script w)"
proof -
  let ?a = "fst (next_fault w)" and ?b = "fst (next_fault w1)" and ?d = "fst (next_fault (past_statement w1))"
  have l: "latency 3 w = ?a + (?b + (?d + latency 0 (past_statement (past_statement w1))))"
    "latency 4 w = ?a + (?b + (?d + latency 1 (past_statement (past_statement w1))))"
    by (simp_all add: assms(2) latency_Suc eval_nat_numeral)
  have m: "fst (next_fault (past_statement (past_statement w1))) \<le> latency 1 (past_statement (past_statement w1))"
    by (simp add: latency_Suc)
  show "w_clock w2 \<le> w_clock w + int (latency 3 w)"
    using assms(1) l by (elim disjE) (simp_all add: assms(2))
  show "(w_dbclock w2 - w_dbclock w) * 1000 + int (fst (next_fault w2)) \<le> int (latency 4 w)"
    using assms(1)
  proof
    show ?thesis if "w2 = past_statement w1"
      using l scaled_div [of ?a] scaled_div [of ?b] by (simp add: that) (simp add: assms(2))
    show ?thesis if "w2 = past_statement (past_statement w1)"
      using l m scaled_div [of ?a] scaled_div [of ?b] scaled_div [of ?d] by (simp add: that) (simp add: assms(2))
  qed
  show "set (w_script w2) \<subseteq> set (w_script w)"
    using assms by (auto dest!: in_set_tl)
qed

lemma login_reaches_queue:
  assumes "faultless w" "ctx_Err (w_clock w + int (latency 3 w)) c = None"
    and "pg_text (normalizeEmail ext rawEmail)" "list_all pg_text (login_keys ext c rawEmail)"
    and "no_backoff (login_keys ext c rawEmail) w"
  obtains w1 w2 where "throttled c (login_keys ext c rawEmail) w = (None, w1)"
    "resolve ext dh c (normalizeEmail ext rawEmail) w1 = (Inr (stored_hash ext dh (normalizeEmail ext rawEmail) (w_db w)), w2)"
    "faultless w2" "w_db w2 = w_db w" "w_queue w2 = w_queue w"
    "w2 = past_statement w1 \<or> w2 = past_statement (past_statement w1)" "w1 = past_statement w"
proof -
  let ?keys = "login_keys ext c rawEmail"
  have lat: "latency 3 w = fst (next_fault w) + latency 2 (past_statement w)" by (simp add: latency_Suc eval_nat_numeral)
  define w1 where "w1 = past_statement w"
  have w1: "faultless w1" "w_db w1 = w_db w" "w_queue w1 = w_queue w" using assms(1) by (simp_all add: w1_def)
  have "remaining_backoff ?keys (w_dbclock w1) (w_db w) = 0"
    using assms(5) active_backoff_later(1) [of "w_dbclock w" "w_db w" _ "w_dbclock w1"]
    by (cases rule: remaining_backoff_cases [of ?keys "w_dbclock w1" "w_db w"]) (auto simp: no_backoff_def w1_def)
  moreover have "ctx_Err (w_clock w1) c = None" by (rule ctx_Err_before [OF assms(2)]) (simp add: w1_def lat)
  ultimately have first: "throttled c ?keys w = (None, w1)"
    using throttled_faultless [OF assms(1) _ assms(4), of c] by (simp add: w1_def)
  have "ctx_Err (w_clock w1 + int (latency 2 w1)) c = None"
    by (rule ctx_Err_before [OF assms(2)]) (simp add: w1_def lat)
  from resolve_faultless [OF w1(1) this assms(3)] obtain w2 where
    "resolve ext dh c (normalizeEmail ext rawEmail) w1 = (Inr (stored_hash ext dh (normalizeEmail ext rawEmail) (w_db w)), w2)"
    "w2 = past_statement w1 \<or> w2 = past_statement (past_statement w1)"
    using w1(2) by auto
  then show thesis using w1 by (intro that [OF first]) (auto simp: w1_def)
qed

lemma script_within_budget:
  assumes "ctx_Err (w_clock w) c = None" "set (w_script w2) \<subseteq> set (w_script w)"
    and "\<And>d f b. (d, f) \<in> set (w_script w) \<Longrightarrow> handlerBudget c w = Some b \<Longrightarrow> int d < b"
    and "handlerBudget c w = Some b"
  shows "int (fst (next_fault w2)) < b"
proof (cases "w_script w2")
  case Nil
  then show ?thesis using assms(1,4) ctx_Err_None_deadline [of "w_clock w" c]
    by (auto simp: next_fault_def handlerBudget_def split: option.splits)
next
  case (Cons x xs)
  then show ?thesis using assms(3) [of "fst x" "snd x" b] assms(2,4) by (auto simp: next_fault_def)
qed

text \<open>
  C17. The second backoff read closes the burst: when the failures of other requests put one of
  the keys into its window while this login was queued, however long, it answers 429 for every
  password, the right one included, and changes nothing. The request's context need only last until
  the permit is free: the read under the permit has the whole handler budget again.
\<close>

theorem second_read_throttles:
  assumes "faultless w" "w_queue w = (ns, others) # queue"
    and "ctx_Err (w_clock w + int (latency 3 w) + int ns) c = None"
    and "\<And>d f b. (d, f) \<in> set (w_script w) \<Longrightarrow> handlerBudget c w = Some b \<Longrightarrow> int d < b"
    and "pg_text (normalizeEmail ext rawEmail)" "list_all pg_text (login_keys ext c rawEmail)"
    and "no_backoff (login_keys ext c rawEmail) w"
    and "k \<in> set (login_keys ext c rawEmail)" "active_backoff (w_dbclock w) (others (w_db w)) k = Some u"
    and "int (latency 4 w) + int ns < (u - w_dbclock w) * 1000"
  shows "\<exists>n w'. LocalLogin ext h dh c rawEmail password w = (LocalLogin429 CodeTooManyAttempts n, w') \<and>
    w_db w' = others (w_db w)"
proof -
  let ?keys = "login_keys ext c rawEmail"
  have "ctx_Err (w_clock w + int (latency 3 w)) c = None" by (rule ctx_Err_before [OF assms(3)]) simp
  then obtain w1 w2 where
    first: "throttled c ?keys w = (None, w1)"
    and res: "resolve ext dh c (normalizeEmail ext rawEmail) w1 = (Inr (stored_hash ext dh (normalizeEmail ext rawEmail) (w_db w)), w2)"
    and w2: "faultless w2" "w_db w2 = w_db w" "w_queue w2 = w_queue w"
    and past: "w2 = past_statement w1 \<or> w2 = past_statement (past_statement w1)" "w1 = past_statement w"
    by (rule login_reaches_queue [OF assms(1) _ assms(5-7), of dh])
  note sum = past_statements [OF past]
  let ?w3 = "elapse ns (w2\<lparr>w_queue := queue, w_db := others (w_db w2)\<rparr>)"
  let ?c' = "afterPermit c (handlerBudget c w) ?w3"
  have acq: "acquireArgonPermit c w2 = (Inr (), ?w3)"
    by (rule acquire_in_time) (use w2(3) assms(2) sum(1) in \<open>auto intro: ctx_Err_before [OF assms(3)]\<close>)
  have w3: "faultless ?w3" "w_db ?w3 = others (w_db w)" "next_fault ?w3 = next_fault w2"
    using w2 by (simp_all add: faultless_def elapse_def next_fault_def)
  have "ctx_Err (w_clock w) c = None" by (rule ctx_Err_before [OF assms(3)]) simp
  from script_within_budget [OF this sum(3) assms(4)]
  have c': "ctx_Err (w_clock (past_statement ?w3)) ?c' = None"
    using afterPermit_in_time [of c w "fst (next_fault w2)" ?w3] by (simp add: w3(3))
  have "w_dbclock (past_statement ?w3) < u"
    using sum(2) assms(10) scaled_div [of ns] scaled_div [of "fst (next_fault w2)"]
    by (simp add: w3(3)) (simp add: elapse_def)
  then have "0 < remaining_backoff ?keys (w_dbclock (past_statement ?w3)) (others (w_db w))"
    by (intro remaining_backoff_pos [OF assms(8) active_backoff_later(2) [OF assms(9)]])
  then obtain n where "throttled ?c' ?keys ?w3 = (Some (LocalLogin429 CodeTooManyAttempts n), past_statement ?w3)"
    using throttled_faultless [OF w3(1) c' assms(6)] w3(2) by (simp add: Let_def)
  then have "checkPassword ext h ?c' ?keys password phc ?w3 =
      (Refused (LocalLogin429 CodeTooManyAttempts n), past_statement ?w3)" for phc
    by (simp add: checkPassword_def)
  then show ?thesis
    using first res acq w3(2)
    by (cases "stored_hash ext dh (normalizeEmail ext rawEmail) (w_db w)") (simp add: LocalLogin_def Let_def login_keys_def)
qed

section \<open>Witnesses\<close>

text \<open>A member whose password is right, and the same member inside a window.\<close>

definition struck :: "database \<Rightarrow> database" where
  "struck d = put_attempt \<lparr>la_Key = ''email:a@b.c'', la_FailureCount = 1, la_BackoffUntil = Some 2501000,
     la_UpdatedAt = 0\<rparr> d"

lemma struck_active: "active_backoff 1000 (struck d) ''email:a@b.c'' = Some 2501000"
  by (simp add: active_backoff_def struck_def)

lemma toy_no_backoff:
  "login_attempts (w_db w) = (\<lambda>_. None) \<Longrightarrow> no_backoff (login_keys toy_ext Background toy_email) w"
  by (simp add: no_backoff_def active_backoff_def)

lemma member_world_simps [simp]:
  "w_db member_world = member_db" "w_script member_world = []" "w_queue member_world = []"
  "w_dbclock member_world = 1000" "w_clock member_world = 1000000" "w_rand member_world = [Some fresh_token_bytes]"
  "login_attempts member_db = (\<lambda>_. None)" "sessions member_db = (\<lambda>_. None)" "users member_db = [one_user]"
  "households member_db = [''h1'' \<mapsto> one_household]"
  by (simp_all add: member_world_def quiet_world_def member_db_def one_user_db_def empty_db_def)

lemma member_login_at:
  assumes "calm c member_world" "clientIPFrom c = []" "userAgentFrom c = []"
  shows "\<exists>ck w'. LocalLogin toy_ext month_handlers toy_dummy c toy_email ''right'' member_world = (LocalLogin204 ck, w') \<and>
     ck_Value ck = toy_token \<and> ck_Expires ck = 2592000001000000 \<and> w_dbclock w' = 1000 \<and> w_script w' = [] \<and>
     households (w_db w') = [''h1'' \<mapsto> one_household]"
proof -
  have q: "quiet_login toy_ext c toy_email member_world"
    "no_backoff (login_keys toy_ext c toy_email) member_world"
    using assms by (simp_all add: toy_quiet_at toy_keys_at no_backoff_def active_backoff_def)
  have st: "stored_hash toy_ext toy_dummy (normalizeEmail toy_ext toy_email) (w_db member_world) =
      (Some one_user, buildPHC 19456 2 1 toy_salt (toy_idk ''right'' toy_salt 2 19456 1 32))"
    by (simp only: toy_email_normal member_world_simps stored_member)
  obtain c' where c': "calm c' member_world" "userAgentFrom c' = []"
    and l: "LocalLogin toy_ext month_handlers toy_dummy c toy_email ''right'' member_world =
      finishLogin toy_ext month_handlers c' (login_keys toy_ext c toy_email) (Some one_user) member_world"
    using LocalLogin_quiet [OF q, of month_handlers toy_dummy "''right''"] assms(3) unfolding st
    by (auto simp: toy_verify [unfolded One_nat_def])
  let ?d = "member_db\<lparr>login_attempts := (\<lambda>k. if k = ''email:a@b.c'' then None else login_attempts member_db k)\<rparr>"
  have clear: "run c' (ClearLoginAttempts [''email:a@b.c'']) member_world = (Inr (), member_world\<lparr>w_db := ?d\<rparr>)"
    using c'(1) by (simp add: run_calm ClearLoginAttempts_def checked_def pg_text_def ValidString_ascii is_ascii_def)
  have issue: "\<exists>ck w'. IssueSession toy_ext month_handlers c' (Some ''u1'') [] (member_world\<lparr>w_db := ?d\<rparr>) = (Inr ck, w') \<and>
      ck_Value ck = toy_token \<and> ck_Expires ck = 2592000001000000 \<and> w_dbclock w' = 1000 \<and> w_script w' = [] \<and>
      households (w_db w') = [''h1'' \<mapsto> one_household]"
    using c'(1) pg_text_HashToken [of toy_ext toy_token]
    by (simp add: IssueSession_def newSessionToken_def rand_Read_def Let_def run_calm CreateSession_def checked_def
        user_row_def one_user_def nullString_def sessionCookie_def toy_token_def h_now_def)
  then show ?thesis
    using l clear c'(2) by (auto simp: finishLogin_def toy_keys_at [OF assms(2)] one_user_def)
qed

lemma member_login:
  "\<exists>ck w'. LocalLogin toy_ext month_handlers toy_dummy Background toy_email ''right'' member_world = (LocalLogin204 ck, w') \<and>
     ck_Value ck = toy_token \<and> ck_Expires ck = 2592000001000000 \<and> w_dbclock w' = 1000 \<and> w_script w' = [] \<and>
     households (w_db w') = [''h1'' \<mapsto> one_household]"
  by (rule member_login_at) (simp_all add: calm_quiet)

theorem login_success_sound_witness:
  "\<exists>ck w' s. LocalLogin toy_ext month_handlers toy_dummy Background toy_email ''right'' member_world = (LocalLogin204 ck, w') \<and>
     sessions (w_db w') (HashToken toy_ext (ck_Value ck)) = Some s \<and> ses_UserID s = ''u1''"
proof -
  obtain ck w' where l: "LocalLogin toy_ext month_handlers toy_dummy Background toy_email ''right'' member_world =
      (LocalLogin204 ck, w')"
    using member_login by blast
  with login_success_sound [OF l] show ?thesis
    by (auto simp: toy_email_normal stored_member one_user_def)
qed



text \<open>
  A deadline of one second, a wait of 0.9 seconds, and a read under the permit of 0.2 seconds:
  the read ends after the request's own deadline.
\<close>

definition waiting_world :: world where
  "waiting_world = member_world\<lparr>w_queue := [(900000000, struck)],
     w_script := [(0, NoFault), (0, NoFault), (0, NoFault), (200000000, NoFault)]\<rparr>"

definition one_second :: ctx where
  "one_second = Background\<lparr>cx_deadline := Some 1001000000\<rparr>"

theorem second_read_throttles_witness:
  "\<exists>n w'. LocalLogin toy_ext month_handlers toy_dummy one_second toy_email ''right'' waiting_world =
       (LocalLogin429 CodeTooManyAttempts n, w') \<and>
     w_db w' = struck member_db"
proof -
  have keys: "login_keys toy_ext one_second toy_email = [''email:a@b.c'']"
    by (rule toy_keys_at) (simp add: one_second_def clientIPFrom_def Background_def)
  have "\<exists>n w'. LocalLogin toy_ext month_handlers toy_dummy one_second toy_email ''right'' waiting_world =
       (LocalLogin429 CodeTooManyAttempts n, w') \<and> w_db w' = struck (w_db waiting_world)"
    by (rule second_read_throttles [where k = "''email:a@b.c''" and u = 2501000 and queue = "[]" and ns = 900000000])
      (auto simp: waiting_world_def one_second_def Background_def faultless_def latency_def ctx_Err_def handlerBudget_def
        toy_email_normal keys [unfolded one_second_def Background_def, simplified] no_backoff_def active_backoff_def
        pg_text_def ValidString_ascii is_ascii_def struck_active [unfolded active_backoff_def])
  then show ?thesis by (simp add: waiting_world_def)
qed

lemma struck_login:
  "LocalLogin toy_ext month_handlers toy_dummy Background toy_email guess (member_world\<lparr>w_db := struck member_db\<rparr>) =
     (LocalLogin429 CodeTooManyAttempts 3, member_world\<lparr>w_db := struck member_db\<rparr>)"
proof -
  let ?w = "member_world\<lparr>w_db := struck member_db\<rparr>"
  have "remaining_backoff [''email:a@b.c''] 1000 (struck member_db) = 2500000"
    by (simp add: remaining_backoff_def List.map_filter_simps struck_active)
  moreover have "calm Background ?w" "list_all pg_text [''email:a@b.c'']"
    by (simp_all add: calm_quiet pg_text_def ValidString_ascii is_ascii_def)
  ultimately have "throttled Background [''email:a@b.c''] ?w = (Some (LocalLogin429 CodeTooManyAttempts 3), ?w)"
    by (simp add: throttled_calm)
  then show ?thesis using toy_keys by (simp add: LocalLogin_def Let_def login_keys_def)
qed

theorem retry_after_covers_window_witness:
  "\<exists>w'. LocalLogin toy_ext month_handlers toy_dummy Background toy_email ''right'' (member_world\<lparr>w_db := struck member_db\<rparr>) =
     (LocalLogin429 CodeTooManyAttempts 3, w') \<and>
   (\<exists>u. active_backoff (w_dbclock w') (w_db w') ''email:a@b.c'' = Some u \<and>
     u < w_dbclock w' + 3 * 1000000 \<and> w_dbclock w' + 2 * 1000000 \<le> u)"
  using retry_after_covers_window [OF struck_login] struck_login by (auto simp: toy_keys)

end
