(* ===== verification/Me.thy ===== *)
theory Me
  imports Login
begin

text \<open>
  The signed-in User and logout (\<open>backend/internal/auth/me.go\<close>, \<open>response.go\<close>). The decimal
  library's \<open>StringFixed(4)\<close> is the parameter \<open>fixed4\<close>.
\<close>

section \<open>Rendering\<close>

text \<open>\<open>%02d\<close> of an integer.\<close>

definition format_02d :: "int \<Rightarrow> string" where
  "format_02d i = (if 0 \<le> i \<and> i < 10 then CHR ''0'' # format_int i else format_int i)"

text \<open>A \<open>pgtype.Time\<close>: microseconds since midnight, or not valid.\<close>

definition formatDayStartsAt :: "int option \<Rightarrow> string" where
  "formatDayStartsAt t =
     (case t of None \<Rightarrow> ''00:00''
      | Some us \<Rightarrow>
        let minutes = us sdiv 60000000
        in format_02d (minutes sdiv 60) @ '':'' @ format_02d (minutes smod 60))"

record Me =
  me_Id :: uuid
  me_HouseholdId :: uuid
  me_Email :: string
  me_DisplayName :: string
  me_Locale :: string
  me_TimeZone :: string
  me_HouseholdDisplayName :: string
  me_ReportingCurrency :: string
  me_PeriodStartDay :: int
  me_DayStartsAt :: string
  me_AllowanceMode :: string
  me_ExpectedMonthlyIncome :: "string option"

definition meResponse :: "(rat \<Rightarrow> string) \<Rightarrow> User \<Rightarrow> Household \<Rightarrow> Me" where
  "meResponse fixed4 user household =
     (let me = \<lparr>me_Id = usr_ID user, me_HouseholdId = usr_HouseholdID user, me_Email = usr_Email user,
                me_DisplayName = usr_DisplayName user, me_Locale = usr_Locale user,
                me_TimeZone = usr_TimeZone user, me_HouseholdDisplayName = hh_DisplayName household,
                me_ReportingCurrency = hh_ReportingCurrency household,
                me_PeriodStartDay = hh_PeriodStartDay household,
                me_DayStartsAt = formatDayStartsAt (hh_DayStartsAt household),
                me_AllowanceMode = hh_AllowanceMode household, me_ExpectedMonthlyIncome = None\<rparr>
      in case hh_ExpectedMonthlyIncome household of
           None \<Rightarrow> me
         | Some income \<Rightarrow> me\<lparr>me_ExpectedMonthlyIncome := Some (fixed4 income)\<rparr>)"

section \<open>The handlers\<close>

datatype me_response = GetMe200 Me | GetMe401 string | GetMe500 string

definition me_internalError :: me_response where
  "me_internalError = GetMe500 CodeInternal"

definition GetMe :: "(rat \<Rightarrow> string) \<Rightarrow> ctx \<Rightarrow> world \<Rightarrow> me_response \<times> world" where
  "GetMe fixed4 c w =
     (case UserFromContext c of
        None \<Rightarrow> (GetMe401 CodeUnauthorized, w)
      | Some user \<Rightarrow>
        (case run c (GetHouseholdByID (usr_HouseholdID user)) w of
           (Inl e, w1) \<Rightarrow>
             (me_internalError,
              if e = ErrNoRows then slog Error ''me: household missing for user'' w1
              else logQueryError ''me: look up household'' e w1)
         | (Inr household, w1) \<Rightarrow> (GetMe200 (meResponse fixed4 user household), w1)))"

datatype logout_response = Logout204 cookie | Logout500 string

definition logout_internalError :: logout_response where
  "logout_internalError = Logout500 CodeInternal"

definition Logout :: "externals \<Rightarrow> Handlers \<Rightarrow> ctx \<Rightarrow> world \<Rightarrow> logout_response \<times> world" where
  "Logout ext h c w =
     (let token = sessionTokenFrom c
      in if token \<noteq> [] then
           (case run c (DeleteSession (HashToken ext token)) w of
              (Inl e, w1) \<Rightarrow> (logout_internalError, logQueryError ''logout: delete session'' e w1)
            | (Inr _, w1) \<Rightarrow> (Logout204 (ClearedSessionCookie h), w1))
         else (Logout204 (ClearedSessionCookie h), w))"

section \<open>The time of day\<close>

definition parse_HHMM :: "string \<Rightarrow> int option" where
  "parse_HHMM s =
     (case Cut s (CHR '':'') of
        (hh, mm, True) \<Rightarrow>
          (case (ParseUint hh 32, ParseUint mm 32) of
             (Some a, Some b) \<Rightarrow> Some ((int a * 60 + int b) * 60000000)
           | _ \<Rightarrow> None)
      | _ \<Rightarrow> None)"

lemma ParseUint_format_02d:
  assumes "0 \<le> i" "i < 2 ^ 32"
  shows "ParseUint (format_02d i) 32 = Some (nat i)"
proof -
  have z: "is_digit (CHR ''0'')" "digit_val (CHR ''0'') = 0"
    by (simp_all add: is_digit_def byte_in_def digit_val_def)
  have "nat i < 2 ^ 32" using assms by (simp add: nat_less_iff)
  moreover have "digits_value (CHR ''0'' # s) = digits_value s" for s
    by (simp add: digits_value_def z)
  ultimately show ?thesis
    using assms by (simp add: format_02d_def format_int_def ParseUint_def z)
qed

lemma format_02d_digits: "0 \<le> i \<Longrightarrow> CHR '':'' \<notin> set (format_02d i)"
proof -
  assume "0 \<le> i"
  then have "list_all is_digit (format_02d i)"
    by (simp add: format_02d_def format_int_def) (simp add: is_digit_def byte_in_def)
  then show ?thesis by (auto simp: list_all_iff is_digit_def byte_in_def)
qed

lemma format_02d_length: "0 \<le> i \<Longrightarrow> i < 100 \<Longrightarrow> length (format_02d i) = 2"
proof -
  assume "0 \<le> i" "i < 100"
  then have n: "nat i < 100" by simp
  show ?thesis
  proof (cases "i < 10")
    case True
    with \<open>0 \<le> i\<close> show ?thesis by (simp add: format_02d_def format_int_def format_nat.simps [of "nat i"])
  next
    case False
    then have "nat i div 10 < 10" "10 \<le> nat i" using n by simp_all
    then show ?thesis
      using False \<open>0 \<le> i\<close>
      by (simp add: format_02d_def format_int_def format_nat.simps [of "nat i"] format_nat.simps [of "nat i div 10"])
  qed
qed

text \<open>Minutes into the day.\<close>

definition day_minute :: "int \<Rightarrow> bool" where
  "day_minute us \<longleftrightarrow> (\<exists>m. 0 \<le> m \<and> m < 1440 \<and> us = m * 60000000)"

lemma formatDayStartsAt_minutes:
  assumes "0 \<le> m" "m < 1440"
  shows "formatDayStartsAt (Some (m * 60000000)) = format_02d (m div 60) @ '':'' @ format_02d (m mod 60)"
  using assms by (simp add: formatDayStartsAt_def signed_divide_int_def signed_modulo_int_def sgn_if)

interpretation day_starts_at: codec "\<lambda>us. formatDayStartsAt (Some us)" parse_HHMM day_minute
proof
  fix us assume "day_minute us"
  then obtain m where m: "0 \<le> m" "m < 1440" "us = m * 60000000" by (auto simp: day_minute_def)
  then have "0 \<le> m div 60" "m div 60 < 2 ^ 32" "0 \<le> m mod 60" "m mod 60 < 2 ^ 32" by simp_all
  moreover have "(m div 60 * 60 + m mod 60) * 60000000 = us" by (simp add: m)
  ultimately show "parse_HHMM (formatDayStartsAt (Some us)) = Some us"
    using m formatDayStartsAt_minutes [OF m(1,2)] Cut_append [OF format_02d_digits]
    by (simp add: parse_HHMM_def ParseUint_format_02d)
qed

text \<open>
  A Household's day start is rendered as HH:MM, five characters, and no minute of the day
  is lost or shared: reading it back gives the same time.
\<close>

theorem day_starts_at_roundtrip:
  assumes "day_minute us"
  shows "parse_HHMM (formatDayStartsAt (Some us)) = Some us \<and> length (formatDayStartsAt (Some us)) = 5"
proof -
  obtain m where m: "0 \<le> m" "m < 1440" "us = m * 60000000" using assms by (auto simp: day_minute_def)
  then have "0 \<le> m div 60" "m div 60 < 100" "0 \<le> m mod 60" "m mod 60 < 60" by simp_all
  then have "length (formatDayStartsAt (Some us)) = 5"
    using formatDayStartsAt_minutes [OF m(1,2)] m(3) by (simp add: format_02d_length)
  then show ?thesis using day_starts_at.dec_enc [OF assms] by simp
qed

theorem day_starts_at_roundtrip_witness:
  "parse_HHMM (formatDayStartsAt (Some 14400000000)) = Some 14400000000 \<and>
   length (formatDayStartsAt (Some 14400000000)) = 5"
  by (rule day_starts_at_roundtrip) (auto simp: day_minute_def intro!: exI [of _ 240])

section \<open>Logout\<close>

text \<open>
  Logout revokes and is idempotent: with or without a session, it answers 204 with the
  clearing cookie, the session the presented token names is gone, and doing it again gives
  the same answer and changes nothing. Only a failed delete is a 500, which leaves the
  client its cookie.
\<close>

theorem logout_revokes:
  assumes "calm c w"
  shows "\<exists>w1. Logout ext h c w = (Logout204 (ClearedSessionCookie h), w1) \<and>
    (sessionTokenFrom c \<noteq> [] \<longrightarrow> sessions (w_db w1) (HashToken ext (sessionTokenFrom c)) = None) \<and>
    (\<forall>i. i \<noteq> HashToken ext (sessionTokenFrom c) \<longrightarrow> sessions (w_db w1) i = sessions (w_db w) i) \<and>
    Logout ext h c w1 = (Logout204 (ClearedSessionCookie h), w1)"
proof (cases "sessionTokenFrom c = []")
  case True
  then show ?thesis by (simp add: Logout_def)
next
  case False
  let ?i = "HashToken ext (sessionTokenFrom c)"
  let ?w1 = "w\<lparr>w_db := w_db w\<lparr>sessions := (sessions (w_db w))(?i := None)\<rparr>\<rparr>"
  have "run c (DeleteSession ?i) w = (Inr (), ?w1)" "run c (DeleteSession ?i) ?w1 = (Inr (), ?w1)"
    using assms by (simp_all add: run_calm DeleteSession_def checked_def pg_text_HashToken)
  then show ?thesis using False by (simp add: Logout_def)
qed

theorem logout_revokes_witness:
  "\<exists>w1. Logout toy_ext month_handlers (Background\<lparr>cx_sessionToken := Some toy_token\<rparr>) member_world =
      (Logout204 (ClearedSessionCookie month_handlers), w1) \<and>
    sessions (w_db w1) (HashToken toy_ext toy_token) = None"
proof -
  have "calm (Background\<lparr>cx_sessionToken := Some toy_token\<rparr>) member_world"
    by (simp add: calm_def Background_def ctx_Err_def)
  from logout_revokes [OF this, of toy_ext month_handlers] show ?thesis
    by (auto simp: sessionTokenFrom_def toy_token_nonempty)
qed

section \<open>Me\<close>

text \<open>
  A User sees their own Household only: \<open>GET /me\<close> answers 401 exactly when no User is
  signed in, and a 200 carries the User on the context and the undeleted Household that
  User's row names, whatever the request said. Everything else is a 500, and nothing is
  written.
\<close>

theorem me_own_household:
  "case GetMe fixed4 c w of
     (GetMe401 code, w') \<Rightarrow> UserFromContext c = None \<and> w' = w
   | (GetMe200 me, w') \<Rightarrow>
       (\<exists>u hh. UserFromContext c = Some u \<and> households (w_db w) (usr_HouseholdID u) = Some hh \<and>
          hh_DeletedAt hh = None \<and> me = meResponse fixed4 u hh) \<and> w_db w' = w_db w
   | (GetMe500 code, w') \<Rightarrow> UserFromContext c \<noteq> None \<and> code = CodeInternal \<and> w_db w' = w_db w"
proof (cases "UserFromContext c")
  case None
  then show ?thesis by (simp add: GetMe_def)
next
  case (Some u)
  obtain r1 w1 where q: "run c (GetHouseholdByID (usr_HouseholdID u)) w = (r1, w1)" by force
  have db: "w_db w1 = w_db w" by (rule run_readonly [OF _ q]) simp
  show ?thesis
  proof (cases r1)
    case (Inl e)
    then show ?thesis using Some q db by (simp add: GetMe_def me_internalError_def)
  next
    case (Inr hh)
    have "households (w_db w) (usr_HouseholdID u) = Some hh" "hh_DeletedAt hh = None"
      using run_Inr(1) [OF q [unfolded Inr]]
      by (auto simp: GetHouseholdByID_def one_row_def split: option.splits if_splits)
    then show ?thesis using Some q db Inr by (simp add: GetMe_def)
  qed
qed

section \<open>Signing in where nothing fails\<close>

lemma touchIfStale_calm:
  assumes "calm c w" "touchIfStale h c hdrs s v w = (hdrs', w')"
  shows "calm c w'" "households (w_db w') = households (w_db w)"
proof -
  let ?arg = "\<lparr>tsp_ID = ses_ID s, tsp_ExpiresAt = to_pg (h_now h w + sessionTTL h)\<rparr>"
  obtain res w1 where q: "run c (TouchSession ?arg) w = (res, w1)" by force
  have "w_script w1 = w_script w \<and> w_clock w1 = w_clock w \<and> households (w_db w1) = households (w_db w)"
    using q by (cases "pg_text (ses_ID s)") (auto simp: run_calm [OF assms(1)] TouchSession_def checked_def)
  moreover have "w' = w \<or> w' = w1 \<or> w' = slog Warn ''touch session'' w1"
    using assms(2) q by (cases res) (auto simp: touchIfStale_def Let_def split: if_splits)
  ultimately have "w_script w' = w_script w \<and> w_clock w' = w_clock w \<and> households (w_db w') = households (w_db w)"
    by (auto simp: slog_def)
  then show "calm c w'" "households (w_db w') = households (w_db w)" using assms(1) by (simp_all add: calm_def)
qed

text \<open>A live row of an undeleted User signs the request in.\<close>

lemma live_row_signs_in:
  assumes "request_cookie r SessionCookieName = Some v" "v \<noteq> []" "calm c w"
    and "sessions (w_db w) (HashToken ext v) = Some s"
    and "live (intervalFrom (sessionMaxLifetime h)) (w_dbclock w) s"
    and "find_user (w_db w) (ses_UserID s) = Some u"
  shows "\<exists>hdrs' w'. SessionMiddleware ext h r c hdrs w = (WithUser c u, hdrs', w') \<and>
    calm c w' \<and> households (w_db w') = households (w_db w)"
proof -
  obtain hdrs' w' where t: "touchIfStale h c hdrs s v w = (hdrs', w')" by force
  have "run c (GetLiveSession \<lparr>gls_ID = HashToken ext v,
      gls_MaxLifetime = intervalFrom (sessionMaxLifetime h)\<rparr>) w = (Inr s, w)"
    using assms(3-5) by (simp add: run_calm GetLiveSession_def checked_def one_row_def pg_text_HashToken)
  moreover have "run c (GetUserByID (ses_UserID s)) w = (Inr u, w)"
    using assms(3,6) by (simp add: run_calm GetUserByID_eq)
  ultimately show ?thesis
    using assms(1,2) t touchIfStale_calm [OF assms(3) t] by (simp add: SessionMiddleware_def)
qed

lemma GetMe_calm:
  assumes "calm c w" "UserFromContext c = Some u"
    and "households (w_db w) (usr_HouseholdID u) = Some hh" "hh_DeletedAt hh = None"
  shows "GetMe fixed4 c w = (GetMe200 (meResponse fixed4 u hh), w)"
  using assms by (simp add: GetMe_def run_calm GetHouseholdByID_def one_row_def)

lemma find_user_unique:
  assumes "distinct (map usr_ID (users d))" "u \<in> set (users d)" "usr_DeletedAt u = None"
  shows "find_user d (usr_ID u) = Some u"
proof (cases "find_user d (usr_ID u)")
  case None
  then show ?thesis using assms(2,3) by (auto simp: find_user_def find_None_iff)
next
  case (Some u')
  then have "u' \<in> set (users d)" "usr_ID u' = usr_ID u" using find_user_Some by blast+
  then show ?thesis using Some assms(1,2) by (auto simp: distinct_map dest: inj_onD)
qed

lemma login_row:
  assumes "LocalLogin ext h dh c rawEmail password w = (LocalLogin204 ck, w1)" "w_queue w = []"
  obtains u where "fst (stored_hash ext dh (normalizeEmail ext rawEmail) (w_db w)) = Some u"
    "u \<in> set (users (w_db w))" "usr_DeletedAt u = None" "users (w_db w1) = users (w_db w)"
    "\<exists>s. sessions (w_db w1) (HashToken ext (ck_Value ck)) = Some s \<and> ses_UserID s = usr_ID u \<and>
       ses_CreatedAt s = w_dbclock w1 \<and> ses_ExpiresAt s = to_pg (ck_Expires ck)"
  using assms(1)
proof (cases rule: LocalLogin_cases)
  case (refused w1 c1 w2)
  from refused(1) show thesis by (cases rule: throttled_Some) (simp_all add: login_internalError_def)
next
  case (right w2 c1 w3)
  let ?st = "stored_hash ext dh (normalizeEmail ext rawEmail) (w_db w)"
  from right(1) show thesis
  proof (cases rule: finishLogin_cases)
    case (issued w4 ck')
    then have i: "IssueSession ext h c1 (map_option usr_ID (fst ?st)) (userAgentFrom c1) w4 = (Inr ck, w1)" by simp
    from i obtain uid s where s: "map_option usr_ID (fst ?st) = Some uid" "users (w_db w1) = users (w_db w4)"
      "sessions (w_db w1) (HashToken ext (ck_Value ck)) = Some s" "ses_UserID s = uid"
      "ses_CreatedAt s = w_dbclock w1" "ses_ExpiresAt s = to_pg (ck_Expires ck)"
      by (rule IssueSession_Inr) auto
    then obtain u where u: "fst ?st = Some u" "uid = usr_ID u" by auto
    then have "u \<in> set (users (w_db w))" "usr_DeletedAt u = None"
      by (auto simp: stored_hash_def find_Some_iff split: option.splits)
    then show thesis using that [OF u(1)] s u(2) issued(4) right(4) assms(2) by simp
  qed (simp add: login_internalError_def)
qed (simp_all add: login_internalError_def invalidCredentials_def)

end
