(* ===== verification/Config.thy ===== *)
theory Config
  imports Login
begin

text \<open>
  Configuration and wiring: \<open>backend/internal/config\<close>, \<open>backend/internal/system\<close> and what
  \<open>cmd/afloat/main.go\<close> builds from a configuration. Durations are nanoseconds. Parsing the
  environment is the library's (\<open>caarlos0/env\<close>); \<open>Load\<close> takes its result.
\<close>

section \<open>The configuration\<close>

record Config =
  DatabaseURL :: string
  Port :: int
  LogFormat :: string
  LogLevel :: string
  AutoMigrate :: bool
  ReadTimeout :: int
  WriteTimeout :: int
  IdleTimeout :: int
  ShutdownTimeout :: int
  AuthLocalEnabled :: bool
  AuthGoogleEnabled :: bool
  SessionTTL :: int
  SessionMaxLifetime :: int
  LoginFirstBackoff :: int
  LoginMaxBackoff :: int
  CookieSecure :: bool
  Version :: string

datatype config_error =
    ParseEnvironment
  | DatabaseURLEmpty
  | NoIdentityProvider
  | InvalidPort int
  | InvalidLogFormat string
  | MaxLifetimeShorterThanTTL int int
  | InvalidLogLevel string
  | FirstBackoffTooShort int
  | MaxBackoffShorterThanFirst int int
  | WriteTimeoutNotPositive int

definition millisecond :: int where "millisecond = 1000000"
definition second :: int where "second = 1000000000"

definition validate :: "Config \<Rightarrow> config_error + unit" where
  "validate c =
     (if TrimSpace (DatabaseURL c) = [] then Inl DatabaseURLEmpty
      else if \<not> AuthLocalEnabled c \<and> \<not> AuthGoogleEnabled c then Inl NoIdentityProvider
      else if Port c < 1 \<or> Port c > 65535 then Inl (InvalidPort (Port c))
      else if LogFormat c \<notin> {''text'', ''json''} then Inl (InvalidLogFormat (LogFormat c))
      else if SessionMaxLifetime c < SessionTTL c
        then Inl (MaxLifetimeShorterThanTTL (SessionMaxLifetime c) (SessionTTL c))
      else if LogLevel c \<notin> {''debug'', ''info'', ''warn'', ''error''} then Inl (InvalidLogLevel (LogLevel c))
      else if LoginFirstBackoff c < millisecond then Inl (FirstBackoffTooShort (LoginFirstBackoff c))
      else if LoginMaxBackoff c < LoginFirstBackoff c
        then Inl (MaxBackoffShorterThanFirst (LoginMaxBackoff c) (LoginFirstBackoff c))
      else if WriteTimeout c \<le> 0 then Inl (WriteTimeoutNotPositive (WriteTimeout c))
      else Inr ())"

definition Load :: "Config option \<Rightarrow> config_error + Config" where
  "Load parsed =
     (case parsed of None \<Rightarrow> Inl ParseEnvironment
      | Some cfg \<Rightarrow> res_bind (validate cfg) (\<lambda>_. Inr cfg))"

section \<open>The system handlers\<close>

record SystemHandlers =
  sys_version :: string
  sys_localEnabled :: bool
  sys_googleEnabled :: bool

record SystemDeps =
  sdep_Version :: string
  sdep_LocalEnabled :: bool
  sdep_GoogleEnabled :: bool

definition system_New :: "SystemDeps \<Rightarrow> SystemHandlers" where
  "system_New d =
     \<lparr>sys_version = sdep_Version d, sys_localEnabled = sdep_LocalEnabled d,
      sys_googleEnabled = sdep_GoogleEnabled d\<rparr>"

definition LocalEnabled :: "SystemHandlers \<Rightarrow> bool" where
  "LocalEnabled h = sys_localEnabled h"

datatype health_response = GetHealth200 string | GetHealth503 string

definition GetHealth :: "SystemHandlers \<Rightarrow> ctx \<Rightarrow> world \<Rightarrow> health_response \<times> world" where
  "GetHealth h c w =
     (case run c Ping w of
        (Inl e, w1) \<Rightarrow> (GetHealth503 (sys_version h), slog Error ''health: database unreachable'' w1)
      | (Inr _, w1) \<Rightarrow> (GetHealth200 (sys_version h), w1))"

definition GetAuthMethods :: "SystemHandlers \<Rightarrow> bool \<times> bool" where
  "GetAuthMethods h = (sys_localEnabled h, sys_googleEnabled h)"

section \<open>Wiring\<close>

definition auth_of_config :: "Config \<Rightarrow> Handlers" where
  "auth_of_config cfg = New
     \<lparr>dep_SessionTTL = SessionTTL cfg, dep_SessionMaxLifetime = SessionMaxLifetime cfg,
      dep_CookieSecure = CookieSecure cfg, dep_FirstBackoff = LoginFirstBackoff cfg,
      dep_MaxBackoff = LoginMaxBackoff cfg, dep_Now = None\<rparr>"

definition system_of_config :: "Config \<Rightarrow> SystemHandlers" where
  "system_of_config cfg = system_New
     \<lparr>sdep_Version = Version cfg, sdep_LocalEnabled = AuthLocalEnabled cfg,
      sdep_GoogleEnabled = AuthGoogleEnabled cfg\<rparr>"

definition readHeaderTimeout :: int where "readHeaderTimeout = 5 * second"
definition writeTimeoutGrace :: int where "writeTimeoutGrace = 5 * second"

record http_server =
  srv_Addr :: string
  srv_ReadHeaderTimeout :: int
  srv_ReadTimeout :: int
  srv_WriteTimeout :: int
  srv_IdleTimeout :: int
  srv_DisableGeneralOptionsHandler :: bool

definition newHTTPServer :: "Config \<Rightarrow> http_server" where
  "newHTTPServer cfg =
     \<lparr>srv_Addr = JoinHostPort [] (format_int (Port cfg)),
      srv_ReadHeaderTimeout = readHeaderTimeout, srv_ReadTimeout = ReadTimeout cfg,
      srv_WriteTimeout = wrap64 (WriteTimeout cfg + writeTimeoutGrace),
      srv_IdleTimeout = IdleTimeout cfg, srv_DisableGeneralOptionsHandler = True\<rparr>"

definition newLogger_level :: "Config \<Rightarrow> string" where
  "newLogger_level cfg =
     (if LogLevel cfg = ''debug'' then ''DEBUG'' else if LogLevel cfg = ''warn'' then ''WARN''
      else if LogLevel cfg = ''error'' then ''ERROR'' else ''INFO'')"

text \<open>The handler's format and its level.\<close>

definition newLogger :: "Config \<Rightarrow> string \<times> string" where
  "newLogger cfg = (if LogFormat cfg = ''json'' then ''json'' else ''text'', newLogger_level cfg)"

section \<open>What a loaded configuration guarantees\<close>

text \<open>Every duration is a 64-bit integer.\<close>

definition config_typed :: "Config \<Rightarrow> bool" where
  "config_typed c \<longleftrightarrow> list_all is_int64 [ReadTimeout c, WriteTimeout c, IdleTimeout c, ShutdownTimeout c,
     SessionTTL c, SessionMaxLifetime c, LoginFirstBackoff c, LoginMaxBackoff c]"

lemma intervalFrom_nonneg: "0 \<le> d \<Longrightarrow> intervalFrom d = d div 1000"
  by (simp add: intervalFrom_def signed_divide_int_def sgn_if)

lemma validate_Inr:
  "validate c = Inr () \<longleftrightarrow>
     TrimSpace (DatabaseURL c) \<noteq> [] \<and> (AuthLocalEnabled c \<or> AuthGoogleEnabled c) \<and>
     1 \<le> Port c \<and> Port c \<le> 65535 \<and> LogFormat c \<in> {''text'', ''json''} \<and>
     SessionTTL c \<le> SessionMaxLifetime c \<and> LogLevel c \<in> {''debug'', ''info'', ''warn'', ''error''} \<and>
     millisecond \<le> LoginFirstBackoff c \<and> LoginFirstBackoff c \<le> LoginMaxBackoff c \<and> 0 < WriteTimeout c"
  by (auto simp: validate_def)

lemma loaded_backoff_ok:
  assumes "validate cfg = Inr ()" "config_typed cfg" "pg_text key"
  shows "backoff_params_ok (failure_params (auth_of_config cfg) key)"
proof -
  have F: "1000000 \<le> LoginFirstBackoff cfg" "LoginFirstBackoff cfg \<le> LoginMaxBackoff cfg"
    using assms(1) by (auto simp: validate_Inr millisecond_def)
  have M: "LoginMaxBackoff cfg < 2 ^ 63" using assms(2) by (simp add: config_typed_def is_int64_def)
  have "1 \<le> LoginFirstBackoff cfg div 1000" using F(1) by (simp add: le_div_geq zdiv_mono1 [of 1000 _ 1000])
  moreover have "LoginFirstBackoff cfg div 1000 \<le> LoginMaxBackoff cfg div 1000" using F(2) by (rule zdiv_mono1) simp
  moreover have "LoginMaxBackoff cfg div 1000 < 2 ^ 61" using M by (simp add: div_less_iff_less_mult)
  ultimately show ?thesis
    using assms(3) F
    by (simp add: backoff_params_ok_def failure_params_def auth_of_config_def New_def intervalFrom_nonneg)
qed

text \<open>
  C33. A configuration that loads cannot break the login backoff: at every key the database
  takes, its two windows are in the range for which the curve is the capped doubling and
  never overflows. And the connection's write deadline leaves the handler its timeout and
  five seconds more, unless their sum leaves 64 bits.
\<close>

theorem loaded_config_serves:
  assumes "Load (Some cfg) = Inr cfg'" "config_typed cfg" "pg_text key"
  shows "cfg' = cfg \<and> backoff_params_ok (failure_params (auth_of_config cfg) key) \<and>
    (WriteTimeout cfg + 5 * second < 2 ^ 63 \<longrightarrow>
       srv_WriteTimeout (newHTTPServer cfg) = WriteTimeout cfg + 5 * second) \<and>
    (LocalEnabled (system_of_config cfg) \<or> snd (GetAuthMethods (system_of_config cfg)))"
proof -
  have v: "validate cfg = Inr ()" and c: "cfg' = cfg"
    using assms(1) by (auto simp: Load_def res_bind_def split: sum.splits)
  have F: "AuthLocalEnabled cfg \<or> AuthGoogleEnabled cfg" "0 < WriteTimeout cfg"
    using v by (auto simp: validate_Inr)
  have "backoff_params_ok (failure_params (auth_of_config cfg) key)" by (rule loaded_backoff_ok [OF v assms(2,3)])
  moreover have "srv_WriteTimeout (newHTTPServer cfg) = WriteTimeout cfg + 5 * second"
    if "WriteTimeout cfg + 5 * second < 2 ^ 63"
    using that F(2) by (simp add: newHTTPServer_def writeTimeoutGrace_def second_def wrap64_id is_int64_def)
  ultimately show ?thesis
    using c F(1) by (simp add: LocalEnabled_def GetAuthMethods_def system_of_config_def system_New_def)
qed

text \<open>The defaults the field tags declare.\<close>

definition default_config :: Config where
  "default_config = \<lparr>DatabaseURL = ''postgres://localhost/afloat'', Port = 5182, LogFormat = ''text'',
     LogLevel = ''info'', AutoMigrate = True, ReadTimeout = 30 * second, WriteTimeout = 60 * second,
     IdleTimeout = 120 * second, ShutdownTimeout = 10 * second, AuthLocalEnabled = True,
     AuthGoogleEnabled = False, SessionTTL = 720 * 3600 * second, SessionMaxLifetime = 2160 * 3600 * second,
     LoginFirstBackoff = 1 * second, LoginMaxBackoff = 300 * second, CookieSecure = True, Version = ''dev''\<rparr>"

lemma default_config_valid: "validate default_config = Inr ()"
proof -
  have "TrimSpace ''postgres://localhost/afloat'' \<noteq> []"
    by (simp add: TrimSpace_ascii is_ascii_def trim_both_def IsSpace_def)
  then show ?thesis by (simp add: validate_Inr default_config_def second_def millisecond_def)
qed

theorem loaded_config_serves_witness:
  "backoff_params_ok (failure_params (auth_of_config default_config) ''email:a'') \<and>
   srv_WriteTimeout (newHTTPServer default_config) = 65 * second"
proof -
  have "Load (Some default_config) = Inr default_config" by (simp add: Load_def default_config_valid)
  moreover have "config_typed default_config"
    by (simp add: config_typed_def default_config_def second_def is_int64_def)
  moreover have "pg_text ''email:a''" by (simp add: pg_text_def ValidString_ascii is_ascii_def)
  ultimately show ?thesis
    using loaded_config_serves by (fastforce simp: default_config_def second_def)
qed

text \<open>A lifetime of zero passes: such a server signs nobody in.\<close>

lemma zero_ttl_valid: "validate (default_config\<lparr>SessionTTL := 0, SessionMaxLifetime := 0\<rparr>) = Inr ()"
  using default_config_valid by (simp add: validate_Inr)

end
