(* ===== verification/Process.thy ===== *)
theory Process
  imports Config
begin

text \<open>
  The life of the server process: \<open>run\<close> and \<open>main\<close> of \<open>cmd/afloat/main.go\<close> with \<open>Connect\<close> and
  \<open>Migrate\<close> of \<open>backend/internal/postgres\<close>, as a function from what the outside answers to the
  error returned and the effects in their order, deferred ones included.
\<close>

section \<open>The outside\<close>

text \<open>What ends the \<open>select\<close>: the listener failing, or SIGINT or SIGTERM.\<close>

datatype serve_end = ListenerFailed | Signalled

text \<open>
  The answers: the parsed environment, then whether each call succeeds. With both ends of the
  \<open>select\<close> ready Go picks either, so \<open>out_End\<close> is a free choice too.
\<close>

record outside =
  out_Environment :: "Config option"
  out_OpenMigration :: bool
  out_CloseMigration :: bool
  out_SetDialect :: bool
  out_Up :: bool
  out_ParseURL :: bool
  out_NewPool :: bool
  out_Ping :: bool
  out_End :: serve_end
  out_Shutdown :: bool

datatype effect =
    SetLogger "string \<times> string"
  | NotifySignals | StopSignals
  | OpenMigration | CloseMigration | CloseMigrationFailed | MigrationsApplied | AutoMigrateOff
  | OpenPool | Pinged | ClosePool
  | Listening http_server | ShuttingDown int | Stopped

datatype migrate_error = OpenMigrationFailed | DialectFailed | UpFailed
datatype connect_error = ParseURLFailed | OpenPoolFailed | PingFailed

datatype run_error =
  ConfigError config_error | MigrateError migrate_error | ConnectError connect_error | ServeError | ShutdownError

section \<open>The database\<close>

definition Migrate :: "outside \<Rightarrow> migrate_error option \<times> effect list" where
  "Migrate out =
     (let closed = CloseMigration # (if out_CloseMigration out then [] else [CloseMigrationFailed])
      in if \<not> out_OpenMigration out then (Some OpenMigrationFailed, [])
         else if \<not> out_SetDialect out then (Some DialectFailed, OpenMigration # closed)
         else if \<not> out_Up out then (Some UpFailed, OpenMigration # closed)
         else (None, [OpenMigration, MigrationsApplied] @ closed))"

definition Connect :: "outside \<Rightarrow> connect_error option \<times> effect list" where
  "Connect out =
     (if \<not> out_ParseURL out then (Some ParseURLFailed, [])
      else if \<not> out_NewPool out then (Some OpenPoolFailed, [])
      else if \<not> out_Ping out then (Some PingFailed, [OpenPool, ClosePool])
      else (None, [OpenPool, Pinged]))"

text \<open>goose's own output, formatted, through the process's logger: its \<open>Fatalf\<close> does not end the process.\<close>

definition goose_Printf :: "string \<Rightarrow> world \<Rightarrow> world" where
  "goose_Printf msg w = slog Info msg w"

definition goose_Fatalf :: "string \<Rightarrow> world \<Rightarrow> world" where
  "goose_Fatalf msg w = slog Error msg w"

section \<open>The process\<close>

text \<open>From the listener to the end of \<open>run\<close>, before its deferred calls.\<close>

definition serve :: "Config \<Rightarrow> outside \<Rightarrow> run_error option \<times> effect list" where
  "serve cfg out =
     (case out_End out of
        ListenerFailed \<Rightarrow> (Some ServeError, [Listening (newHTTPServer cfg)])
      | Signalled \<Rightarrow>
          if out_Shutdown out
          then (None, [Listening (newHTTPServer cfg), ShuttingDown (ShutdownTimeout cfg), Stopped])
          else (Some ShutdownError, [Listening (newHTTPServer cfg), ShuttingDown (ShutdownTimeout cfg)]))"

definition process_run :: "outside \<Rightarrow> run_error option \<times> effect list" where
  "process_run out =
     (case Load (out_Environment out) of
        Inl e \<Rightarrow> (Some (ConfigError e), [])
      | Inr cfg \<Rightarrow>
        let start = [SetLogger (newLogger cfg), NotifySignals];
            (merr, migrating) = (if AutoMigrate cfg then Migrate out else (None, [AutoMigrateOff]))
        in case merr of
             Some e \<Rightarrow> (Some (MigrateError e), start @ migrating @ [StopSignals])
           | None \<Rightarrow>
             (case Connect out of
                (Some e, connecting) \<Rightarrow> (Some (ConnectError e), start @ migrating @ connecting @ [StopSignals])
              | (None, connecting) \<Rightarrow>
                (case serve cfg out of (err, serving) \<Rightarrow>
                   (err, start @ migrating @ connecting @ serving @ [ClosePool, StopSignals]))))"

text \<open>The exit status.\<close>

definition process_main :: "outside \<Rightarrow> nat" where
  "process_main out = (case process_run out of (None, _) \<Rightarrow> 0 | (Some _, _) \<Rightarrow> 1)"

section \<open>An orderly life\<close>

text \<open>The effects before the first one of a kind.\<close>

definition before :: "(effect \<Rightarrow> bool) \<Rightarrow> effect list \<Rightarrow> effect list" where
  "before P es = takeWhile (\<lambda>e. \<not> P e) es"

definition is_listening :: "effect \<Rightarrow> bool" where
  "is_listening e = (case e of Listening _ \<Rightarrow> True | _ \<Rightarrow> False)"

lemma run_cases:
  obtains (config) e where "process_run out = (Some (ConfigError e), [])"
  | (migrate) cfg e ms where "Load (out_Environment out) = Inr cfg" "Migrate out = (Some e, ms)"
      "process_run out = (Some (MigrateError e), [SetLogger (newLogger cfg), NotifySignals] @ ms @ [StopSignals])"
  | (connect) cfg e ms cs where "Load (out_Environment out) = Inr cfg"
      "ms = (if AutoMigrate cfg then snd (Migrate out) else [AutoMigrateOff])" "AutoMigrate cfg \<Longrightarrow> fst (Migrate out) = None"
      "Connect out = (Some e, cs)"
      "process_run out = (Some (ConnectError e), [SetLogger (newLogger cfg), NotifySignals] @ ms @ cs @ [StopSignals])"
  | (serving) cfg err ms ss where "Load (out_Environment out) = Inr cfg"
      "ms = (if AutoMigrate cfg then snd (Migrate out) else [AutoMigrateOff])" "AutoMigrate cfg \<Longrightarrow> fst (Migrate out) = None"
      "Connect out = (None, [OpenPool, Pinged])" "serve cfg out = (err, ss)"
      "process_run out = (err, [SetLogger (newLogger cfg), NotifySignals] @ ms @ [OpenPool, Pinged] @ ss @ [ClosePool, StopSignals])"
proof (cases "Load (out_Environment out)")
  case (Inl e)
  then show thesis using config by (simp add: process_run_def)
next
  case (Inr cfg)
  show thesis
  proof (cases "AutoMigrate cfg \<and> fst (Migrate out) \<noteq> None")
    case True
    then show thesis using migrate [OF Inr] Inr by (cases "Migrate out") (auto simp: process_run_def)
  next
    case False
    obtain ce cs where c: "Connect out = (ce, cs)" by force
    obtain err ss where s: "serve cfg out = (err, ss)" by force
    show thesis
    proof (cases ce)
      case None
      then have "cs = [OpenPool, Pinged]" using c by (auto simp: Connect_def split: if_splits)
      then show thesis
        using serving [OF Inr _ _ _ s] Inr None False c s by (cases "Migrate out") (auto simp: process_run_def)
    next
      case (Some e)
      then show thesis using connect [OF Inr] Inr False c by (cases "Migrate out") (auto simp: process_run_def)
    qed
  qed
qed

lemma Migrate_effects:
  "count_list (snd (Migrate out)) OpenMigration = count_list (snd (Migrate out)) CloseMigration"
  "fst (Migrate out) = None \<Longrightarrow> MigrationsApplied \<in> set (snd (Migrate out))"
  "set (snd (Migrate out)) \<subseteq> {OpenMigration, CloseMigration, CloseMigrationFailed, MigrationsApplied}"
  by (auto simp: Migrate_def Let_def split: if_splits)

text \<open>What is opened is closed.\<close>

definition balanced :: "effect list \<Rightarrow> bool" where
  "balanced es \<longleftrightarrow> count_list es OpenPool = count_list es ClosePool \<and>
     count_list es OpenMigration = count_list es CloseMigration \<and> count_list es NotifySignals = count_list es StopSignals"

lemma migrating_counts:
  assumes "ms = snd (Migrate out) \<or> ms = [AutoMigrateOff]"
  shows "count_list ms OpenMigration = count_list ms CloseMigration"
    "count_list ms OpenPool = 0" "count_list ms ClosePool = 0" "count_list ms NotifySignals = 0" "count_list ms StopSignals = 0"
    "\<forall>e \<in> set ms. \<not> is_listening e" "Stopped \<notin> set ms" "ClosePool \<notin> set ms"
  using assms Migrate_effects(1,3) [of out]
  by (auto simp: count_list_0_iff is_listening_def)

lemma serve_effects:
  assumes "serve cfg out = (err, ss)"
  shows "\<exists>rest. ss = Listening (newHTTPServer cfg) # rest \<and> set rest \<subseteq> {ShuttingDown (ShutdownTimeout cfg), Stopped} \<and>
    (err = None \<longleftrightarrow> Stopped \<in> set ss)"
  using assms by (auto simp: serve_def split: serve_end.splits if_splits)

lemma run_balanced: "balanced (snd (process_run out))"
proof (cases out rule: run_cases)
  case (migrate cfg e ms)
  then show ?thesis using migrating_counts [of ms out] by (simp add: balanced_def)
next
  case (connect cfg e ms cs)
  then show ?thesis
    using migrating_counts [of ms out] by (auto simp: balanced_def Connect_def split: if_splits)
next
  case (serving cfg err ms ss)
  obtain rest where "ss = Listening (newHTTPServer cfg) # rest" "set rest \<subseteq> {ShuttingDown (ShutdownTimeout cfg), Stopped}"
    using serve_effects [OF serving(5)] by blast
  then have "count_list ss e = 0" if "e \<in> {OpenPool, ClosePool, OpenMigration, CloseMigration, NotifySignals, StopSignals}" for e
    using that by (auto simp: count_list_0_iff)
  then show ?thesis
    using serving(2,6) migrating_counts [of ms out] by (auto simp: balanced_def split: if_splits)
qed (simp add: balanced_def)

text \<open>
  C28. The process lives orderly, whatever fails: every connection and the signal handler it opens
  are closed again; it listens only with a configuration that loads, the server built from it,
  the pool pinged and open, and, with automatic migration on, the migrations applied before, while with
  it off the schema is never touched; and it exits with 0 exactly when it stopped after a graceful
  shutdown.
\<close>

theorem process_orderly:
  assumes "process_run out = (err, es)"
  shows "balanced es \<and> (process_main out = 0 \<longleftrightarrow> Stopped \<in> set es) \<and>
    (\<forall>srv. Listening srv \<in> set es \<longrightarrow>
      (\<exists>cfg. Load (out_Environment out) = Inr cfg \<and> srv = newHTTPServer cfg \<and>
        Pinged \<in> set (before is_listening es) \<and> ClosePool \<notin> set (before is_listening es) \<and>
        (if AutoMigrate cfg then MigrationsApplied \<in> set (before is_listening es) else OpenMigration \<notin> set es)))"
proof -
  have b: "balanced es" using run_balanced [of out] assms by simp
  show ?thesis
  proof (cases out rule: run_cases)
    case (config e)
    then show ?thesis using assms b by (simp add: process_main_def)
  next
    case (migrate cfg e ms)
    then show ?thesis
      using assms b migrating_counts(6,7) [of ms out] by (fastforce simp: process_main_def is_listening_def)
  next
    case (connect cfg e ms cs)
    have "set cs \<subseteq> {OpenPool, ClosePool}" using connect(4) by (auto simp: Connect_def split: if_splits)
    moreover have "\<forall>e \<in> set ms. \<not> is_listening e" "Stopped \<notin> set ms" using migrating_counts(6,7) [of ms out] connect(2) by auto
    ultimately show ?thesis
      using assms b connect(5) by (fastforce simp: process_main_def is_listening_def)
  next
    case (serving cfg err' ms ss)
    obtain rest where r: "ss = Listening (newHTTPServer cfg) # rest" "set rest \<subseteq> {ShuttingDown (ShutdownTimeout cfg), Stopped}"
      "err' = None \<longleftrightarrow> Stopped \<in> set ss"
      using serve_effects [OF serving(5)] by blast
    have m: "\<forall>e \<in> set ms. \<not> is_listening e" "Stopped \<notin> set ms" "ClosePool \<notin> set ms"
      using migrating_counts(6-8) [of ms out] serving(2) by (auto split: if_splits)
    let ?front = "[SetLogger (newLogger cfg), NotifySignals] @ ms @ [OpenPool, Pinged]"
    have es: "es = ?front @ Listening (newHTTPServer cfg) # rest @ [ClosePool, StopSignals]" "err = err'"
      using assms serving(6) r(1) by simp_all
    have f: "before is_listening es = ?front"
      unfolding es before_def using m(1) by (simp add: takeWhile_append is_listening_def)
    have "if AutoMigrate cfg then MigrationsApplied \<in> set ms else OpenMigration \<notin> set es"
      using serving(2,3) Migrate_effects(2) r(2) by (auto simp: es)
    moreover have "srv = newHTTPServer cfg" if "Listening srv \<in> set es" for srv
      using that m(1) r(2) unfolding es by (auto simp: is_listening_def)
    moreover have "process_main out = 0 \<longleftrightarrow> Stopped \<in> set es"
      using r m(2) assms serving(6) es by (auto simp: process_main_def split: option.split)
    ultimately show ?thesis using b serving(1) m(3) unfolding f by auto
  qed
qed

definition healthy :: outside where
  "healthy = \<lparr>out_Environment = Some default_config, out_OpenMigration = True, out_CloseMigration = True, out_SetDialect = True,
     out_Up = True, out_ParseURL = True, out_NewPool = True, out_Ping = True, out_End = Signalled, out_Shutdown = True\<rparr>"

theorem process_orderly_witness:
  "\<exists>err es. process_run healthy = (err, es) \<and> process_main healthy = 0 \<and> balanced es \<and>
     MigrationsApplied \<in> set (before is_listening es)"
proof -
  obtain err es where r: "process_run healthy = (err, es)" by force
  have l: "Load (Some default_config) = Inr default_config" by (simp add: Load_def default_config_valid)
  then have "Stopped \<in> set es" "Listening (newHTTPServer default_config) \<in> set es" "AutoMigrate default_config"
    using r by (auto simp: process_run_def healthy_def Migrate_def Connect_def serve_def Let_def default_config_def)
  then show ?thesis using process_orderly [OF r] r l by (auto simp: healthy_def)
qed

end
