(* ===== verification/HttpServer.thy ===== *)
theory HttpServer
  imports Config
begin

text \<open>
  The HTTP layer (\<open>backend/internal/httpserver\<close>: \<open>middleware.go\<close>, \<open>csrf.go\<close>, \<open>basepath.go\<close>,
  \<open>errors.go\<close>, \<open>server.go\<close>). A handler takes the request, its context, the response under way
  and the world; a middleware is a function on handlers, composed as \<open>New\<close> mounts them.

  Parameters: the host \<open>net/url\<close> parses out of an Origin, chi's Timeout middleware and its
  \<open>Mount\<close>, and the handler of the generated routes.
\<close>

section \<open>Requests, responses, handlers\<close>

record server_request = http_request +
  rq_Method :: string
  rq_Path :: string
  rq_RawPath :: string
  rq_Host :: string
  rq_RoutePath :: string
  rq_Header :: "(string \<times> string) list"
  rq_Body :: string
  rq_BodyBroken :: bool
  rq_BodyLimit :: "int option"

text \<open>
  \<open>rq_RoutePath\<close> is the path chi has left to match below a mount. The body is the bytes the
  client sends; \<open>rq_BodyBroken\<close> says that it goes away after them instead of ending the body.
\<close>

text \<open>\<open>r.Header.Get\<close> of a canonical name: the first value, empty when absent.\<close>

definition header_Get :: "server_request \<Rightarrow> string \<Rightarrow> string" where
  "header_Get r name = (case map_of (rq_Header r) name of None \<Rightarrow> [] | Some v \<Rightarrow> v)"

text \<open>
  What has been written to the \<open>http.ResponseWriter\<close>: the status, 0 while none is sent, the
  headers, which are sent with it, the \<open>Set-Cookie\<close> lines among them, and the body's bytes.
  \<open>rs_discards\<close> says that the writer in hand is the \<open>headDiscardingWriter\<close>.
\<close>

record response =
  rs_status :: nat
  rs_headers :: "string \<Rightarrow> string option"
  rs_cookies :: "cookie list"
  rs_body :: string
  rs_discards :: bool

text \<open>A header set after the status is sent does not reach the client.\<close>

definition header_Set :: "string \<Rightarrow> string \<Rightarrow> response \<Rightarrow> response" where
  "header_Set name v resp =
     (if rs_status resp = 0 then resp\<lparr>rs_headers := (rs_headers resp)(name := Some v)\<rparr> else resp)"

text \<open>\<open>WriteHeader\<close>: the first status stands.\<close>

definition WriteHeader :: "nat \<Rightarrow> response \<Rightarrow> response" where
  "WriteHeader status resp = (if rs_status resp = 0 then resp\<lparr>rs_status := status\<rparr> else resp)"

definition write_body :: "string \<Rightarrow> response \<Rightarrow> response" where
  "write_body b resp = (if rs_discards resp then resp else resp\<lparr>rs_body := rs_body resp @ b\<rparr>)"

text \<open>\<open>httperr.Write\<close> on a response under way.\<close>

definition write_reply :: "reply \<Rightarrow> response \<Rightarrow> response" where
  "write_reply rp resp =
     write_body (Encode (envelope_json (rp_envelope rp)))
       (WriteHeader (rp_status rp) (header_Set ''Content-Type'' (rp_contentType rp) resp))"

datatype outcome = Done response | Panicking response

type_synonym handler = "server_request \<Rightarrow> ctx \<Rightarrow> response \<Rightarrow> world \<Rightarrow> outcome \<times> world"

section \<open>Middleware\<close>

definition recoverer :: "handler \<Rightarrow> handler" where
  "recoverer next r c resp w =
     (case next r c resp w of
        (Panicking resp', w') \<Rightarrow>
          (Done (write_reply (Write 500 CodeInternal []) resp'), slog Error ''panic recovered'' w')
      | (Done resp', w') \<Rightarrow> (Done resp', w'))"

definition requestLogger :: "handler \<Rightarrow> handler" where
  "requestLogger next r c resp w =
     (case next r c resp w of
        (Panicking resp', w') \<Rightarrow> (Panicking resp', w')
      | (Done resp', w') \<Rightarrow> (Done resp', slog Info ''request'' w'))"

definition localLoginPath :: "string \<Rightarrow> string" where
  "localLoginPath basePath = basePath @ ''/auth/local/login''"

text \<open>\<open>http.NotFound\<close>: a 404 in plain text.\<close>

definition NotFound :: "response \<Rightarrow> response" where
  "NotFound resp = write_body (''404 page not found'' @ [LF])
     (WriteHeader 404 (header_Set ''X-Content-Type-Options'' ''nosniff''
       (header_Set ''Content-Type'' ''text/plain; charset=utf-8'' resp)))"

definition disabledLocalLogin404 :: "string \<Rightarrow> bool \<Rightarrow> handler \<Rightarrow> handler" where
  "disabledLocalLogin404 basePath enabled next =
     (if enabled then next
      else (\<lambda>r c resp w.
        if rq_Path r = localLoginPath basePath then (Done (NotFound resp), w) else next r c resp w))"

definition routeOnDecodedPath :: "(nat \<Rightarrow> nat) \<Rightarrow> handler \<Rightarrow> handler" where
  "routeOnDecodedPath ulow next r c resp w =
     (if rq_RawPath r = [] \<or> Contains (ToLower ulow (rq_RawPath r)) ''%2f'' then next r c resp w
      else next (r\<lparr>rq_RawPath := []\<rparr>) c resp w)"

definition maxBodyBytes :: "int \<Rightarrow> handler \<Rightarrow> handler" where
  "maxBodyBytes n next r c resp w = next (r\<lparr>rq_BodyLimit := Some n\<rparr>) c resp w"

text \<open>The discarding writer is the handler's only: what runs after it writes to the outer one.\<close>

fun unwrap_writer :: "bool \<Rightarrow> outcome \<Rightarrow> outcome" where
  "unwrap_writer d (Done resp) = Done (resp\<lparr>rs_discards := d\<rparr>)"
| "unwrap_writer d (Panicking resp) = Panicking (resp\<lparr>rs_discards := d\<rparr>)"

definition headAsGet :: "handler \<Rightarrow> handler" where
  "headAsGet next r c resp w =
     (if rq_Method r \<noteq> ''HEAD'' then next r c resp w
      else case next (r\<lparr>rq_Method := ''GET''\<rparr>) c (resp\<lparr>rs_discards := True\<rparr>) w of
        (out, w') \<Rightarrow> (unwrap_writer (rs_discards resp) out, w'))"

definition optionsRefused :: "handler \<Rightarrow> handler" where
  "optionsRefused next r c resp w =
     (if rq_Method r = ''OPTIONS'' then (Done (WriteHeader 405 resp), w) else next r c resp w)"

section \<open>Request ids\<close>

definition requestIDHeader :: string where "requestIDHeader = ''X-Request-Id''"
definition maxRequestIDLength :: nat where "maxRequestIDLength = 64"

definition id_char :: "char \<Rightarrow> bool" where
  "id_char c \<longleftrightarrow> byte_in 97 122 c \<or> byte_in 65 90 c \<or> byte_in 48 57 c \<or> c = CHR ''-'' \<or> c = CHR ''_''"

text \<open>The loop of \<open>sanitiseRequestID\<close>: what is read, what is left.\<close>

fun sanitise_loop :: "string \<Rightarrow> string \<Rightarrow> string" where
  "sanitise_loop b [] = b"
| "sanitise_loop b (c # s) =
     (if length b < maxRequestIDLength then sanitise_loop (if id_char c then b @ [c] else b) s else b)"

definition sanitiseRequestID :: "string \<Rightarrow> string" where
  "sanitiseRequestID supplied = sanitise_loop [] supplied"

text \<open>\<open>crypto/rand\<close> does not fail here; an exhausted source is read as zero bytes.\<close>

definition newRequestID :: "world \<Rightarrow> string \<times> world" where
  "newRequestID w =
     (case rand_Read w of (r, w1) \<Rightarrow>
        (hex_EncodeToString (take 8 ((case r of None \<Rightarrow> [] | Some b \<Rightarrow> b) @ replicate 8 (CHR 0x00))), w1))"

definition requestID :: "handler \<Rightarrow> handler" where
  "requestID next r c resp w =
     (let supplied = sanitiseRequestID (header_Get r requestIDHeader);
          (i, w1) = (if supplied = [] then newRequestID w else (supplied, w))
      in next r (c\<lparr>cx_requestID := Some i\<rparr>) (header_Set requestIDHeader i resp) w1)"

definition requestIDFrom :: "ctx \<Rightarrow> string" where
  "requestIDFrom c = (case cx_requestID c of None \<Rightarrow> [] | Some i \<Rightarrow> i)"

section \<open>Fixed headers and the cross-site guard\<close>

definition security_header_set :: "(string \<times> string) list" where
  "security_header_set =
     [(''X-Content-Type-Options'', ''nosniff''), (''X-Frame-Options'', ''DENY''),
      (''Cache-Control'', ''no-cache, no-store, max-age=0, must-revalidate''),
      (''Pragma'', ''no-cache''), (''Expires'', ''0''), (''X-XSS-Protection'', ''0'')]"

definition securityHeaders :: "handler \<Rightarrow> handler" where
  "securityHeaders next r c resp w =
     next r c (fold (\<lambda>(n, v). header_Set n v) security_header_set resp) w"

definition isSafeMethod :: "string \<Rightarrow> bool" where
  "isSafeMethod m \<longleftrightarrow> m \<in> {''GET'', ''HEAD'', ''OPTIONS'', ''TRACE''}"

definition crossSiteGuard :: "(string \<Rightarrow> string option) \<Rightarrow> handler \<Rightarrow> handler" where
  "crossSiteGuard url_host next r c resp w =
     (let blocked = (Done (write_reply (Write 403 CodeCrossSiteRequestBlocked []) resp), w);
          site = header_Get r ''Sec-Fetch-Site'';
          origin = header_Get r ''Origin''
      in if isSafeMethod (rq_Method r) then next r c resp w
         else if site \<noteq> [] then
           (if site \<noteq> ''same-origin'' \<and> site \<noteq> ''none'' then blocked else next r c resp w)
         else if origin \<noteq> [] then
           (case url_host origin of
              None \<Rightarrow> blocked
            | Some host \<Rightarrow> if host \<noteq> rq_Host r then blocked else next r c resp w)
         else next r c resp w)"

section \<open>The base path\<close>

datatype base_error = NoServersEntry | NotABasePath string

text \<open>The server URLs of the contract, a missing entry being \<open>None\<close>.\<close>

definition basePathOf :: "string option list \<Rightarrow> base_error + string" where
  "basePathOf servers =
     (case servers of
        Some u # _ \<Rightarrow>
          if \<not> HasPrefix u ''/'' \<or> HasPrefix u ''//'' \<or> HasSuffix u ''/'' \<or> ContainsAny u ''{}?#''
          then Inl (NotABasePath u) else Inr u
      | _ \<Rightarrow> Inl NoServersEntry)"

text \<open>
  \<open>mustBasePath\<close> on the embedded contract, \<open>None\<close> when that does not load; the result \<open>None\<close> is the
  panic that fails the process at boot.
\<close>

definition mustBasePath :: "string option list option \<Rightarrow> string option" where
  "mustBasePath spec =
     (case spec of
        None \<Rightarrow> None
      | Some servers \<Rightarrow> (case basePathOf servers of Inl _ \<Rightarrow> None | Inr p \<Rightarrow> Some p))"

section \<open>Error handlers\<close>

definition requestErrorHandler :: "response \<Rightarrow> world \<Rightarrow> response \<times> world" where
  "requestErrorHandler resp w =
     (write_reply (Write 400 CodeInvalidJSONBody []) resp, slog Warn ''request body rejected'' w)"

definition responseErrorHandler :: "response \<Rightarrow> world \<Rightarrow> response \<times> world" where
  "responseErrorHandler resp w =
     (write_reply (Write 500 CodeInternal []) resp, slog Error ''handler returned an error'' w)"

text \<open>
  What binding a parameter fails with, as the generated wrapper types it. Most carry the error
  they wrap (\<open>None\<close> for nil); any other error may wrap several.
\<close>

datatype (discs_sels) param_error =
    RequiredParamError string
  | RequiredHeaderError string "param_error option"
  | InvalidParamFormatError string "param_error option"
  | UnmarshalingParamError string "param_error option"
  | UnescapedCookieParamError string "param_error option"
  | TooManyValuesForParamError string int
  | OtherParamError string "param_error list"

fun ParamName :: "param_error \<Rightarrow> string" where
  "ParamName (RequiredParamError n) = n"
| "ParamName (RequiredHeaderError n _) = n"
| "ParamName (InvalidParamFormatError n _) = n"
| "ParamName (UnmarshalingParamError n _) = n"
| "ParamName (UnescapedCookieParamError n _) = n"
| "ParamName (TooManyValuesForParamError n _) = n"
| "ParamName (OtherParamError _ _) = []"

fun Unwrap :: "param_error \<Rightarrow> param_error list" where
  "Unwrap (RequiredHeaderError _ e) = (case e of None \<Rightarrow> [] | Some e' \<Rightarrow> [e'])"
| "Unwrap (InvalidParamFormatError _ e) = (case e of None \<Rightarrow> [] | Some e' \<Rightarrow> [e'])"
| "Unwrap (UnmarshalingParamError _ e) = (case e of None \<Rightarrow> [] | Some e' \<Rightarrow> [e'])"
| "Unwrap (UnescapedCookieParamError _ e) = (case e of None \<Rightarrow> [] | Some e' \<Rightarrow> [e'])"
| "Unwrap (OtherParamError _ es) = es"
| "Unwrap _ = []"

text \<open>The texts; \<open>None\<close> is the panic of \<open>e.Err.Error()\<close> on a nil error.\<close>

fun param_error_text :: "param_error \<Rightarrow> string option" where
  "param_error_text (UnescapedCookieParamError n _) =
     Some (''error unescaping cookie parameter '' @ [CHR 0x27] @ n @ [CHR 0x27])"
| "param_error_text (UnmarshalingParamError n e) =
     (case e of None \<Rightarrow> None
      | Some e' \<Rightarrow> map_option (\<lambda>t. ''Error unmarshaling parameter '' @ n @ '' as JSON: '' @ t) (param_error_text e'))"
| "param_error_text (RequiredParamError n) = Some (''Query argument '' @ n @ '' is required, but not found'')"
| "param_error_text (RequiredHeaderError n _) = Some (''Header parameter '' @ n @ '' is required, but not found'')"
| "param_error_text (InvalidParamFormatError n e) =
     (case e of None \<Rightarrow> None
      | Some e' \<Rightarrow> map_option (\<lambda>t. ''Invalid format for parameter '' @ n @ '': '' @ t) (param_error_text e'))"
| "param_error_text (TooManyValuesForParamError n i) = Some (''Expected one value for '' @ n @ '', got '' @ format_int i)"
| "param_error_text (OtherParamError t _) = Some t"

text \<open>An error and everything it wraps, in the order \<open>errors.AsType\<close> looks at them.\<close>

lemma size_Unwrap: "e' \<in> set (Unwrap e) \<Longrightarrow> size e' < size e"
  by (cases e) (auto split: option.splits intro: le_imp_less_Suc size_list_estimation')

function (sequential) error_tree :: "param_error \<Rightarrow> param_error list" where
  "error_tree e = e # concat (map error_tree (Unwrap e))"
  by pat_completeness auto

termination
  by (relation "measure size") (simp_all add: size_Unwrap)

declare error_tree.simps [simp del]

definition AsType :: "(param_error \<Rightarrow> bool) \<Rightarrow> param_error \<Rightarrow> param_error option" where
  "AsType is_type err = List.find is_type (error_tree err)"

definition paramFieldAndRule :: "param_error \<Rightarrow> string \<times> string" where
  "paramFieldAndRule err =
     (case AsType is_RequiredParamError err of Some e \<Rightarrow> (ParamName e, ''required'') | None \<Rightarrow>
      case AsType is_RequiredHeaderError err of Some e \<Rightarrow> (ParamName e, ''required'') | None \<Rightarrow>
      case AsType is_InvalidParamFormatError err of Some e \<Rightarrow> (ParamName e, ''invalid'') | None \<Rightarrow>
      case AsType is_UnmarshalingParamError err of Some e \<Rightarrow> (ParamName e, ''invalid'') | None \<Rightarrow>
      case AsType is_UnescapedCookieParamError err of Some e \<Rightarrow> (ParamName e, ''invalid'') | None \<Rightarrow>
      case AsType is_TooManyValuesForParamError err of Some e \<Rightarrow> (ParamName e, ''invalid'') | None \<Rightarrow> ([], []))"

definition paramErrorHandler :: "param_error \<Rightarrow> response \<Rightarrow> world \<Rightarrow> response \<times> world" where
  "paramErrorHandler err resp w =
     (let (field, rule) = paramFieldAndRule err;
          w1 = slog Warn ''request parameter rejected'' w
      in if field = [] then (write_reply (Write 400 CodeValidation []) resp, w1)
         else (write_reply (Write 400 CodeValidation [(''field'', field), (''rule'', rule)]) resp, w1))"

text \<open>
  The field that is named is the parameter of an error of the tree, and none is named exactly
  when no error of the tree is one of the six.
\<close>

lemma AsType_Some: "AsType P err = Some e \<Longrightarrow> e \<in> set (error_tree err) \<and> P e"
  by (auto simp: AsType_def find_Some_iff)

lemma AsType_None: "AsType P err = None \<longleftrightarrow> (\<forall>e \<in> set (error_tree err). \<not> P e)"
  by (auto simp: AsType_def find_None_iff)

lemma param_field_from_tree:
  "paramFieldAndRule err = ([], []) \<and> (\<forall>e \<in> set (error_tree err). \<exists>t es. e = OtherParamError t es) \<or>
   (\<exists>e \<in> set (error_tree err). \<exists>rule \<in> {''required'', ''invalid''}. paramFieldAndRule err = (ParamName e, rule))"
proof (cases "\<forall>e \<in> set (error_tree err). \<exists>t es. e = OtherParamError t es")
  case True
  then have "AsType P err = None" if "\<And>t es. \<not> P (OtherParamError t es)" for P
    using that unfolding AsType_None by metis
  then show ?thesis using True by (simp add: paramFieldAndRule_def)
next
  case False
  then obtain e where e: "e \<in> set (error_tree err)" "\<not> (\<exists>t es. e = OtherParamError t es)" by blast
  let ?six = "{is_RequiredParamError, is_RequiredHeaderError, is_InvalidParamFormatError, is_UnmarshalingParamError,
      is_UnescapedCookieParamError, is_TooManyValuesForParamError}"
  have "\<exists>P \<in> ?six. P e" using e(2) by (cases e) simp_all
  then have "\<exists>P \<in> ?six. AsType P err \<noteq> None" using e(1) unfolding AsType_None by blast
  then show ?thesis
    unfolding paramFieldAndRule_def by (auto dest: AsType_Some split: option.splits)
qed

section \<open>The stack\<close>

definition add_cookies :: "cookie list \<Rightarrow> response \<Rightarrow> response" where
  "add_cookies cks resp = (if rs_status resp = 0 then resp\<lparr>rs_cookies := rs_cookies resp @ cks\<rparr> else resp)"

definition request_context :: "handler \<Rightarrow> handler" where
  "request_context next r c resp w = next r (RequestContextMiddleware (http_request.truncate r) c) resp w"

definition session_layer :: "externals \<Rightarrow> Handlers \<Rightarrow> handler \<Rightarrow> handler" where
  "session_layer ext h next r c resp w =
     (let (c', cks, w') = SessionMiddleware ext h (http_request.truncate r) c [] w
      in next r c' (add_cookies cks resp) w')"

definition httpserver_New ::
  "externals \<Rightarrow> Handlers \<Rightarrow> SystemHandlers \<Rightarrow> string \<Rightarrow> (string \<Rightarrow> string option) \<Rightarrow>
   (handler \<Rightarrow> handler) \<Rightarrow> (handler \<Rightarrow> handler) \<Rightarrow> handler \<Rightarrow> handler" where
  "httpserver_New ext h sys basePath url_host timeout mount api =
     requestID (securityHeaders (routeOnDecodedPath (ext_ulow ext) (recoverer (requestLogger
       (optionsRefused (disabledLocalLogin404 basePath (LocalEnabled sys) (maxBodyBytes (2 ^ 20)
         (timeout (crossSiteGuard url_host (request_context (session_layer ext h
           (mount (headAsGet api)))))))))))))"

section \<open>Request ids\<close>

lemma sanitise_loop_eq:
  "length b \<le> 64 \<Longrightarrow> sanitise_loop b s = take 64 (b @ filter id_char s)"
  by (induction b s rule: sanitise_loop.induct) (auto simp: maxRequestIDLength_def take_Cons')

lemma sanitiseRequestID_eq: "sanitiseRequestID s = take 64 (filter id_char s)"
  by (simp add: sanitiseRequestID_def sanitise_loop_eq)

definition good_id :: "string \<Rightarrow> bool" where
  "good_id i \<longleftrightarrow> i \<noteq> [] \<and> length i \<le> 64 \<and> list_all id_char i"

lemma sanitised_good: "sanitiseRequestID s \<noteq> [] \<Longrightarrow> good_id (sanitiseRequestID s)"
  by (auto simp: good_id_def sanitiseRequestID_eq list_all_iff dest: in_set_takeD)

lemma hex_char_id: "n < 16 \<Longrightarrow> id_char (hex_char n)"
  by (auto simp: id_char_def hex_char_def byte_in_def)

lemma hex_EncodeToString_id: "list_all id_char (hex_EncodeToString s)"
  and hex_EncodeToString_length: "length (hex_EncodeToString s) = 2 * length s"
proof -
  have "of_char c div 16 < (16 :: nat)" for c using of_char_lt_256 [of c] by (simp add: less_mult_imp_div_less)
  then show "list_all id_char (hex_EncodeToString s)"
    by (auto simp: hex_EncodeToString_def list_all_iff intro: hex_char_id)
  show "length (hex_EncodeToString s) = 2 * length s"
    by (induction s) (auto simp: hex_EncodeToString_def)
qed

lemma minted_good:
  assumes "newRequestID w = (i, w1)"
  shows "good_id i"
proof -
  obtain b where "i = hex_EncodeToString b" "length b = 8"
    using assms by (auto simp: newRequestID_def split: prod.splits option.splits)
  then show ?thesis
    using hex_EncodeToString_length [of b] by (auto simp: good_id_def hex_EncodeToString_id)
qed

text \<open>
  An honoured request id is harmless and stable: only ASCII letters, digits, dash and
  underscore survive, the first 64 of them in their order, and sanitising an already
  sanitised id changes nothing.
\<close>

theorem request_id_sanitised:
  "sanitiseRequestID s = take 64 (filter id_char s) \<and> list_all id_char (sanitiseRequestID s) \<and>
   length (sanitiseRequestID s) \<le> 64 \<and> sanitiseRequestID (sanitiseRequestID s) = sanitiseRequestID s"
proof -
  have ok: "list_all id_char (sanitiseRequestID s)"
    by (auto simp: sanitiseRequestID_eq list_all_iff dest: in_set_takeD)
  then have "filter id_char (sanitiseRequestID s) = sanitiseRequestID s"
    by (simp add: list_all_iff)
  then have "sanitiseRequestID (sanitiseRequestID s) = sanitiseRequestID s"
    unfolding sanitiseRequestID_eq [of "sanitiseRequestID s"] by (simp add: sanitiseRequestID_eq)
  with ok show ?thesis by (simp add: sanitiseRequestID_eq)
qed

section \<open>What every middleware keeps\<close>

fun response_of :: "outcome \<Rightarrow> response" where
  "response_of (Done resp) = resp"
| "response_of (Panicking resp) = resp"

definition marks :: "string set" where
  "marks = insert requestIDHeader (set (map fst security_header_set))"

definition marked :: "response \<Rightarrow> bool" where
  "marked resp \<longleftrightarrow> (\<forall>(n, v) \<in> set security_header_set. rs_headers resp n = Some v)"

definition keeps_marks :: "handler \<Rightarrow> bool" where
  "keeps_marks f \<longleftrightarrow>
     (\<forall>r c resp w. marked resp \<longrightarrow>
        (\<forall>n \<in> marks. rs_headers (response_of (fst (f r c resp w))) n = rs_headers resp n))"

lemma keeps_marksD:
  "keeps_marks f \<Longrightarrow> marked resp \<Longrightarrow> n \<in> marks \<Longrightarrow>
     rs_headers (response_of (fst (f r c resp w))) n = rs_headers resp n"
  unfolding keeps_marks_def by blast

lemma marked_update [simp]:
  "marked (resp\<lparr>rs_discards := d\<rparr>) = marked resp" "marked (resp\<lparr>rs_cookies := cks\<rparr>) = marked resp"
  by (simp_all add: marked_def)

text \<open>
  The contract between the layers: a middleware around a handler that leaves the request id
  and the fixed headers alone leaves them alone.
\<close>

locale header_keeper =
  fixes mw :: "handler \<Rightarrow> handler"
  assumes keeps: "keeps_marks next \<Longrightarrow> keeps_marks (mw next)"
begin

lemma keeps_header:
  "keeps_marks next \<Longrightarrow> marked resp \<Longrightarrow> n \<in> marks \<Longrightarrow>
     rs_headers (response_of (fst (mw next r c resp w))) n = rs_headers resp n"
  using keeps unfolding keeps_marks_def by blast

end

lemma Content_Type_unmarked: "''Content-Type'' \<notin> marks"
  by (simp add: marks_def security_header_set_def requestIDHeader_def)

lemma WriteHeader_header [simp]: "rs_headers (WriteHeader s resp) = rs_headers resp"
  by (simp add: WriteHeader_def)

lemma write_body_header [simp]: "rs_headers (write_body b resp) = rs_headers resp"
  by (simp add: write_body_def)

lemma write_reply_header: "n \<in> marks \<Longrightarrow> rs_headers (write_reply rp resp) n = rs_headers resp n"
  using Content_Type_unmarked by (auto simp: write_reply_def header_Set_def)

lemma NotFound_header:
  assumes "marked resp" "n \<in> marks"
  shows "rs_headers (NotFound resp) n = rs_headers resp n"
proof -
  have "rs_headers resp ''X-Content-Type-Options'' = Some ''nosniff''"
    using assms(1) by (simp add: marked_def security_header_set_def)
  moreover have "n \<noteq> ''Content-Type''" using assms(2) Content_Type_unmarked by blast
  ultimately show ?thesis by (simp add: NotFound_def header_Set_def)
qed

lemma unwrap_writer_header [simp]: "rs_headers (response_of (unwrap_writer d out)) = rs_headers (response_of out)"
  by (cases out) simp_all

interpretation recoverer: header_keeper recoverer
proof
  show "keeps_marks (recoverer next)" if "keeps_marks next" for "next"
    unfolding keeps_marks_def
  proof (intro allI impI ballI)
    fix r c resp w n
    assume "marked resp" "n \<in> marks"
    then show "rs_headers (response_of (fst (recoverer next r c resp w))) n = rs_headers resp n"
      using keeps_marksD [OF that, of resp n r c w]
      by (cases "next r c resp w"; cases "fst (next r c resp w)") (auto simp: recoverer_def write_reply_header)
  qed
qed

interpretation requestLogger: header_keeper requestLogger
proof
  show "keeps_marks (requestLogger next)" if "keeps_marks next" for "next"
    unfolding keeps_marks_def
  proof (intro allI impI ballI)
    fix r c resp w n
    assume "marked resp" "n \<in> marks"
    then show "rs_headers (response_of (fst (requestLogger next r c resp w))) n = rs_headers resp n"
      using keeps_marksD [OF that, of resp n r c w]
      by (cases "next r c resp w"; cases "fst (next r c resp w)") (auto simp: requestLogger_def)
  qed
qed

interpretation optionsRefused: header_keeper optionsRefused
  by unfold_locales (simp add: keeps_marks_def optionsRefused_def)

interpretation disabledLocalLogin404: header_keeper "disabledLocalLogin404 basePath enabled" for basePath enabled
  by unfold_locales (simp add: keeps_marks_def disabledLocalLogin404_def NotFound_header)

interpretation routeOnDecodedPath: header_keeper "routeOnDecodedPath ulow" for ulow
  by unfold_locales (simp add: keeps_marks_def routeOnDecodedPath_def)

interpretation maxBodyBytes: header_keeper "maxBodyBytes n" for n
  by unfold_locales (simp add: keeps_marks_def maxBodyBytes_def)

interpretation headAsGet: header_keeper headAsGet
  by unfold_locales (simp add: keeps_marks_def headAsGet_def split_beta)

interpretation crossSiteGuard: header_keeper "crossSiteGuard url_host" for url_host
  by unfold_locales (simp add: keeps_marks_def crossSiteGuard_def Let_def write_reply_header split: option.split)

interpretation request_context: header_keeper request_context
  by unfold_locales (simp add: keeps_marks_def request_context_def)

interpretation session_layer: header_keeper "session_layer ext h" for ext h
  by unfold_locales (simp add: keeps_marks_def session_layer_def add_cookies_def split: prod.split)

section \<open>The stack\<close>

definition inner_stack ::
  "externals \<Rightarrow> Handlers \<Rightarrow> SystemHandlers \<Rightarrow> string \<Rightarrow> (string \<Rightarrow> string option) \<Rightarrow>
   (handler \<Rightarrow> handler) \<Rightarrow> (handler \<Rightarrow> handler) \<Rightarrow> handler \<Rightarrow> handler" where
  "inner_stack ext h sys basePath url_host timeout mount api =
     recoverer (requestLogger (optionsRefused (disabledLocalLogin404 basePath (LocalEnabled sys) (maxBodyBytes (2 ^ 20)
       (timeout (crossSiteGuard url_host (request_context (session_layer ext h (mount (headAsGet api))))))))))"

lemma httpserver_New_inner:
  "httpserver_New ext h sys basePath url_host timeout mount api =
     requestID (securityHeaders (routeOnDecodedPath (ext_ulow ext) (inner_stack ext h sys basePath url_host timeout mount api)))"
  by (simp add: httpserver_New_def inner_stack_def)

lemma inner_stack_keeps:
  assumes "header_keeper timeout" "header_keeper mount" "keeps_marks api"
  shows "keeps_marks (inner_stack ext h sys basePath url_host timeout mount api)"
  unfolding inner_stack_def
  by (intro recoverer.keeps requestLogger.keeps optionsRefused.keeps disabledLocalLogin404.keeps maxBodyBytes.keeps
      header_keeper.keeps [OF assms(1)] crossSiteGuard.keeps request_context.keeps session_layer.keeps
      header_keeper.keeps [OF assms(2)] headAsGet.keeps assms(3))

lemma inner_stack_done: "\<exists>resp' w'. inner_stack ext h sys basePath url_host timeout mount api r c resp w = (Done resp', w')"
  unfolding inner_stack_def by (simp add: recoverer_def [of "requestLogger _"] split: prod.split outcome.split)

lemma header_Set_fresh [simp]:
  "rs_status (header_Set n v resp) = rs_status resp" "rs_body (header_Set n v resp) = rs_body resp"
  "rs_cookies (header_Set n v resp) = rs_cookies resp" "rs_discards (header_Set n v resp) = rs_discards resp"
  "rs_status resp = 0 \<Longrightarrow> rs_headers (header_Set n v resp) n = Some v"
  "m \<noteq> n \<Longrightarrow> rs_headers (header_Set n v resp) m = rs_headers resp m"
  by (simp_all add: header_Set_def)

lemma fold_header_Set_other:
  "n \<notin> fst ` set hs \<Longrightarrow> rs_headers (fold (\<lambda>(n, v). header_Set n v) hs resp) n = rs_headers resp n"
  by (induction hs arbitrary: resp) auto

lemma fold_header_Set_in:
  "rs_status resp = 0 \<Longrightarrow> distinct (map fst hs) \<Longrightarrow> (n, v) \<in> set hs \<Longrightarrow>
     rs_headers (fold (\<lambda>(n, v). header_Set n v) hs resp) n = Some v"
proof (induction hs arbitrary: resp)
  case (Cons h hs)
  show ?case
  proof (cases "h = (n, v)")
    case True
    then have "n \<notin> fst ` set hs" using Cons.prems(2) by simp
    then show ?thesis using True Cons.prems(1) fold_header_Set_other [of n hs "header_Set n v resp"] by simp
  next
    case False
    then show ?thesis using Cons by (cases h) auto
  qed
qed simp

text \<open>The stack around a handler that leaves the marks alone: it answers, and the answer is marked.\<close>

lemma stack_answers_marked:
  assumes "header_keeper timeout" "header_keeper mount" "keeps_marks api" "rs_status resp = 0"
  shows "\<exists>resp' w' i. httpserver_New ext h sys basePath url_host timeout mount api r c resp w = (Done resp', w') \<and>
    rs_headers resp' requestIDHeader = Some i \<and> good_id i \<and>
    (\<forall>(n, v) \<in> set security_header_set. rs_headers resp' n = Some v)"
proof -
  let ?in = "inner_stack ext h sys basePath url_host timeout mount api"
  define supplied where "supplied = sanitiseRequestID (header_Get r requestIDHeader)"
  obtain i w1 where iw: "(if supplied = [] then newRequestID w else (supplied, w)) = (i, w1)" by force
  have i: "good_id i"
    using iw sanitised_good minted_good by (auto simp: supplied_def split: if_splits)
  have s: "httpserver_New ext h sys basePath url_host timeout mount api r c resp w =
      securityHeaders (routeOnDecodedPath (ext_ulow ext) ?in) r (c\<lparr>cx_requestID := Some i\<rparr>) (header_Set requestIDHeader i resp) w1"
    using iw by (simp only: httpserver_New_inner requestID_def Let_def prod.case flip: supplied_def)
  let ?resp = "fold (\<lambda>(n, v). header_Set n v) security_header_set (header_Set requestIDHeader i resp)"
  obtain resp' w' where d: "routeOnDecodedPath (ext_ulow ext) ?in r (c\<lparr>cx_requestID := Some i\<rparr>) ?resp w1 = (Done resp', w')"
    using inner_stack_done by (simp add: routeOnDecodedPath_def) metis
  have m: "marked ?resp"
    using assms(4) fold_header_Set_in [of "header_Set requestIDHeader i resp" security_header_set]
    by (auto simp: marked_def security_header_set_def)
  have kept: "rs_headers resp' n = rs_headers ?resp n" if "n \<in> marks" for n
    using routeOnDecodedPath.keeps_header [OF inner_stack_keeps [OF assms(1-3)] m that, of "ext_ulow ext"] d
    by (metis fst_conv response_of.simps(1))
  have "requestIDHeader \<notin> fst ` set security_header_set"
    by (simp add: requestIDHeader_def security_header_set_def)
  then have "rs_headers resp' requestIDHeader = Some i"
    using kept [of requestIDHeader] fold_header_Set_other [of requestIDHeader security_header_set]
    by (simp add: marks_def assms(4))
  moreover have "rs_headers resp' n = Some v" if "(n, v) \<in> set security_header_set" for n v
  proof -
    have "n \<in> marks" using that by (force simp: marks_def)
    then show ?thesis using kept m that by (auto simp: marked_def)
  qed
  ultimately show ?thesis using s d i by (auto simp: securityHeaders_def)
qed

definition empty_response :: response where
  "empty_response = \<lparr>rs_status = 0, rs_headers = (\<lambda>_. None), rs_cookies = [], rs_body = [], rs_discards = False\<rparr>"

definition panicking_api :: handler where
  "panicking_api r c resp w = (Panicking resp, w)"

definition off_system :: SystemHandlers where
  "off_system = \<lparr>sys_version = ''dev'', sys_localEnabled = False, sys_googleEnabled = True\<rparr>"

definition plain_request :: "string \<Rightarrow> string \<Rightarrow> server_request" where
  "plain_request m p = \<lparr>rq_RemoteAddr = ''10.0.0.1:5'', rq_UserAgent = [], rq_Cookies = [], rq_Method = m,
     rq_Path = p, rq_RawPath = [], rq_Host = ''h'', rq_RoutePath = [], rq_Header = [], rq_Body = [], rq_BodyBroken = False, rq_BodyLimit = None\<rparr>"

section \<open>Gates ahead of the routes\<close>

text \<open>The path chi routes on: the raw one when the parser kept it.\<close>

definition routed_path :: "server_request \<Rightarrow> string" where
  "routed_path r = (if rq_RawPath r = [] then rq_Path r else rq_RawPath r)"

definition decoded_request :: "(nat \<Rightarrow> nat) \<Rightarrow> server_request \<Rightarrow> server_request" where
  "decoded_request ulow r =
     (if rq_RawPath r = [] \<or> Contains (ToLower ulow (rq_RawPath r)) ''%2f'' then r else r\<lparr>rq_RawPath := []\<rparr>)"

lemma routeOnDecodedPath_eq:
  "routeOnDecodedPath ulow next r c resp w = next (decoded_request ulow r) c resp w"
  by (simp add: routeOnDecodedPath_def decoded_request_def)

lemma Contains_head: "Contains s (p # ps) \<Longrightarrow> p \<in> set s"
  by (induction s) (auto simp: HasPrefix_def)

lemma login_path_no_slash_escape: "\<not> Contains (ToLower ulow (localLoginPath ''/api'')) ''%2f''"
proof
  assume "Contains (ToLower ulow (localLoginPath ''/api'')) ''%2f''"
  then have "CHR ''%'' \<in> set (ToLower ulow (localLoginPath ''/api''))" by (rule Contains_head)
  then show False by (simp add: localLoginPath_def ToLower_def is_ascii_def lower_byte_id)
qed

text \<open>
  C26. A disabled login cannot be reached under another spelling: with the local provider off,
  any request chi would route to the login operation, however its path was percent-encoded
  and whatever its method, is answered a plain 404 (an empty 405 for OPTIONS) before the
  session is looked up; the database is not touched and the operation never runs.
\<close>

theorem disabled_login_unreachable:
  assumes "\<not> LocalEnabled sys" "rs_status resp = 0" "\<not> rs_discards resp"
    and "routed_path (decoded_request (ext_ulow ext) r) = localLoginPath ''/api''"
  shows "\<exists>resp' w'. httpserver_New ext h sys ''/api'' url_host timeout mount api r c resp w = (Done resp', w') \<and>
    rs_status resp' = (if rq_Method r = ''OPTIONS'' then 405 else 404) \<and>
    rs_body resp' = rs_body resp @ (if rq_Method r = ''OPTIONS'' then [] else ''404 page not found'' @ [LF]) \<and> rs_cookies resp' = rs_cookies resp \<and> w_db w' = w_db w"
proof -
  let ?d = "decoded_request (ext_ulow ext) r"
  have path: "rq_Path ?d = localLoginPath ''/api''" "rq_Method ?d = rq_Method r"
    using assms(4) login_path_no_slash_escape [of "ext_ulow ext"]
    by (auto simp: decoded_request_def routed_path_def split: if_splits)
  obtain i w1 where iw: "(if sanitiseRequestID (header_Get r requestIDHeader) = [] then newRequestID w
      else (sanitiseRequestID (header_Get r requestIDHeader), w)) = (i, w1)" by force
  have db: "w_db w1 = w_db w"
    using iw by (auto simp: newRequestID_def rand_Read_def split: if_splits list.splits option.splits)
  let ?resp = "fold (\<lambda>(n, v). header_Set n v) security_header_set (header_Set requestIDHeader i resp)"
  have "httpserver_New ext h sys ''/api'' url_host timeout mount api r c resp w =
      inner_stack ext h sys ''/api'' url_host timeout mount api ?d (c\<lparr>cx_requestID := Some i\<rparr>) ?resp w1"
    using iw by (simp only: httpserver_New_inner requestID_def Let_def prod.case securityHeaders_def routeOnDecodedPath_eq)
  moreover have "rs_status ?resp = 0" "rs_body ?resp = rs_body resp" "rs_cookies ?resp = rs_cookies resp" "\<not> rs_discards ?resp"
    using assms(2,3) by (simp_all add: security_header_set_def)
  ultimately show ?thesis
    using assms(1) path db
    by (simp add: inner_stack_def recoverer_def requestLogger_def optionsRefused_def disabledLocalLogin404_def
        NotFound_def WriteHeader_def write_body_def)
qed

theorem disabled_login_unreachable_witness:
  "\<exists>resp' w'. httpserver_New toy_ext month_handlers off_system ''/api'' (\<lambda>_. None) (\<lambda>f. f) (\<lambda>f. f) panicking_api
      (plain_request ''POST'' ''/api/auth/local/login''\<lparr>rq_RawPath := ''/api/auth/local/%6Cogin''\<rparr>)
      Background empty_response member_world = (Done resp', w') \<and>
    rs_status resp' = 404 \<and> w_db w' = member_db"
proof -
  let ?r = "plain_request ''POST'' ''/api/auth/local/login''\<lparr>rq_RawPath := ''/api/auth/local/%6Cogin''\<rparr>"
  have "map lower_byte ''/api/auth/local/%6Cogin'' = ''/api/auth/local/%6cogin''"
    by (simp add: lower_byte_def ascii_lower_def byte_of_def char_of_eq)
  then have "routed_path (decoded_request (ext_ulow toy_ext) ?r) = localLoginPath ''/api''"
    by (simp add: routed_path_def decoded_request_def plain_request_def localLoginPath_def ToLower_def
        is_ascii_def HasPrefix_def)
  moreover have "\<not> LocalEnabled off_system" "rs_status empty_response = 0" "\<not> rs_discards empty_response"
    by (simp_all add: LocalEnabled_def off_system_def empty_response_def)
  ultimately have "\<exists>resp' w'. httpserver_New toy_ext month_handlers off_system ''/api'' (\<lambda>_. None) (\<lambda>f. f) (\<lambda>f. f) panicking_api
      ?r Background empty_response member_world = (Done resp', w') \<and>
      rs_status resp' = (if rq_Method ?r = ''OPTIONS'' then 405 else 404) \<and>
      rs_body resp' = rs_body empty_response @ (if rq_Method ?r = ''OPTIONS'' then [] else ''404 page not found'' @ [LF]) \<and>
      rs_cookies resp' = rs_cookies empty_response \<and>
      w_db w' = w_db member_world"
    by (intro disabled_login_unreachable)
  then show ?thesis by (auto simp: plain_request_def)
qed

text \<open>
  A cross-site write stops at the guard: an unsafe request whose browser names another
  site, or whose Origin names another host where the browser names none, is answered 403
  with the world as it was, so no session is looked up or refreshed for it; every other
  request passes unchanged.
\<close>

theorem cross_site_requests_blocked:
  "crossSiteGuard url_host next r c resp w =
     (if \<not> isSafeMethod (rq_Method r) \<and>
         (if header_Get r ''Sec-Fetch-Site'' \<noteq> []
          then header_Get r ''Sec-Fetch-Site'' \<notin> {''same-origin'', ''none''}
          else header_Get r ''Origin'' \<noteq> [] \<and> url_host (header_Get r ''Origin'') \<noteq> Some (rq_Host r))
      then (Done (write_reply (Write 403 CodeCrossSiteRequestBlocked []) resp), w)
      else next r c resp w)"
  by (auto simp: crossSiteGuard_def Let_def split: option.split)

end
