(* ===== verification/OpenApiValidate.thy ===== *)
theory OpenApiValidate
  imports HttpServer "HOL-Library.List_Lexorder" "HOL-Library.Product_Lexorder"
begin

text \<open>
  Request validation (\<open>backend/internal/httpserver/openapi_validate.go\<close>): what counts as an
  email address, the canonical media type, and how the errors of the validating library
  (kin-openapi) become one answer. The library itself is outside; its error trees are a
  datatype with the cases the code tells apart.
\<close>

section \<open>Email addresses\<close>

definition is_alnum :: "char \<Rightarrow> bool" where
  "is_alnum c \<longleftrightarrow> byte_in 97 122 c \<or> byte_in 65 90 c \<or> byte_in 48 57 c"

text \<open>The local part's other characters; the last but three is the grave accent.\<close>

definition local_punct :: string where
  "local_punct = ''.!#$%&'' @ [CHR 0x27] @ ''*+/=?^_'' @ [CHR 0x60] @ ''{|}~-''"

definition local_char :: "char \<Rightarrow> bool" where
  "local_char c \<longleftrightarrow> is_alnum c \<or> c \<in> set local_punct"

text \<open>\<open>[a-zA-Z0-9](?:[a-zA-Z0-9-]{0,61}[a-zA-Z0-9])?\<close>\<close>

definition domain_label :: "string \<Rightarrow> bool" where
  "domain_label l \<longleftrightarrow> l \<noteq> [] \<and> length l \<le> 63 \<and> is_alnum (hd l) \<and> is_alnum (last l) \<and>
     list_all (\<lambda>c. is_alnum c \<or> c = CHR ''-'') l"

text \<open>
  \<open>emailAddress\<close>: no class of the expression has the at sign or, after it, the dot, so the
  match is the split at them.
\<close>

definition emailAddress :: "string \<Rightarrow> bool" where
  "emailAddress s =
     (case Cut s (CHR ''@'') of
        (local_part, domain, True) \<Rightarrow>
          local_part \<noteq> [] \<and> list_all local_char local_part \<and>
          list_all domain_label (Split domain (CHR ''.''))
      | _ \<Rightarrow> False)"

definition isEmailAddress :: "string \<Rightarrow> bool" where
  "isEmailAddress v = emailAddress (TrimSpace v)"

section \<open>The media type\<close>

text \<open>\<open>strings.Map\<close>: a rune at a time, an invalid byte becoming U+FFFD.\<close>

definition strings_Map :: "(nat \<Rightarrow> nat) \<Rightarrow> string \<Rightarrow> string" where
  "strings_Map f s = string_of_runes (map f (go_runes s))"

definition canonicalMediaType :: "string \<Rightarrow> string" where
  "canonicalMediaType contentType =
     (if contentType = [] then []
      else case Cut contentType (CHR '';'') of
        (mediaType, params, hasParams) \<Rightarrow>
          let canonical = strings_Map ascii_lower (Trim_ascii mediaType [SP, HTAB])
          in if hasParams then canonical @ '';'' @ params else canonical)"

section \<open>The errors of the validating library\<close>

text \<open>
  \<open>RequestError parameter body err text\<close>: the name of the parameter it is about, whether it is
  about the body, what it wraps, and its message. \<open>SchemaError pointer field format origin\<close>:
  where, which keyword, the schema's format, and what it wraps. \<open>OtherError\<close> is any error of
  another type, e.g. one of parsing or of reading the body, with what it wraps.
\<close>

datatype oapi_error =
    MultiError "oapi_error list"
  | RequestError "string option" bool "oapi_error option" string
  | SchemaError "string list" string "string option" "oapi_error option"
  | SecurityRequirementsError string
  | ErrInvalidRequired string
  | OtherError "oapi_error option" string

text \<open>\<open>errors.As\<close> and \<open>errors.Is\<close>: the first error of the tree with the property, outside in.\<close>

fun first_some :: "'a option list \<Rightarrow> 'a option" where
  "first_some [] = None"
| "first_some (Some x # _) = Some x"
| "first_some (None # xs) = first_some xs"

fun errors_As :: "(oapi_error \<Rightarrow> bool) \<Rightarrow> oapi_error \<Rightarrow> oapi_error option" where
  "errors_As p (MultiError es) = first_some (map (errors_As p) es)"
| "errors_As p (RequestError parameter body err text) =
     (if p (RequestError parameter body err text) then Some (RequestError parameter body err text)
      else case err of None \<Rightarrow> None | Some e \<Rightarrow> errors_As p e)"
| "errors_As p (SchemaError pointer field format origin) =
     (if p (SchemaError pointer field format origin) then Some (SchemaError pointer field format origin)
      else case origin of None \<Rightarrow> None | Some e \<Rightarrow> errors_As p e)"
| "errors_As p (OtherError err text) =
     (if p (OtherError err text) then Some (OtherError err text)
      else case err of None \<Rightarrow> None | Some e \<Rightarrow> errors_As p e)"
| "errors_As p e = (if p e then Some e else None)"

fun is_SchemaError :: "oapi_error \<Rightarrow> bool" where
  "is_SchemaError (SchemaError _ _ _ _) = True"
| "is_SchemaError _ = False"

fun is_ErrInvalidRequired :: "oapi_error \<Rightarrow> bool" where
  "is_ErrInvalidRequired (ErrInvalidRequired _) = True"
| "is_ErrInvalidRequired _ = False"

fun is_SecurityRequirementsError :: "oapi_error \<Rightarrow> bool" where
  "is_SecurityRequirementsError (SecurityRequirementsError _) = True"
| "is_SecurityRequirementsError _ = False"

record failure =
  f_field :: string
  f_rule :: string
  f_undecodable :: string

abbreviation undecodable :: "string \<Rightarrow> failure" where
  "undecodable reason \<equiv> \<lparr>f_field = [], f_rule = [], f_undecodable = reason\<rparr>"

definition constraintRule :: "string \<Rightarrow> string option \<Rightarrow> string" where
  "constraintRule schemaField format =
     (if schemaField = ''required'' then ''required''
      else if schemaField \<in> {''minLength'', ''minimum'', ''exclusiveMinimum'', ''minItems'', ''minProperties''} then ''min''
      else if schemaField \<in> {''maxLength'', ''maximum'', ''exclusiveMaximum'', ''maxItems'', ''maxProperties''} then ''max''
      else if schemaField = ''pattern'' then ''pattern''
      else if schemaField = ''format'' \<and> format = Some ''email'' then ''email''
      else [])"

definition parameterRule :: "oapi_error option \<Rightarrow> string" where
  "parameterRule err =
     (case err of
        None \<Rightarrow> ''invalid''
      | Some e \<Rightarrow>
        if errors_As is_ErrInvalidRequired e \<noteq> None then ''required''
        else case errors_As is_SchemaError e of
          Some (SchemaError pointer field format origin) \<Rightarrow>
            if constraintRule field format \<noteq> [] then constraintRule field format else ''invalid''
        | _ \<Rightarrow> ''invalid'')"

text \<open>The failures each collector appends, in its order.\<close>

fun collectParameterFailures :: "string \<Rightarrow> oapi_error option \<Rightarrow> failure list" where
  "collectParameterFailures name (Some (MultiError es)) =
     concat (map (\<lambda>e. collectParameterFailures name (Some e)) es)"
| "collectParameterFailures name err =
     [\<lparr>f_field = name, f_rule = parameterRule err, f_undecodable = []\<rparr>]"

fun collectBodyFailures :: "oapi_error \<Rightarrow> failure list" where
  "collectBodyFailures (MultiError es) = concat (map collectBodyFailures es)"
| "collectBodyFailures (SchemaError pointer field format origin) =
     (if constraintRule field format \<noteq> [] \<and> pointer \<noteq> []
      then [\<lparr>f_field = Join pointer ''.'', f_rule = constraintRule field format, f_undecodable = []\<rparr>]
      else [undecodable (field @ '' at /'' @ Join pointer ''/'')])"
| "collectBodyFailures (RequestError _ _ _ text) = [undecodable text]"
| "collectBodyFailures (SecurityRequirementsError text) = [undecodable text]"
| "collectBodyFailures (ErrInvalidRequired text) = [undecodable text]"
| "collectBodyFailures (OtherError _ text) = [undecodable text]"

text \<open>Collecting stops at the first leaf that is no verdict on the request: the fault.\<close>

fun until_fault :: "(oapi_error option \<times> failure list) list \<Rightarrow> oapi_error option \<times> failure list" where
  "until_fault [] = (None, [])"
| "until_fault ((Some fault, found) # _) = (Some fault, found)"
| "until_fault ((None, found) # rest) = (case until_fault rest of (fault, rest_found) \<Rightarrow> (fault, found @ rest_found))"

fun collectFailures :: "oapi_error \<Rightarrow> oapi_error option \<times> failure list" where
  "collectFailures (MultiError es) = until_fault (map collectFailures es)"
| "collectFailures (RequestError parameter body err text) =
     (case parameter of
        Some name \<Rightarrow> (None, collectParameterFailures name err)
      | None \<Rightarrow>
        (case (body, err) of
           (True, Some e) \<Rightarrow> (None, collectBodyFailures e)
         | _ \<Rightarrow> (None, [undecodable text])))"
| "collectFailures err = (Some err, [])"

definition has_security :: "oapi_error \<Rightarrow> bool" where
  "has_security err \<longleftrightarrow> errors_As is_SecurityRequirementsError err \<noteq> None"

section \<open>The answer\<close>

definition failure_key :: "failure \<Rightarrow> string \<times> string" where
  "failure_key f = (f_field f, f_rule f)"

text \<open>\<open>slices.MinFunc\<close>: the first of the least.\<close>

definition min_failure :: "failure \<Rightarrow> failure list \<Rightarrow> failure" where
  "min_failure f fs = foldl (\<lambda>m g. if failure_key g < failure_key m then g else m) f fs"

definition writeOpenAPIValidationError :: "oapi_error \<Rightarrow> reply" where
  "writeOpenAPIValidationError err =
     (if has_security err then Write 401 CodeUnauthorized []
      else case collectFailures err of
        (Some fault, _) \<Rightarrow> Write 500 CodeInternal []
      | (None, []) \<Rightarrow> Write 500 CodeInternal []
      | (None, f # fs) \<Rightarrow>
          if list_ex (\<lambda>g. f_undecodable g \<noteq> []) (f # fs) then Write 400 CodeInvalidJSONBody []
          else let first = min_failure f fs
               in Write 400 CodeValidation [(''field'', f_field first), (''rule'', f_rule first)])"

section \<open>The least failure\<close>

lemma min_failure_least:
  "min_failure f fs \<in> set (f # fs) \<and> (\<forall>g \<in> set (f # fs). failure_key (min_failure f fs) \<le> failure_key g)"
proof (induction fs arbitrary: f)
  case Nil
  then show ?case by (simp add: min_failure_def)
next
  case (Cons h fs)
  let ?m = "if failure_key h < failure_key f then h else f"
  have "min_failure f (h # fs) = min_failure ?m fs" by (simp add: min_failure_def)
  with Cons [of ?m] show ?case by (auto split: if_splits)
qed

text \<open>
  C27. The reported failure does not depend on the order of the checks: a body that decodes is
  answered with its least failure by field and then rule, so two error trees with the same
  failures in any order and any nesting get the same answer; and one failure to decode
  anywhere outweighs them all.
\<close>

theorem validation_answer_least:
  assumes "\<not> has_security err" "collectFailures err = (None, found)" "found \<noteq> []"
    and "\<not> has_security err'" "collectFailures err' = (None, found')" "set found' = set found"
  shows "writeOpenAPIValidationError err' = writeOpenAPIValidationError err \<and>
    (if \<exists>g \<in> set found. f_undecodable g \<noteq> []
     then writeOpenAPIValidationError err = Write 400 CodeInvalidJSONBody []
     else \<exists>f \<in> set found. (\<forall>g \<in> set found. failure_key f \<le> failure_key g) \<and>
       writeOpenAPIValidationError err =
         Write 400 CodeValidation [(''field'', f_field f), (''rule'', f_rule f)])"
proof -
  have answer: "writeOpenAPIValidationError e =
      (if \<exists>g \<in> set found. f_undecodable g \<noteq> [] then Write 400 CodeInvalidJSONBody []
       else let m = Min (failure_key ` set found) in Write 400 CodeValidation [(''field'', fst m), (''rule'', snd m)])"
    if e: "\<not> has_security e" "collectFailures e = (None, fl)" "set fl = set found" for e fl
  proof -
    obtain f fs where fl: "fl = f # fs" using e(3) assms(3) by (cases fl) auto
    have "failure_key (min_failure f fs) = Min (failure_key ` set found)"
      using min_failure_least [of f fs] unfolding e(3) [symmetric] fl by (intro Min_eqI [symmetric]) auto
    then have "f_field (min_failure f fs) = fst (Min (failure_key ` set found))"
      "f_rule (min_failure f fs) = snd (Min (failure_key ` set found))"
      by (metis failure_key_def fst_conv snd_conv)+
    moreover have "list_ex (\<lambda>g. f_undecodable g \<noteq> []) (f # fs) \<longleftrightarrow> (\<exists>g \<in> set found. f_undecodable g \<noteq> [])"
      unfolding e(3) [symmetric] fl by (rule list_ex_iff)
    ultimately show ?thesis using e fl by (simp add: writeOpenAPIValidationError_def)
  qed
  have "Min (failure_key ` set found) \<in> failure_key ` set found" using assms(3) by (intro Min_in) auto
  then obtain f where f: "f \<in> set found" "failure_key f = Min (failure_key ` set found)" by force
  then have "\<forall>g \<in> set found. failure_key f \<le> failure_key g" by simp
  moreover have "f_field f = fst (Min (failure_key ` set found))" "f_rule f = snd (Min (failure_key ` set found))"
    using f(2) by (metis failure_key_def fst_conv snd_conv)+
  ultimately show ?thesis
    using answer [OF assms(1,2) refl] answer [OF assms(4-6)] f(1) by (auto simp: Let_def)
qed

definition two_failures :: "oapi_error list" where
  "two_failures = [SchemaError [''password''] ''required'' None None,
     SchemaError [''email''] ''format'' (Some ''email'') None]"

theorem validation_answer_least_witness:
  "writeOpenAPIValidationError (RequestError None True (Some (MultiError (rev two_failures))) ''t'') =
     writeOpenAPIValidationError (RequestError None True (Some (MultiError two_failures)) ''t'')"
proof -
  let ?e = "RequestError None True (Some (MultiError two_failures)) ''t''"
  let ?e' = "RequestError None True (Some (MultiError (rev two_failures))) ''t''"
  let ?fl = "[\<lparr>f_field = ''password'', f_rule = ''required'', f_undecodable = []\<rparr>,
      \<lparr>f_field = ''email'', f_rule = ''email'', f_undecodable = []\<rparr>]"
  have "\<not> has_security ?e" "collectFailures ?e = (None, ?fl)" "?fl \<noteq> []"
    "\<not> has_security ?e'" "collectFailures ?e' = (None, rev ?fl)" "set (rev ?fl) = set ?fl"
    by (auto simp: two_failures_def constraintRule_def has_security_def)
  from validation_answer_least [OF this] show ?thesis by (rule conjunct1)
qed

section \<open>An accepted address can be looked up\<close>

lemma in_Split: "x \<in> set s \<Longrightarrow> x = sep \<or> (\<exists>w \<in> set (Split s sep). x \<in> set w)"
proof (induction s)
  case (Cons c s)
  obtain w ws where "Split s sep = w # ws" by (cases "Split s sep") (use Split_nonempty in auto)
  then show ?case using Cons by auto
qed simp

definition printable :: "char \<Rightarrow> bool" where
  "printable c \<longleftrightarrow> 32 < (of_char c :: nat) \<and> of_char c < (0x7F :: nat)"

lemma is_alnum_printable: "is_alnum c \<Longrightarrow> printable c"
  by (auto simp: is_alnum_def printable_def byte_in_def)

lemma local_char_printable: "local_char c \<Longrightarrow> printable c"
  using is_alnum_printable by (auto simp: local_char_def local_punct_def printable_def)

lemma domain_label_printable:
  assumes "domain_label l" "x \<in> set l"
  shows "printable x"
proof -
  have "is_alnum x \<or> x = CHR ''-''" using assms by (simp add: domain_label_def list_all_iff)
  moreover have "printable (CHR ''-'')" by (simp add: printable_def)
  ultimately show ?thesis using is_alnum_printable by blast
qed

lemma emailAddress_printable:
  assumes "emailAddress s"
  shows "list_all printable s"
proof -
  obtain l d where c: "Cut s (CHR ''@'') = (l, d, True)" "list_all local_char l"
    "list_all domain_label (Split d (CHR ''.''))"
    using assms by (auto simp: emailAddress_def split: prod.splits bool.splits)
  have s: "s = l @ CHR ''@'' # d" using Cut_join [OF c(1)] by simp
  have "printable x" if "x \<in> set d" for x
  proof -
    have "x = CHR ''.'' \<or> (\<exists>lb \<in> set (Split d (CHR ''.'')). x \<in> set lb)"
      using that by (rule in_Split)
    then show ?thesis
    proof
      assume "x = CHR ''.''"
      then show ?thesis by (simp add: printable_def)
    next
      assume "\<exists>lb \<in> set (Split d (CHR ''.'')). x \<in> set lb"
      then show ?thesis using c(3) domain_label_printable by (auto simp: list_all_iff)
    qed
  qed
  moreover have "printable (CHR ''@'')" by (simp add: printable_def)
  moreover have "\<forall>x \<in> set l. printable x" using c(2) local_char_printable unfolding list_all_iff by blast
  ultimately show ?thesis unfolding s list_all_iff by auto
qed

lemma printable_text:
  assumes "list_all printable s"
  shows "is_ascii s" "pg_text s"
proof -
  show a: "is_ascii s" using assms by (auto simp: is_ascii_def list_all_iff printable_def)
  have "CHR 0x00 \<notin> set s" using assms by (auto simp: list_all_iff printable_def)
  with a show "pg_text s" by (simp add: pg_text_def ValidString_ascii)
qed

lemma printable_lower: "list_all printable s \<Longrightarrow> list_all printable (map lower_byte s)"
  by (auto simp: list_all_iff printable_def of_char_lower_byte ascii_lower_def)

text \<open>
  Validation and login agree on addresses: one the contract accepts, padding included, is
  looked up as its trimmed ASCII lower case, and both that and its backoff key are text the
  database takes. No accepted address can fail a statement by its encoding.
\<close>

theorem accepted_email_is_storable:
  assumes "isEmailAddress v"
  shows "normalizeEmail ext v = map lower_byte (TrimSpace v) \<and> pg_text (normalizeEmail ext v) \<and>
    pg_text (''email:'' @ normalizeEmail ext v) \<and> TrimSpace (TrimSpace v) = TrimSpace v"
proof -
  let ?t = "TrimSpace v"
  have p: "list_all printable ?t" using assms emailAddress_printable by (simp add: isEmailAddress_def)
  have n: "normalizeEmail ext v = map lower_byte ?t"
    by (simp add: normalizeEmail_def ToLower_ascii printable_text(1) [OF p])
  have l: "list_all printable (map lower_byte ?t)" by (rule printable_lower [OF p])
  have "list_all printable (''email:'' @ map lower_byte ?t)" using l by (simp add: printable_def)
  note k = printable_text(2) [OF this]
  have "\<not> IsSpace (of_char c)" if "c \<in> set ?t" for c
    using p that by (intro not_IsSpace) (auto simp: list_all_iff printable_def)
  then have "trim_both (\<lambda>c. IsSpace (of_char c)) ?t = ?t"
    by (intro trim_both_id) (auto simp: hd_in_set last_in_set)
  then have "TrimSpace ?t = ?t" by (simp add: TrimSpace_ascii printable_text(1) [OF p])
  with n l k show ?thesis by (simp add: printable_text(2))
qed

theorem accepted_email_is_storable_witness:
  "normalizeEmail toy_ext '' A@b.c '' = ''a@b.c'' \<and> pg_text (''email:'' @ normalizeEmail toy_ext '' A@b.c '')"
proof -
  have t: "TrimSpace '' A@b.c '' = ''A@b.c''"
    by (simp add: TrimSpace_ascii is_ascii_def trim_both_def IsSpace_def)
  then have e: "isEmailAddress '' A@b.c ''"
    by (simp add: isEmailAddress_def emailAddress_def local_char_def is_alnum_def byte_in_def domain_label_def)
  have "lower_byte (CHR ''A'') = CHR ''a''"
    by (simp add: lower_byte_def ascii_lower_def byte_of_def char_of_eq)
  then have "map lower_byte (TrimSpace '' A@b.c '') = ''a@b.c''" by (simp add: t lower_byte_id)
  with accepted_email_is_storable [OF e, of toy_ext] show ?thesis by metis
qed

end
