(* ===== verification/Api.thy ===== *)
theory Api
  imports OpenApiValidate Me Json_Grammar
begin

text \<open>
  The server generated from the contract (\<open>backend/internal/api/api.gen.go\<close>), the delegation to
  the handlers (\<open>httpserver/server.go\<close>) and the validating middleware ahead of each operation
  (\<open>httpserver/openapi_validate.go\<close>).

  The validating library is the parameter \<open>verdict\<close>, its verdict on a request; chi's router
  is the parameter \<open>chi\<close>, which serves a table of routes.
\<close>

section \<open>Enumerations\<close>

definition ErrorCode_Valid :: "string \<Rightarrow> bool" where
  "ErrorCode_Valid e \<longleftrightarrow> e \<in> {''CROSS_SITE_REQUEST_BLOCKED'', ''INTERNAL'', ''INVALID_CREDENTIALS'',
     ''INVALID_JSON_BODY'', ''TOO_MANY_ATTEMPTS'', ''UNAUTHORIZED'', ''VALIDATION''}"

definition HealthStatus_Valid :: "string \<Rightarrow> bool" where
  "HealthStatus_Valid e \<longleftrightarrow> e \<in> {''degraded'', ''ok''}"

definition Locale_Valid :: "string \<Rightarrow> bool" where
  "Locale_Valid e \<longleftrightarrow> e \<in> {''en-GB'', ''id-ID''}"

definition MeAllowanceMode_Valid :: "string \<Rightarrow> bool" where
  "MeAllowanceMode_Valid e \<longleftrightarrow> e \<in> {''adaptive'', ''flat''}"

section \<open>The types and their JSON\<close>

definition AuthMethods_json :: "bool \<Rightarrow> bool \<Rightarrow> json" where
  "AuthMethods_json local google = JObject [(''google'', JBool google), (''local'', JBool local)]"

text \<open>\<open>Error\<close>, whose arguments no handler sets.\<close>

definition Error_json :: "string \<Rightarrow> json" where
  "Error_json code = JObject [(''code'', JString code)]"

definition Health_json :: "string \<Rightarrow> string \<Rightarrow> json" where
  "Health_json status version = JObject [(''status'', JString status), (''version'', JString version)]"

definition Me_json :: "Me \<Rightarrow> json" where
  "Me_json me = JObject (
     [(''allowance_mode'', JString (me_AllowanceMode me)), (''day_starts_at'', JString (me_DayStartsAt me)),
      (''display_name'', JString (me_DisplayName me)), (''email'', JString (me_Email me))] @
     (case me_ExpectedMonthlyIncome me of None \<Rightarrow> []
      | Some income \<Rightarrow> [(''expected_monthly_income'', JString income)]) @
     [(''household_display_name'', JString (me_HouseholdDisplayName me)),
      (''household_id'', JString (me_HouseholdId me)), (''id'', JString (me_Id me)),
      (''locale'', JString (me_Locale me)), (''period_start_day'', JNumber (format_int (me_PeriodStartDay me))),
      (''reporting_currency'', JString (me_ReportingCurrency me)), (''time_zone'', JString (me_TimeZone me))])"

record LocalLoginRequest =
  llr_Email :: string
  llr_Password :: string

section \<open>Writing a response\<close>

definition write_json :: "nat \<Rightarrow> json \<Rightarrow> response \<Rightarrow> response" where
  "write_json status v resp =
     write_body (Encode v) (WriteHeader status (header_Set ''Content-Type'' ''application/json'' resp))"

text \<open>\<open>w.Header().Set("Set-Cookie", ...)\<close>: the one cookie line from here on.\<close>

definition header_Set_cookie :: "cookie \<Rightarrow> response \<Rightarrow> response" where
  "header_Set_cookie ck resp = (if rs_status resp = 0 then resp\<lparr>rs_cookies := [ck]\<rparr> else resp)"

definition VisitLocalLoginResponse :: "login_response \<Rightarrow> response \<Rightarrow> outcome" where
  "VisitLocalLoginResponse response resp =
     (case response of
        LocalLogin204 ck \<Rightarrow> Done (WriteHeader 204 (header_Set_cookie ck resp))
      | LocalLogin400 code \<Rightarrow> Done (write_json 400 (Error_json code) resp)
      | LocalLogin401 code \<Rightarrow> Done (write_json 401 (Error_json code) resp)
      | LocalLogin429 code retryAfter \<Rightarrow>
          Done (write_body (Encode (Error_json code))
            (WriteHeader 429 (header_Set ''Retry-After'' (format_int retryAfter)
              (header_Set ''Content-Type'' ''application/json'' resp))))
      | LocalLogin500 code \<Rightarrow> Done (write_json 500 (Error_json code) resp)
      | LoginPanic \<Rightarrow> Panicking resp)"

definition VisitLogoutResponse :: "logout_response \<Rightarrow> response \<Rightarrow> response" where
  "VisitLogoutResponse response resp =
     (case response of
        Logout204 ck \<Rightarrow> WriteHeader 204 (header_Set_cookie ck resp)
      | Logout500 code \<Rightarrow> write_json 500 (Error_json code) resp)"

definition VisitGetAuthMethodsResponse :: "bool \<times> bool \<Rightarrow> response \<Rightarrow> response" where
  "VisitGetAuthMethodsResponse response resp =
     (case response of (local, google) \<Rightarrow> write_json 200 (AuthMethods_json local google) resp)"

definition VisitGetHealthResponse :: "health_response \<Rightarrow> response \<Rightarrow> response" where
  "VisitGetHealthResponse response resp =
     (case response of
        GetHealth200 version \<Rightarrow> write_json 200 (Health_json ''ok'' version) resp
      | GetHealth503 version \<Rightarrow> write_json 503 (Health_json ''degraded'' version) resp)"

definition VisitGetMeResponse :: "me_response \<Rightarrow> response \<Rightarrow> response" where
  "VisitGetMeResponse response resp =
     (case response of
        GetMe200 me \<Rightarrow> write_json 200 (Me_json me) resp
      | GetMe401 code \<Rightarrow> write_json 401 (Error_json code) resp
      | GetMe500 code \<Rightarrow> write_json 500 (Error_json code) resp)"

section \<open>Decoding the login body\<close>

text \<open>
  What is left of the body under \<open>http.MaxBytesReader\<close>, and whether reading it ends in an error
  rather than at its end.
\<close>

definition readable_body :: "server_request \<Rightarrow> string" where
  "readable_body r = (case rq_BodyLimit r of None \<Rightarrow> rq_Body r | Some n \<Rightarrow> take (nat n) (rq_Body r))"

definition body_cut :: "server_request \<Rightarrow> bool" where
  "body_cut r \<longleftrightarrow> rq_BodyBroken r \<or> readable_body r \<noteq> rq_Body r"

text \<open>
  A stream that ends in an error gives the values that had ended before it: an object or an
  array ends with its bracket, any other value with the byte after it.
\<close>

fun self_delimiting :: "json \<Rightarrow> bool" where
  "self_delimiting (JArray _) = True"
| "self_delimiting (JObject _) = True"
| "self_delimiting _ = False"

definition decode_stream :: "server_request \<Rightarrow> json option" where
  "decode_stream r =
     (case json_Decode (readable_body r) of
        Inl _ \<Rightarrow> None
      | Inr (v, rest) \<Rightarrow> if body_cut r \<and> rest = [] \<and> \<not> self_delimiting v then None else Some v)"

text \<open>
  A member goes to the field whose name it equals under simple case folding; beyond ASCII
  only the long s and the Kelvin sign fold to a letter of these names.
\<close>

definition fold_rune :: "nat \<Rightarrow> nat" where
  "fold_rune r = (if r = 0x17F then 0x73 else if r = 0x212A then 0x6B else ascii_lower r)"

definition names_field :: "string \<Rightarrow> string \<Rightarrow> bool" where
  "names_field key name \<longleftrightarrow> map fold_rune (go_runes key) = map of_char name"

text \<open>
  The members in turn, a later one replacing an earlier; a null leaves the field, a value
  that is no string is an error, reported once all are read (\<open>None\<close>).
\<close>

fun unmarshal_members :: "LocalLoginRequest option \<Rightarrow> (string \<times> json) list \<Rightarrow> LocalLoginRequest option" where
  "unmarshal_members acc [] = acc"
| "unmarshal_members acc ((k, v) # ms) =
     unmarshal_members
       (if names_field k ''email'' then
          (case v of JString s \<Rightarrow> map_option (llr_Email_update (\<lambda>_. s)) acc | JNull \<Rightarrow> acc | _ \<Rightarrow> None)
        else if names_field k ''password'' then
          (case v of JString s \<Rightarrow> map_option (llr_Password_update (\<lambda>_. s)) acc | JNull \<Rightarrow> acc | _ \<Rightarrow> None)
        else acc) ms"

definition unmarshal_login :: "json \<Rightarrow> LocalLoginRequest option" where
  "unmarshal_login v =
     (case v of
        JObject ms \<Rightarrow> unmarshal_members (Some \<lparr>llr_Email = [], llr_Password = []\<rparr>) ms
      | JNull \<Rightarrow> Some \<lparr>llr_Email = [], llr_Password = []\<rparr>
      | _ \<Rightarrow> None)"

section \<open>The server behind the routes\<close>

text \<open>\<open>Server\<close>: the handlers it delegates to, with what they are called on.\<close>

record Server =
  srv_ext :: externals
  srv_auth :: Handlers
  srv_system :: SystemHandlers
  srv_dummyHash :: string
  srv_fixed4 :: "rat \<Rightarrow> string"

definition strict_LocalLogin :: "Server \<Rightarrow> handler" where
  "strict_LocalLogin srv r c resp w =
     (case Option.bind (decode_stream r) unmarshal_login of
        None \<Rightarrow> (case requestErrorHandler resp w of (resp', w') \<Rightarrow> (Done resp', w'))
      | Some body \<Rightarrow>
        (case LocalLogin (srv_ext srv) (srv_auth srv) (srv_dummyHash srv) c (llr_Email body) (llr_Password body) w of
           (response, w') \<Rightarrow> (VisitLocalLoginResponse response resp, w')))"

definition strict_Logout :: "Server \<Rightarrow> handler" where
  "strict_Logout srv r c resp w =
     (case Logout (srv_ext srv) (srv_auth srv) c w of
        (response, w') \<Rightarrow> (Done (VisitLogoutResponse response resp), w'))"

definition strict_GetAuthMethods :: "Server \<Rightarrow> handler" where
  "strict_GetAuthMethods srv r c resp w =
     (Done (VisitGetAuthMethodsResponse (GetAuthMethods (srv_system srv)) resp), w)"

definition strict_GetHealth :: "Server \<Rightarrow> handler" where
  "strict_GetHealth srv r c resp w =
     (case GetHealth (srv_system srv) c w of
        (response, w') \<Rightarrow> (Done (VisitGetHealthResponse response resp), w'))"

definition strict_GetMe :: "Server \<Rightarrow> handler" where
  "strict_GetMe srv r c resp w =
     (case GetMe (srv_fixed4 srv) c w of
        (response, w') \<Rightarrow> (Done (VisitGetMeResponse response resp), w'))"

text \<open>\<open>ServerInterfaceWrapper\<close>: the last middleware is the outermost.\<close>

definition wrap_operation :: "(handler \<Rightarrow> handler) list \<Rightarrow> handler \<Rightarrow> handler" where
  "wrap_operation middlewares h = foldl (\<lambda>handler middleware. middleware handler) h middlewares"

type_synonym route = "string \<times> string \<times> handler"

definition HandlerWithOptions :: "(handler \<Rightarrow> handler) list \<Rightarrow> string \<Rightarrow> Server \<Rightarrow> route list" where
  "HandlerWithOptions middlewares baseURL srv =
     [(''GET'', baseURL @ ''/health'', wrap_operation middlewares (strict_GetHealth srv)),
      (''GET'', baseURL @ ''/auth/methods'', wrap_operation middlewares (strict_GetAuthMethods srv)),
      (''POST'', baseURL @ ''/auth/local/login'', wrap_operation middlewares (strict_LocalLogin srv)),
      (''POST'', baseURL @ ''/auth/logout'', wrap_operation middlewares (strict_Logout srv)),
      (''GET'', baseURL @ ''/me'', wrap_operation middlewares (strict_GetMe srv))]"

text \<open>The two constructors without middlewares, and the operations of a server that has none.\<close>

definition Handler :: "Server \<Rightarrow> route list" where
  "Handler srv = HandlerWithOptions [] [] srv"

definition HandlerFromMuxWithBaseURL :: "Server \<Rightarrow> string \<Rightarrow> route list" where
  "HandlerFromMuxWithBaseURL srv baseURL = HandlerWithOptions [] baseURL srv"

definition Unimplemented :: handler where
  "Unimplemented r c resp w = (Done (WriteHeader 501 resp), w)"

section \<open>The validating middleware\<close>

datatype parse_error = ReadFailed | NotUTF8 | MalformedAt nat | DecodeFailed json_error | DataAfterValue

text \<open>The body as \<open>io.ReadAll\<close> returns it, \<open>None\<close> for an error.\<close>

definition strictJSONBodyDecoder :: "string option \<Rightarrow> parse_error + json" where
  "strictJSONBodyDecoder body =
     (case body of
        None \<Rightarrow> Inl ReadFailed
      | Some data \<Rightarrow>
        if \<not> ValidString data then Inl NotUTF8
        else case json_Decode data of
          Inl (SyntaxError offset) \<Rightarrow> Inl (MalformedAt offset)
        | Inl e \<Rightarrow> Inl (DecodeFailed e)
        | Inr (v, rest) \<Rightarrow> if list_all json_space rest then Inr v else Inl DataAfterValue)"

definition read_all :: "server_request \<Rightarrow> string option" where
  "read_all r = (if body_cut r then None else Some (rq_Body r))"

definition request_header_Set :: "string \<Rightarrow> string \<Rightarrow> server_request \<Rightarrow> server_request" where
  "request_header_Set name v r = r\<lparr>rq_Header := (name, v) # filter (\<lambda>(n, _). n \<noteq> name) (rq_Header r)\<rparr>"

definition canonical_request :: "server_request \<Rightarrow> server_request" where
  "canonical_request r =
     (if header_Get r ''Content-Type'' = [] then r
      else request_header_Set ''Content-Type'' (canonicalMediaType (header_Get r ''Content-Type'')) r)"

text \<open>What \<open>writeOpenAPIValidationError\<close> logs.\<close>

definition validation_log :: "oapi_error \<Rightarrow> world \<Rightarrow> world" where
  "validation_log err w =
     (if has_security err then slog Warn ''openapi validator: unexpected security failure'' w
      else case collectFailures err of
        (Some fault, _) \<Rightarrow> slog Error ''openapi validator: request not validated'' w
      | (None, []) \<Rightarrow> slog Error ''openapi validator: request not validated'' w
      | (None, fs) \<Rightarrow>
          if list_ex (\<lambda>g. f_undecodable g \<noteq> []) fs then slog Warn ''request body rejected by contract'' w else w)"

text \<open>The contract as the validator holds it: the security requirements of the whole and of each operation.\<close>

record contract =
  spec_Security :: "string list option"
  spec_Paths :: "(string \<times> (string \<times> string list option) list) list"

definition withoutSecurityRequirements :: "contract \<Rightarrow> contract" where
  "withoutSecurityRequirements spec =
     spec\<lparr>spec_Security := None,
       spec_Paths := map (\<lambda>(p, ops). (p, map (\<lambda>(m, _). (m, None)) ops)) (spec_Paths spec)\<rparr>"

lemma withoutSecurityRequirements_none:
  "spec_Security (withoutSecurityRequirements spec) = None"
  "(p, ops) \<in> set (spec_Paths (withoutSecurityRequirements spec)) \<Longrightarrow> (m, sec) \<in> set ops \<Longrightarrow> sec = None"
  "map (\<lambda>(p, ops). (p, map fst ops)) (spec_Paths (withoutSecurityRequirements spec)) = map (\<lambda>(p, ops). (p, map fst ops)) (spec_Paths spec)"
  by (auto simp: withoutSecurityRequirements_def)

definition openapiRequestValidator :: "(server_request \<Rightarrow> oapi_error option) \<Rightarrow> handler \<Rightarrow> handler" where
  "openapiRequestValidator verdict next r c resp w =
     (let r' = canonical_request r
      in case verdict r' of
           None \<Rightarrow> next r' c resp w
         | Some err \<Rightarrow> (Done (write_reply (writeOpenAPIValidationError err) resp), validation_log err w))"

section \<open>The whole server\<close>

definition afloat_handler ::
  "Server \<Rightarrow> string \<Rightarrow> (string \<Rightarrow> string option) \<Rightarrow> (handler \<Rightarrow> handler) \<Rightarrow> (handler \<Rightarrow> handler) \<Rightarrow>
   (route list \<Rightarrow> handler) \<Rightarrow> (server_request \<Rightarrow> oapi_error option) \<Rightarrow> handler" where
  "afloat_handler srv basePath url_host timeout mount chi verdict =
     httpserver_New (srv_ext srv) (srv_auth srv) (srv_system srv) basePath url_host timeout mount
       (chi (HandlerWithOptions [openapiRequestValidator verdict] [] srv))"

section \<open>Bodies\<close>

text \<open>
  C29. The body decoder accepts exactly the JSON documents, whatever the bytes: it returns a value if
  and only if the body is valid UTF-8 and, by the grammar of JSON, one text of that value between
  white space, nested within the decoder's limit. Anything else, a second document behind the
  first included, is refused, and bytes that are not UTF-8 are refused as such.
\<close>

theorem strict_decoder_exact:
  "(strictJSONBodyDecoder (Some data) = Inr v \<longleftrightarrow> ValidString data \<and> json_document v data) \<and>
   (strictJSONBodyDecoder (Some data) = Inl NotUTF8 \<longleftrightarrow> \<not> ValidString data)"
proof
  show "strictJSONBodyDecoder (Some data) = Inr v \<longleftrightarrow> ValidString data \<and> json_document v data"
    unfolding json_Decode_document [symmetric]
    by (auto simp: strictJSONBodyDecoder_def spaces_def split: sum.splits json_error.splits if_splits)
  show "strictJSONBodyDecoder (Some data) = Inl NotUTF8 \<longleftrightarrow> \<not> ValidString data"
    by (simp add: strictJSONBodyDecoder_def split: sum.split json_error.split)
qed

definition login_json :: "string \<Rightarrow> string \<Rightarrow> json" where
  "login_json email password = JObject [(''email'', JString email), (''password'', JString password)]"

lemma login_json_wf:
  "ValidString email \<Longrightarrow> ValidString password \<Longrightarrow> json_wf (login_json email password)"
  "json_depth (login_json email password) \<le> maxNestingDepth"
  by (simp_all add: login_json_def ValidString_ascii is_ascii_def maxNestingDepth_def)

lemma names_field_ascii: "is_ascii key \<Longrightarrow> names_field key name = (map (\<lambda>c. fold_rune (of_char c)) key = map of_char name)"
  by (simp add: names_field_def go_runes_def utf8_segs_ascii comp_def)

lemma unmarshal_login_json: "unmarshal_login (login_json email password) = Some \<lparr>llr_Email = email, llr_Password = password\<rparr>"
  by (simp add: unmarshal_login_def login_json_def names_field_ascii is_ascii_def fold_rune_def ascii_lower_def)

lemma login_decoded:
  assumes "ValidString email" "ValidString password" "readable_body r = Encode (login_json email password)" "\<not> body_cut r"
  shows "Option.bind (decode_stream r) unmarshal_login = Some \<lparr>llr_Email = email, llr_Password = password\<rparr>"
proof -
  have "json_Decode (readable_body r) = Inr (login_json email password, [LF])"
    using json_roundtrip [OF login_json_wf(1) [OF assms(1,2)] login_json_wf(2), of "[LF]"] assms(3)
    by (simp add: Encode_def ends_value_separator)
  then show ?thesis using assms(4) by (simp add: decode_stream_def unmarshal_login_json)
qed

lemma readable_within: "length (rq_Body r) \<le> n \<Longrightarrow> rq_BodyLimit r = Some (int n) \<Longrightarrow> readable_body r = rq_Body r"
  by (simp add: readable_body_def)

text \<open>
  C30. The login body reaches the handler unchanged: an address and a password of valid text,
  encoded as JSON within the body limit and sent whole, are decoded to exactly these two.
\<close>

theorem login_body_roundtrip:
  assumes "ValidString email" "ValidString password" "rq_Body r = Encode (login_json email password)"
    and "\<not> rq_BodyBroken r" "rq_BodyLimit r = Some (int n)" "length (rq_Body r) \<le> n"
  shows "Option.bind (decode_stream r) unmarshal_login = Some \<lparr>llr_Email = email, llr_Password = password\<rparr>"
  using assms readable_within [OF assms(6,5)] by (intro login_decoded) (simp_all add: body_cut_def)

definition login_http_request :: "string \<Rightarrow> string \<Rightarrow> server_request" where
  "login_http_request email password = (plain_request ''POST'' ''/api/auth/local/login'')
     \<lparr>rq_RemoteAddr := [], rq_Header := [(requestIDHeader, ''r1''), (''Sec-Fetch-Site'', ''same-origin'')],
      rq_Body := Encode (login_json email password)\<rparr>"

lemma login_json_length: "length (Encode (login_json ''a@b.c'' ''right'')) = 37" "length (Encode (login_json ''a@b.c'' ''wrong'')) = 37"
  by (simp_all add: Encode_def login_json_def json_string_def utf8_tail_def escape_seg_def escape_rune_def
      encode_valid_def)

theorem login_body_roundtrip_witness:
  "Option.bind (decode_stream ((login_http_request ''a@b.c'' ''right'')\<lparr>rq_BodyLimit := Some (2 ^ 20)\<rparr>)) unmarshal_login =
     Some \<lparr>llr_Email = ''a@b.c'', llr_Password = ''right''\<rparr>"
  by (rule login_body_roundtrip [where n = "2 ^ 20"])
    (simp_all add: login_http_request_def plain_request_def ValidString_ascii is_ascii_def login_json_length)

end
