(* ===== verification/Wire.thy ===== *)
theory Wire
  imports Api
begin

text \<open>
  The composed server on the wire: the way of a request through the whole stack to its
  operation and back (\<open>httpserver/server.go\<close>, \<open>middleware.go\<close>, \<open>api/api.gen.go\<close>), and what the
  operations' guarantees become there.
\<close>

section \<open>What chi promises\<close>

text \<open>
  \<open>middleware.Timeout\<close>: the handler runs under a deadline, and when it has passed by the time
  the handler is done, a 504 is sent unless a status was.
\<close>

definition late :: "ctx \<Rightarrow> world \<Rightarrow> response \<Rightarrow> response" where
  "late c w resp = (if ctx_Err (w_clock w) c = Some DeadlineExceeded then WriteHeader 504 resp else resp)"

fun map_response :: "(response \<Rightarrow> response) \<Rightarrow> outcome \<Rightarrow> outcome" where
  "map_response f (Done resp) = Done (f resp)"
| "map_response f (Panicking resp) = Panicking (f resp)"

definition times_out :: "int \<Rightarrow> (handler \<Rightarrow> handler) \<Rightarrow> bool" where
  "times_out d timeout \<longleftrightarrow> (\<forall>next r c resp w.
     timeout next r c resp w =
       (let c' = WithTimeout (w_clock w) d c; (out, w') = next r c' resp w
        in (map_response (late c' w') out, w')))"

text \<open>\<open>Mount\<close>: below its base path the handler sees the rest of the path.\<close>

definition mounts :: "string \<Rightarrow> (handler \<Rightarrow> handler) \<Rightarrow> bool" where
  "mounts base mount \<longleftrightarrow> (\<forall>f r c resp w p. routed_path r = base @ CHR ''/'' # p \<longrightarrow>
     mount f r c resp w = f (r\<lparr>rq_RoutePath := CHR ''/'' # p\<rparr>) c resp w)"

text \<open>A router serves a route of static patterns whose method and pattern are the request's.\<close>

definition static_routes :: "route list \<Rightarrow> bool" where
  "static_routes table \<longleftrightarrow> distinct (map (\<lambda>(m, p, h). (m, p)) table) \<and>
     list_all (\<lambda>(m, p, h). \<not> ContainsAny p ''{}*'') table"

definition chi_serves :: "(route list \<Rightarrow> handler) \<Rightarrow> bool" where
  "chi_serves chi \<longleftrightarrow> (\<forall>table r c resp w h. static_routes table \<longrightarrow>
     (rq_Method r, rq_RoutePath r, h) \<in> set table \<longrightarrow> chi table r c resp w = h r c resp w)"

text \<open>
  What chi does for any request: it serves one of the routes, or it answers itself with \<open>http.NotFound\<close>
  or with a 405 that names the methods; below a mount likewise.
\<close>

definition answers_itself :: "outcome \<times> world \<Rightarrow> response \<Rightarrow> world \<Rightarrow> bool" where
  "answers_itself res resp w \<longleftrightarrow>
     res = (Done (NotFound resp), w) \<or> (\<exists>allow. res = (Done (WriteHeader 405 (header_Set ''Allow'' allow resp)), w))"

definition chi_answers :: "(route list \<Rightarrow> handler) \<Rightarrow> bool" where
  "chi_answers chi \<longleftrightarrow> (\<forall>table r c resp w.
     (\<exists>(m, p, h) \<in> set table. chi table r c resp w = h r c resp w) \<or> answers_itself (chi table r c resp w) resp w)"

definition mount_answers :: "(handler \<Rightarrow> handler) \<Rightarrow> bool" where
  "mount_answers mount \<longleftrightarrow> (\<forall>f r c resp w.
     (\<exists>p. mount f r c resp w = f (r\<lparr>rq_RoutePath := p\<rparr>) c resp w) \<or> answers_itself (mount f r c resp w) resp w)"

section \<open>To an operation and back\<close>

definition assigned_id :: "server_request \<Rightarrow> world \<Rightarrow> string \<times> world" where
  "assigned_id r w =
     (let supplied = sanitiseRequestID (header_Get r requestIDHeader)
      in if supplied = [] then newRequestID w else (supplied, w))"

definition marked_response :: "string \<Rightarrow> response \<Rightarrow> response" where
  "marked_response i resp = fold (\<lambda>(n, v). header_Set n v) security_header_set (header_Set requestIDHeader i resp)"

definition guard_passes :: "(string \<Rightarrow> string option) \<Rightarrow> server_request \<Rightarrow> bool" where
  "guard_passes url_host r \<longleftrightarrow> isSafeMethod (rq_Method r) \<or>
     (if header_Get r ''Sec-Fetch-Site'' \<noteq> []
      then header_Get r ''Sec-Fetch-Site'' \<in> {''same-origin'', ''none''}
      else header_Get r ''Origin'' = [] \<or> url_host (header_Get r ''Origin'') = Some (rq_Host r))"

definition depart :: "ctx \<Rightarrow> outcome \<times> world \<Rightarrow> outcome \<times> world" where
  "depart c res =
     (case res of
        (Done resp, w) \<Rightarrow> (Done (late c w resp), slog Info ''request'' w)
      | (Panicking resp, w) \<Rightarrow> (Done (write_reply (Write 500 CodeInternal []) (late c w resp)), slog Error ''panic recovered'' w))"

text \<open>The request, context, response and world an operation is called with.\<close>

definition operation_request :: "externals \<Rightarrow> string \<Rightarrow> server_request \<Rightarrow> server_request" where
  "operation_request ext p r = (decoded_request (ext_ulow ext) r)\<lparr>rq_BodyLimit := Some (2 ^ 20), rq_RoutePath := p\<rparr>"

definition arrive :: "Server \<Rightarrow> int \<Rightarrow> server_request \<Rightarrow> ctx \<Rightarrow> response \<Rightarrow> world \<Rightarrow> ctx \<times> ctx \<times> response \<times> world" where
  "arrive srv d r c resp w =
     (let (i, w1) = assigned_id r w;
          c1 = WithTimeout (w_clock w1) d (c\<lparr>cx_requestID := Some i\<rparr>);
          rq = http_request.truncate r;
          (c2, cks, w2) = SessionMiddleware (srv_ext srv) (srv_auth srv) rq (RequestContextMiddleware rq c1) [] w1
      in (c1, c2, add_cookies cks (marked_response i resp), w2))"

definition api_table :: "(server_request \<Rightarrow> oapi_error option) \<Rightarrow> Server \<Rightarrow> route list" where
  "api_table verdict srv = HandlerWithOptions [openapiRequestValidator verdict] [] srv"

lemma api_table_eq:
  "api_table verdict srv =
     [(''GET'', ''/health'', openapiRequestValidator verdict (strict_GetHealth srv)),
      (''GET'', ''/auth/methods'', openapiRequestValidator verdict (strict_GetAuthMethods srv)),
      (''POST'', ''/auth/local/login'', openapiRequestValidator verdict (strict_LocalLogin srv)),
      (''POST'', ''/auth/logout'', openapiRequestValidator verdict (strict_Logout srv)),
      (''GET'', ''/me'', openapiRequestValidator verdict (strict_GetMe srv))]"
  by (simp add: api_table_def HandlerWithOptions_def wrap_operation_def)

lemma api_table_static: "static_routes (api_table verdict srv)"
  by (simp add: api_table_eq static_routes_def ContainsAny_def)

lemma decoded_request_same [simp]:
  "rq_Method (decoded_request ulow r) = rq_Method r" "http_request.truncate (decoded_request ulow r) = http_request.truncate r"
  "header_Get (decoded_request ulow r) n = header_Get r n" "rq_Host (decoded_request ulow r) = rq_Host r"
  by (simp_all add: decoded_request_def header_Get_def http_request.truncate_def)

lemma request_update [simp]:
  "http_request.truncate (r\<lparr>rq_BodyLimit := l\<rparr>) = http_request.truncate r"
  "header_Get (r\<lparr>rq_BodyLimit := l\<rparr>) n = header_Get r n"
  by (simp_all add: http_request.truncate_def header_Get_def)

lemma crossSiteGuard_passes:
  "guard_passes url_host r \<Longrightarrow> crossSiteGuard url_host next r c resp w = next r c resp w"
  by (auto simp: crossSiteGuard_def guard_passes_def Let_def split: if_splits)

lemma serve_operation:
  assumes laws: "times_out d timeout" "mounts ''/api'' mount" "chi_serves chi"
    and route: "routed_path (decoded_request (ext_ulow (srv_ext srv)) r) = ''/api'' @ p"
      "(rq_Method r, p, operation) \<in> set (api_table verdict srv)"
    and enabled: "LocalEnabled (srv_system srv) \<or> rq_Path (decoded_request (ext_ulow (srv_ext srv)) r) \<noteq> localLoginPath ''/api''"
    and guard: "guard_passes url_host r"
  shows "afloat_handler srv ''/api'' url_host timeout mount chi verdict r c resp w =
    (let (c1, c2, resp2, w2) = arrive srv d r c resp w
     in depart c1 (operation (operation_request (srv_ext srv) p r) c2 resp2 w2))"
proof -
  let ?r = "decoded_request (ext_ulow (srv_ext srv)) r" and ?table = "api_table verdict srv"
  obtain p' where p: "p = CHR ''/'' # p'" using route(2) by (auto simp: api_table_eq)
  have m: "rq_Method r \<noteq> ''OPTIONS''" "rq_Method r \<noteq> ''HEAD''" using route(2) by (auto simp: api_table_eq)
  obtain i w1 where iw: "assigned_id r w = (i, w1)" by force
  let ?c0 = "c\<lparr>cx_requestID := Some i\<rparr>" and ?resp = "marked_response i resp"
  let ?c1 = "WithTimeout (w_clock w1) d ?c0" and ?rq = "http_request.truncate r"
  obtain c2 cks w2 where s: "SessionMiddleware (srv_ext srv) (srv_auth srv) ?rq (RequestContextMiddleware ?rq ?c1) [] w1 = (c2, cks, w2)"
    using prod_cases3 by blast
  define final where "final = operation_request (srv_ext srv) p r"
  obtain out w3 where o: "operation final c2 (add_cookies cks ?resp) w2 = (out, w3)" by force
  have "headAsGet (chi ?table) final c2 (add_cookies cks ?resp) w2 = (out, w3)"
    using laws(3) api_table_static [of verdict srv] route(2) m(2) o
    by (simp add: headAsGet_def chi_serves_def final_def operation_request_def)
  moreover have "routed_path (?r\<lparr>rq_BodyLimit := Some (2 ^ 20)\<rparr>) = ''/api'' @ CHR ''/'' # p'"
    using route(1) p by (simp add: routed_path_def split: if_splits)
  ultimately have "mount (headAsGet (chi ?table)) (?r\<lparr>rq_BodyLimit := Some (2 ^ 20)\<rparr>) c2 (add_cookies cks ?resp) w2 = (out, w3)"
    using laws(2) p by (simp add: mounts_def final_def operation_request_def)
  then have "session_layer (srv_ext srv) (srv_auth srv) (mount (headAsGet (chi ?table))) (?r\<lparr>rq_BodyLimit := Some (2 ^ 20)\<rparr>)
      (RequestContextMiddleware ?rq ?c1) ?resp w1 = (out, w3)"
    by (simp add: session_layer_def s)
  moreover have "guard_passes url_host (?r\<lparr>rq_BodyLimit := Some (2 ^ 20)\<rparr>)"
    using guard by (auto simp: guard_passes_def split: if_splits)
  ultimately have "timeout (crossSiteGuard url_host (request_context (session_layer (srv_ext srv) (srv_auth srv) (mount (headAsGet (chi ?table))))))
      (?r\<lparr>rq_BodyLimit := Some (2 ^ 20)\<rparr>) ?c0 ?resp w1 = (map_response (late ?c1 w3) out, w3)"
    using laws(1) by (simp add: times_out_def crossSiteGuard_passes request_context_def Let_def)
  then have "inner_stack (srv_ext srv) (srv_auth srv) (srv_system srv) ''/api'' url_host timeout mount (chi ?table) ?r ?c0 ?resp w1 =
      depart ?c1 (out, w3)"
    using m(1) enabled
    by (cases out) (auto simp: inner_stack_def recoverer_def requestLogger_def optionsRefused_def
        disabledLocalLogin404_def maxBodyBytes_def depart_def)
  moreover have "afloat_handler srv ''/api'' url_host timeout mount chi verdict r c resp w =
      inner_stack (srv_ext srv) (srv_auth srv) (srv_system srv) ''/api'' url_host timeout mount (chi ?table) ?r ?c0 ?resp w1"
    using iw by (simp add: afloat_handler_def httpserver_New_inner requestID_def assigned_id_def Let_def
        securityHeaders_def routeOnDecodedPath_eq marked_response_def api_table_def)
  ultimately show ?thesis using o by (simp add: arrive_def iw s final_def)
qed

section \<open>Every response is marked\<close>

lemma answers_itself_marks:
  assumes "answers_itself res resp w" "marked resp" "n \<in> marks"
  shows "rs_headers (response_of (fst res)) n = rs_headers resp n"
proof -
  have "n \<noteq> ''Allow''" using assms(3) by (auto simp: marks_def security_header_set_def requestIDHeader_def)
  then show ?thesis using assms by (auto simp: answers_itself_def NotFound_header)
qed

lemma times_out_keeps: "times_out d timeout \<Longrightarrow> header_keeper timeout"
proof
  fix "next" assume t: "times_out d timeout" and k: "keeps_marks next"
  have "rs_headers (response_of (map_response (late c w) out)) = rs_headers (response_of out)" for c w out
    by (cases out) (simp_all add: late_def)
  then show "keeps_marks (timeout next)"
    using t k unfolding keeps_marks_def times_out_def by (simp add: Let_def split: prod.split) (metis fst_conv)
qed

lemma mount_answers_keeps:
  assumes "mount_answers mount"
  shows "header_keeper mount"
proof
  show "keeps_marks (mount next)" if "keeps_marks next" for "next"
    unfolding keeps_marks_def
  proof (intro allI impI ballI)
    fix r c resp w n assume "marked resp" "n \<in> marks"
    then show "rs_headers (response_of (fst (mount next r c resp w))) n = rs_headers resp n"
      using assms [unfolded mount_answers_def, rule_format, of "next" r c resp w] keeps_marksD [OF that] answers_itself_marks
      by metis
  qed
qed

lemma chi_answers_keeps:
  assumes "chi_answers chi" "\<forall>(m, p, h) \<in> set table. keeps_marks h"
  shows "keeps_marks (chi table)"
  unfolding keeps_marks_def
proof (intro allI impI ballI)
  fix r c resp w n assume m: "marked resp" "n \<in> marks"
  consider m p h where "(m, p, h) \<in> set table" "chi table r c resp w = h r c resp w"
    | "answers_itself (chi table r c resp w) resp w"
    using assms(1) [unfolded chi_answers_def, rule_format, of table r c resp w] by blast
  then show "rs_headers (response_of (fst (chi table r c resp w))) n = rs_headers resp n"
  proof cases
    case (1 m' p h)
    then have "keeps_marks h" using assms(2) by blast
    from keeps_marksD [OF this m] show ?thesis by (simp only: 1(2))
  qed (rule answers_itself_marks [OF _ m])
qed

lemma write_json_header: "n \<in> marks \<Longrightarrow> rs_headers (write_json st v resp) n = rs_headers resp n"
  using Content_Type_unmarked by (cases "n = ''Content-Type''") (simp_all add: write_json_def)

lemma visit_header:
  assumes "n \<in> marks"
  shows "rs_headers (response_of (VisitLocalLoginResponse lr resp)) n = rs_headers resp n"
    "rs_headers (VisitLogoutResponse lo resp) n = rs_headers resp n"
    "rs_headers (VisitGetAuthMethodsResponse am resp) n = rs_headers resp n"
    "rs_headers (VisitGetHealthResponse hr resp) n = rs_headers resp n"
    "rs_headers (VisitGetMeResponse mr resp) n = rs_headers resp n"
proof -
  have n: "n \<noteq> ''Content-Type''" "n \<noteq> ''Retry-After''"
    using assms by (auto simp: marks_def security_header_set_def requestIDHeader_def)
  show "rs_headers (response_of (VisitLocalLoginResponse lr resp)) n = rs_headers resp n"
    using n write_json_header [OF assms] by (cases lr) (simp_all add: VisitLocalLoginResponse_def header_Set_cookie_def)
  show "rs_headers (VisitLogoutResponse lo resp) n = rs_headers resp n"
    using write_json_header [OF assms] by (cases lo) (simp_all add: VisitLogoutResponse_def header_Set_cookie_def)
  show "rs_headers (VisitGetAuthMethodsResponse am resp) n = rs_headers resp n"
    using write_json_header [OF assms] by (cases am) (simp add: VisitGetAuthMethodsResponse_def)
  show "rs_headers (VisitGetHealthResponse hr resp) n = rs_headers resp n"
    using write_json_header [OF assms] by (cases hr) (simp_all add: VisitGetHealthResponse_def)
  show "rs_headers (VisitGetMeResponse mr resp) n = rs_headers resp n"
    using write_json_header [OF assms] by (cases mr) (simp_all add: VisitGetMeResponse_def)
qed

text \<open>No operation touches the marks, nor does the validator ahead of it.\<close>

lemma operations_keep_marks:
  "keeps_marks (strict_LocalLogin srv)" "keeps_marks (strict_Logout srv)" "keeps_marks (strict_GetAuthMethods srv)"
  "keeps_marks (strict_GetHealth srv)" "keeps_marks (strict_GetMe srv)"
  unfolding keeps_marks_def
  by (auto simp: strict_LocalLogin_def strict_Logout_def strict_GetAuthMethods_def strict_GetHealth_def strict_GetMe_def
      requestErrorHandler_def visit_header write_reply_header split: prod.split option.split)

lemma validator_keeps_marks: "keeps_marks next \<Longrightarrow> keeps_marks (openapiRequestValidator verdict next)"
  unfolding keeps_marks_def
  by (auto simp: openapiRequestValidator_def Let_def write_reply_header split: option.split)

text \<open>
  C25. Every response of the server is marked: whatever the request, whatever the operation, the
  validator or a middleware answers, a recovered panic, a timeout and chi's own 404 and 405 included,
  the server answers, and the answer carries a well-formed request id and the six fixed headers.
\<close>

theorem every_response_marked:
  assumes "times_out d timeout" "mount_answers mount" "chi_answers chi" "rs_status resp = 0"
  shows "\<exists>resp' w' i. afloat_handler srv basePath url_host timeout mount chi verdict r c resp w = (Done resp', w') \<and>
    rs_headers resp' requestIDHeader = Some i \<and> good_id i \<and>
    (\<forall>(n, v) \<in> set security_header_set. rs_headers resp' n = Some v)"
proof -
  have "keeps_marks (chi (api_table verdict srv))"
    by (rule chi_answers_keeps [OF assms(3)])
      (simp add: api_table_eq operations_keep_marks validator_keeps_marks)
  then show ?thesis
    unfolding afloat_handler_def api_table_def [symmetric]
    by (intro stack_answers_marked times_out_keeps [OF assms(1)] mount_answers_keeps [OF assms(2)] assms(4))
qed

section \<open>Every answer is one the contract declares\<close>

lemma LocalLogin_responses:
  assumes "LocalLogin ext h dh c rawEmail password w = (response, w')"
  shows "(\<exists>ck. response = LocalLogin204 ck) \<or> response = LocalLogin401 CodeInvalidCredentials \<or>
    (\<exists>n. response = LocalLogin429 CodeTooManyAttempts n) \<or> response = LocalLogin500 CodeInternal"
  using assms
proof (cases rule: LocalLogin_cases)
  case (refused w1 c1 w2)
  from refused(1) show ?thesis by (cases rule: throttled_Some) (simp_all add: login_internalError_def)
next
  case (panicked phc)
  then show ?thesis using never_panics by simp
next
  case (right w1 c1 w2)
  from right(1) show ?thesis by (cases rule: finishLogin_cases) (simp_all add: login_internalError_def)
qed (simp_all add: login_internalError_def invalidCredentials_def)

definition fresh :: "response \<Rightarrow> bool" where
  "fresh resp \<longleftrightarrow> rs_status resp = 0 \<and> \<not> rs_discards resp"

lemma write_json_fresh:
  assumes "fresh resp"
  shows "rs_status (write_json n v resp) = n" "rs_body (write_json n v resp) = rs_body resp @ Encode v"
    "rs_headers (write_json n v resp) ''Content-Type'' = Some ''application/json''"
    "rs_cookies (write_json n v resp) = rs_cookies resp"
  using assms by (simp_all add: fresh_def write_json_def write_body_def WriteHeader_def)

text \<open>What the contract declares of an answer: its status among those of the operation, and an error's envelope.\<close>

definition declared :: "nat set \<Rightarrow> nat set \<Rightarrow> response \<Rightarrow> response \<Rightarrow> bool" where
  "declared good bad resp resp' \<longleftrightarrow> rs_status resp' \<in> good \<or>
     rs_status resp' \<in> bad \<and> rs_headers resp' ''Content-Type'' = Some ''application/json'' \<and>
     (\<exists>code. ErrorCode_Valid code \<and> rs_body resp' = rs_body resp @ Encode (Error_json code))"

lemma declared_error:
  assumes "fresh resp" "n \<in> bad" "ErrorCode_Valid code"
  shows "declared good bad resp (write_json n (Error_json code) resp)"
  using assms by (auto simp: declared_def write_json_fresh)

lemma declared_good:
  assumes "fresh resp"
  shows "n \<in> good \<Longrightarrow> declared good bad resp (write_json n v resp)"
    "declared {204} bad resp (WriteHeader 204 (header_Set_cookie ck resp))"
  using assms by (simp_all add: declared_def write_json_fresh)
    (simp add: fresh_def WriteHeader_def header_Set_cookie_def)

lemma codes_valid:
  "ErrorCode_Valid CodeInternal" "ErrorCode_Valid CodeInvalidCredentials" "ErrorCode_Valid CodeTooManyAttempts"
  "ErrorCode_Valid CodeUnauthorized" "ErrorCode_Valid CodeInvalidJSONBody" "ErrorCode_Valid CodeValidation"
  "ErrorCode_Valid CodeCrossSiteRequestBlocked"
  by (simp_all add: ErrorCode_Valid_def code_defs)

lemma requestErrorHandler_declared:
  assumes "fresh resp"
  shows "declared good {400, 401, 429, 500} resp (fst (requestErrorHandler resp w))"
proof -
  have "envelope_json (rp_envelope (Write 400 CodeInvalidJSONBody [])) = Error_json CodeInvalidJSONBody"
    by (simp add: Write_def envelope_json_def Error_json_def)
  then have "fst (requestErrorHandler resp w) = write_json 400 (Error_json CodeInvalidJSONBody) resp"
    by (simp add: requestErrorHandler_def write_reply_def write_json_def) (simp add: Write_def)
  then show ?thesis using declared_error [OF assms] codes_valid by simp
qed

text \<open>
  C14. Every operation answers within the contract: whatever the body, the context and the state
  of the database, none panics, and each answer has a status the contract declares for the
  operation and, when it is an error, a JSON envelope with a code of the closed set.
\<close>

theorem operations_answer_in_contract:
  assumes "fresh resp"
  shows "(\<exists>resp' w'. strict_LocalLogin srv r c resp w = (Done resp', w') \<and> declared {204} {400, 401, 429, 500} resp resp') \<and>
    (\<exists>resp' w'. strict_Logout srv r c resp w = (Done resp', w') \<and> declared {204} {500} resp resp') \<and>
    (\<exists>resp' w'. strict_GetMe srv r c resp w = (Done resp', w') \<and> declared {200} {401, 500} resp resp') \<and>
    (\<exists>resp' w'. strict_GetHealth srv r c resp w = (Done resp', w') \<and> declared {200, 503} {} resp resp') \<and>
    (\<exists>resp' w'. strict_GetAuthMethods srv r c resp w = (Done resp', w') \<and> declared {200} {} resp resp')"
proof (intro conjI)
  have fr: "rs_status resp = 0" "\<not> rs_discards resp" using assms by (simp_all add: fresh_def)
  show "\<exists>resp' w'. strict_LocalLogin srv r c resp w = (Done resp', w') \<and> declared {204} {400, 401, 429, 500} resp resp'"
  proof (cases "Option.bind (decode_stream r) unmarshal_login")
    case None
    then show ?thesis using requestErrorHandler_declared [OF assms, of _ w]
      by (cases "requestErrorHandler resp w") (auto simp: strict_LocalLogin_def)
  next
    case (Some body)
    obtain response w' where l: "LocalLogin (srv_ext srv) (srv_auth srv) (srv_dummyHash srv) c (llr_Email body) (llr_Password body) w = (response, w')"
      by force
    have "\<exists>resp'. VisitLocalLoginResponse response resp = Done resp' \<and> declared {204} {400, 401, 429, 500} resp resp'"
      using LocalLogin_responses [OF l] fr codes_valid declared_error [OF assms]
      by (auto simp: VisitLocalLoginResponse_def)
        (auto simp: declared_def WriteHeader_def header_Set_cookie_def write_body_def)
    then show ?thesis using Some l by (auto simp: strict_LocalLogin_def)
  qed
  have "declared {204} {500} resp (VisitLogoutResponse (fst (Logout (srv_ext srv) (srv_auth srv) c w)) resp)"
    using declared_error [OF assms] declared_good [OF assms] codes_valid
    by (auto simp: Logout_def Let_def VisitLogoutResponse_def logout_internalError_def split: prod.split sum.split)
  then show "\<exists>resp' w'. strict_Logout srv r c resp w = (Done resp', w') \<and> declared {204} {500} resp resp'"
    by (cases "Logout (srv_ext srv) (srv_auth srv) c w") (simp add: strict_Logout_def)
  have "declared {200} {401, 500} resp (VisitGetMeResponse (fst (GetMe (srv_fixed4 srv) c w)) resp)"
    using declared_error [OF assms] declared_good [OF assms] codes_valid
    by (auto simp: GetMe_def VisitGetMeResponse_def me_internalError_def split: option.split prod.split sum.split)
  then show "\<exists>resp' w'. strict_GetMe srv r c resp w = (Done resp', w') \<and> declared {200} {401, 500} resp resp'"
    by (cases "GetMe (srv_fixed4 srv) c w") (simp add: strict_GetMe_def)
  have "declared {200, 503} {} resp (VisitGetHealthResponse (fst (GetHealth (srv_system srv) c w)) resp)"
    using declared_good [OF assms]
    by (auto simp: GetHealth_def VisitGetHealthResponse_def split: prod.split sum.split)
  then show "\<exists>resp' w'. strict_GetHealth srv r c resp w = (Done resp', w') \<and> declared {200, 503} {} resp resp'"
    by (cases "GetHealth (srv_system srv) c w") (simp add: strict_GetHealth_def)
  show "\<exists>resp' w'. strict_GetAuthMethods srv r c resp w = (Done resp', w') \<and> declared {200} {} resp resp'"
    using declared_good [OF assms]
    by (simp add: strict_GetAuthMethods_def VisitGetAuthMethodsResponse_def split: prod.split)
qed

theorem operations_answer_in_contract_witness:
  "\<exists>resp' w'. strict_LocalLogin \<lparr>srv_ext = toy_ext, srv_auth = month_handlers, srv_system = off_system,
      srv_dummyHash = toy_dummy, srv_fixed4 = (\<lambda>_. ''0.0000'')\<rparr> (plain_request ''POST'' ''/'') Background
      empty_response member_world = (Done resp', w') \<and> declared {204} {400, 401, 429, 500} empty_response resp'"
proof -
  have "fresh empty_response" by (simp add: fresh_def empty_response_def)
  from operations_answer_in_contract [OF this] show ?thesis by blast
qed

section \<open>The login on the wire\<close>

text \<open>The request of a login that nothing ahead of the operation stops.\<close>

definition login_request :: "(string \<Rightarrow> string option) \<Rightarrow> (server_request \<Rightarrow> oapi_error option) \<Rightarrow> Server \<Rightarrow>
    server_request \<Rightarrow> LocalLoginRequest \<Rightarrow> bool" where
  "login_request url_host verdict srv r body \<longleftrightarrow>
     rq_Method r = ''POST'' \<and> routed_path (decoded_request (ext_ulow (srv_ext srv)) r) = localLoginPath ''/api'' \<and>
     LocalEnabled (srv_system srv) \<and> guard_passes url_host r \<and>
     (let r' = canonical_request (operation_request (srv_ext srv) ''/auth/local/login'' r)
      in verdict r' = None \<and> Option.bind (decode_stream r') unmarshal_login = Some body)"

lemma serve_login:
  assumes "times_out d timeout" "mounts ''/api'' mount" "chi_serves chi" "login_request url_host verdict srv r body"
    and a: "arrive srv d r c resp w = (c1, c2, resp2, w2)"
    and l: "LocalLogin (srv_ext srv) (srv_auth srv) (srv_dummyHash srv) c2 (llr_Email body) (llr_Password body) w2 = (response, w3)"
  shows "afloat_handler srv ''/api'' url_host timeout mount chi verdict r c resp w =
    depart c1 (VisitLocalLoginResponse response resp2, w3)"
proof -
  have r: "routed_path (decoded_request (ext_ulow (srv_ext srv)) r) = ''/api'' @ ''/auth/local/login''"
    "(rq_Method r, ''/auth/local/login'', openapiRequestValidator verdict (strict_LocalLogin srv)) \<in> set (api_table verdict srv)"
    "LocalEnabled (srv_system srv)" "guard_passes url_host r"
    using assms(4) by (simp_all add: login_request_def localLoginPath_def api_table_eq)
  have "openapiRequestValidator verdict (strict_LocalLogin srv) (operation_request (srv_ext srv) ''/auth/local/login'' r) c2 resp2 w2 =
      (VisitLocalLoginResponse response resp2, w3)"
    using assms(4) l by (auto simp: login_request_def openapiRequestValidator_def Let_def strict_LocalLogin_def)
  then show ?thesis using serve_operation [OF assms(1-3) r(1,2) _ r(4)] r(3) a by simp
qed

lemma arrive_frame:
  assumes "arrive srv d r c resp w = (c1, c2, resp2, w2)" "fresh resp"
  shows "fresh resp2" "rs_body resp2 = rs_body resp"
proof -
  have "fresh (header_Set n v r') = fresh r'" "rs_body (header_Set n v r') = rs_body r'"
    "fresh (add_cookies cks r') = fresh r'" "rs_body (add_cookies cks r') = rs_body r'" for n v r' cks
    by (simp_all add: fresh_def add_cookies_def)
  then show "fresh resp2" "rs_body resp2 = rs_body resp"
    using assms by (auto simp: arrive_def marked_response_def security_header_set_def Let_def split: prod.splits)
qed

text \<open>
  A successful login answers with its own cookie alone: a 204 with an empty body whose one
  \<open>Set-Cookie\<close> is the new session's, also when the session middleware had already put the
  clearing or the refreshing of an older cookie on the response.
\<close>

theorem login_answer_has_one_cookie:
  assumes "times_out d timeout" "mounts ''/api'' mount" "chi_serves chi" "login_request url_host verdict srv r body"
    and "fresh resp" "arrive srv d r c resp w = (c1, c2, resp2, w2)"
    and "LocalLogin (srv_ext srv) (srv_auth srv) (srv_dummyHash srv) c2 (llr_Email body) (llr_Password body) w2 = (LocalLogin204 ck, w3)"
  shows "\<exists>resp' w'. afloat_handler srv ''/api'' url_host timeout mount chi verdict r c resp w = (Done resp', w') \<and>
    rs_status resp' = 204 \<and> rs_cookies resp' = [ck] \<and> rs_body resp' = rs_body resp \<and> w_db w' = w_db w3"
proof -
  have "rs_status resp2 = 0" "rs_body resp2 = rs_body resp" using arrive_frame [OF assms(6,5)] by (simp_all add: fresh_def)
  then show ?thesis
    using serve_login [OF assms(1-4,6,7)]
    by (simp add: VisitLocalLoginResponse_def depart_def late_def WriteHeader_def header_Set_cookie_def slog_def)
qed

text \<open>No session cookie is presented, so the session middleware adds nothing.\<close>

lemma arrive_anonymous:
  assumes "request_cookie (http_request.truncate r) SessionCookieName = None" "assigned_id r w = (i, w1)"
  shows "arrive srv d r c resp w =
    (WithTimeout (w_clock w1) d (c\<lparr>cx_requestID := Some i\<rparr>),
     RequestContextMiddleware (http_request.truncate r) (WithTimeout (w_clock w1) d (c\<lparr>cx_requestID := Some i\<rparr>)),
     add_cookies [] (marked_response i resp), w1)"
  using assms by (simp add: arrive_def SessionMiddleware_def Let_def)

lemma assigned_id_db:
  assumes "assigned_id r w = (i, w1)"
  shows "assigned_id r (w\<lparr>w_db := d\<rparr>) = (i, w1\<lparr>w_db := d\<rparr>)" "w_db w1 = w_db w" "w_clock w1 = w_clock w"
    "w_dbclock w1 = w_dbclock w" "w_script w1 = w_script w" "w_queue w1 = w_queue w"
  using assms by (auto simp: assigned_id_def newRequestID_def rand_Read_def Let_def split: if_splits list.splits)

text \<open>The backoff keys of a request, whatever its context.\<close>

definition wire_keys :: "externals \<Rightarrow> server_request \<Rightarrow> string \<Rightarrow> string list" where
  "wire_keys ext r email = login_keys ext (RequestContextMiddleware (http_request.truncate r) Background) email"

lemma login_keys_wire: "login_keys ext (RequestContextMiddleware (http_request.truncate r) c) email = wire_keys ext r email"
  by (simp add: wire_keys_def login_keys_def backoffKeys_def clientIPFrom_def RequestContextMiddleware_def Let_def split: option.split)

text \<open>Nothing is amiss around a login: no lost statement, no queue, no backoff, storable keys.\<close>

definition quiet_wire :: "externals \<Rightarrow> server_request \<Rightarrow> string \<Rightarrow> ctx \<Rightarrow> world \<Rightarrow> bool" where
  "quiet_wire ext r email c w \<longleftrightarrow> calm c w \<and> w_queue w = [] \<and> pg_text (normalizeEmail ext email) \<and>
     list_all pg_text (wire_keys ext r email) \<and> no_backoff (wire_keys ext r email) w \<and>
     request_cookie (http_request.truncate r) SessionCookieName = None"

lemma ctx_Err_WithTimeout:
  "ctx_Err t c = None \<Longrightarrow> 0 < d \<Longrightarrow> ctx_Err t (WithTimeout t d (c\<lparr>cx_requestID := i\<rparr>)) = None"
  by (auto simp: ctx_Err_def WithTimeout_def split: option.splits if_splits)

lemma failed_login_on_wire:
  assumes laws: "times_out d timeout" "mounts ''/api'' mount" "chi_serves chi" "login_request url_host verdict srv r body"
    and q: "0 < d" "quiet_wire (srv_ext srv) r (llr_Email body) c w" and i: "assigned_id r w = (i, w1)"
    and wrong: "verifyHoldingPermit (ext_idk (srv_ext srv)) (llr_Password body)
      (snd (stored_hash (srv_ext srv) (srv_dummyHash srv) (normalizeEmail (srv_ext srv) (llr_Email body)) (w_db w))) = Some False"
  shows "\<exists>w'. afloat_handler srv ''/api'' url_host timeout mount chi verdict r c resp w =
      (Done (write_json 401 (Error_json CodeInvalidCredentials) (add_cookies [] (marked_response i resp))), w') \<and>
    w_db w' = fold (count_failure (srv_auth srv) (w_dbclock w)) (wire_keys (srv_ext srv) r (llr_Email body)) (w_db w)"
proof -
  let ?c1 = "WithTimeout (w_clock w1) d (c\<lparr>cx_requestID := Some i\<rparr>)" and ?keys = "wire_keys (srv_ext srv) r (llr_Email body)"
  let ?c2 = "RequestContextMiddleware (http_request.truncate r) ?c1"
  note fr = assigned_id_db [OF i]
  have calm1: "calm ?c1 w1" using q ctx_Err_WithTimeout fr(3,5) by (simp add: quiet_wire_def calm_def)
  have "calm ?c2 w1"
    using calm1 by simp
  then have ql: "quiet_login (srv_ext srv) ?c2 (llr_Email body) w1"
    "no_backoff (login_keys (srv_ext srv) ?c2 (llr_Email body)) w1"
    using q(2) fr(2,4,6) by (simp_all add: quiet_wire_def quiet_login_def login_keys_wire no_backoff_def)
  obtain c' where c': "calm c' w1" "LocalLogin (srv_ext srv) (srv_auth srv) (srv_dummyHash srv) ?c2 (llr_Email body) (llr_Password body) w1 =
      (invalidCredentials, recordFailure (srv_auth srv) c' ?keys w1)"
    using LocalLogin_quiet [OF ql, of "srv_auth srv" "srv_dummyHash srv" "llr_Password body"] wrong
    unfolding fr(2) login_keys_wire by (metis option.case(2) bool.case(2))
  define w3 where "w3 = recordFailure (srv_auth srv) c' ?keys w1"
  have w3: "w_db w3 = fold (count_failure (srv_auth srv) (w_dbclock w)) ?keys (w_db w)" "w_clock w3 = w_clock w1"
    using recordFailure_calm [OF c'(1), of "srv_auth srv" ?keys] fr(2,4) by (auto simp: w3_def)
  have "request_cookie (http_request.truncate r) SessionCookieName = None" using q(2) by (simp add: quiet_wire_def)
  note serve_login [OF laws arrive_anonymous [OF this i] c'(2)]
  then show ?thesis
    using w3 calm1 by (auto simp: depart_def late_def calm_def invalidCredentials_def VisitLocalLoginResponse_def slog_def
        simp flip: w3_def)
qed

text \<open>
  C13. Failed logins are the same bytes: for one request, a server whose database does not know
  the address and one where the password is wrong send the same status, headers, cookies and
  body, and count the failure alike. Nothing on the wire tells whether an account exists.
\<close>

theorem failed_logins_same_bytes:
  assumes "times_out d timeout" "mounts ''/api'' mount" "chi_serves chi" "login_request url_host verdict srv r body"
    and "0 < d" "quiet_wire (srv_ext srv) r (llr_Email body) c w" "fresh resp"
    and "login_attempts db = login_attempts (w_db w)"
    and "verifyHoldingPermit (ext_idk (srv_ext srv)) (llr_Password body)
      (snd (stored_hash (srv_ext srv) (srv_dummyHash srv) (normalizeEmail (srv_ext srv) (llr_Email body)) (w_db w))) = Some False"
    and "verifyHoldingPermit (ext_idk (srv_ext srv)) (llr_Password body)
      (snd (stored_hash (srv_ext srv) (srv_dummyHash srv) (normalizeEmail (srv_ext srv) (llr_Email body)) db)) = Some False"
  shows "\<exists>resp' w1 w2. afloat_handler srv ''/api'' url_host timeout mount chi verdict r c resp w = (Done resp', w1) \<and>
    afloat_handler srv ''/api'' url_host timeout mount chi verdict r c resp (w\<lparr>w_db := db\<rparr>) = (Done resp', w2) \<and>
    rs_status resp' = 401 \<and> rs_body resp' = rs_body resp @ Encode (Error_json CodeInvalidCredentials) \<and>
    rs_cookies resp' = rs_cookies resp \<and> login_attempts (w_db w1) = login_attempts (w_db w2)"
proof -
  obtain i w1 where i: "assigned_id r w = (i, w1)" by force
  let ?w' = "w\<lparr>w_db := db\<rparr>" and ?resp = "add_cookies [] (marked_response i resp)"
  have q2: "quiet_wire (srv_ext srv) r (llr_Email body) c ?w'"
    using assms(6,8) by (simp add: quiet_wire_def calm_def no_backoff_def active_backoff_def)
  have wr2: "verifyHoldingPermit (ext_idk (srv_ext srv)) (llr_Password body)
      (snd (stored_hash (srv_ext srv) (srv_dummyHash srv) (normalizeEmail (srv_ext srv) (llr_Email body)) (w_db ?w'))) = Some False"
    using assms(10) by simp
  obtain a where a: "afloat_handler srv ''/api'' url_host timeout mount chi verdict r c resp w =
      (Done (write_json 401 (Error_json CodeInvalidCredentials) ?resp), a)"
    "w_db a = fold (count_failure (srv_auth srv) (w_dbclock w)) (wire_keys (srv_ext srv) r (llr_Email body)) (w_db w)"
    using failed_login_on_wire [OF assms(1-6) i assms(9), of resp] by blast
  obtain b where b: "afloat_handler srv ''/api'' url_host timeout mount chi verdict r c resp ?w' =
      (Done (write_json 401 (Error_json CodeInvalidCredentials) ?resp), b)"
    "w_db b = fold (count_failure (srv_auth srv) (w_dbclock w)) (wire_keys (srv_ext srv) r (llr_Email body)) db"
    using failed_login_on_wire [OF assms(1-5) q2 assigned_id_db(1) [OF i] wr2, of resp] by auto
  have "fresh ?resp" "rs_body ?resp = rs_body resp" "rs_cookies ?resp = rs_cookies resp"
    using assms(7) by (simp_all add: fresh_def add_cookies_def marked_response_def security_header_set_def)
  then show ?thesis
    using a b write_json_fresh fold_count_failure_attempts [OF assms(8)] by auto
qed

section \<open>Witnesses\<close>

text \<open>A router, a mount and a timeout that keep chi's promises, and a member's login through them.\<close>

definition plain_timeout :: "int \<Rightarrow> handler \<Rightarrow> handler" where
  "plain_timeout d next r c resp w =
     (let c' = WithTimeout (w_clock w) d c; (out, w') = next r c' resp w in (map_response (late c' w') out, w'))"

definition plain_mount :: "string \<Rightarrow> handler \<Rightarrow> handler" where
  "plain_mount base f r c resp w = f (r\<lparr>rq_RoutePath := drop (length base) (routed_path r)\<rparr>) c resp w"

definition plain_chi :: "route list \<Rightarrow> handler" where
  "plain_chi table r c resp w =
     (case List.find (\<lambda>(m, p, h). m = rq_Method r \<and> p = rq_RoutePath r) table of
        None \<Rightarrow> (Done (NotFound resp), w)
      | Some (m, p, h) \<Rightarrow> h r c resp w)"

lemma plain_laws: "times_out d (plain_timeout d)" "mounts base (plain_mount base)" "chi_serves plain_chi"
proof -
  show "times_out d (plain_timeout d)" "mounts base (plain_mount base)"
    by (simp_all add: times_out_def plain_timeout_def mounts_def plain_mount_def)
  have "plain_chi table r c resp w = h r c resp w"
    if "static_routes table" "(rq_Method r, rq_RoutePath r, h) \<in> set table" for table r c resp w h
  proof -
    have "List.find (\<lambda>(m, p, h). m = rq_Method r \<and> p = rq_RoutePath r) table = Some (rq_Method r, rq_RoutePath r, h)"
      using that by (induction table) (auto simp: static_routes_def image_iff)
    then show ?thesis by (simp add: plain_chi_def)
  qed
  then show "chi_serves plain_chi" by (auto simp: chi_serves_def)
qed

definition on_system :: SystemHandlers where
  "on_system = \<lparr>sys_version = ''dev'', sys_localEnabled = True, sys_googleEnabled = False\<rparr>"

definition toy_server :: Server where
  "toy_server = \<lparr>srv_ext = toy_ext, srv_auth = month_handlers, srv_system = on_system, srv_dummyHash = toy_dummy,
     srv_fixed4 = (\<lambda>_. ''0.0000'')\<rparr>"

lemma toy_server_simps [simp]:
  "srv_ext toy_server = toy_ext" "srv_auth toy_server = month_handlers" "srv_system toy_server = on_system"
  "srv_dummyHash toy_server = toy_dummy"
  by (simp_all add: toy_server_def)

lemma plain_answers: "mount_answers (plain_mount base)" "chi_answers plain_chi"
proof -
  show "mount_answers (plain_mount base)" by (auto simp: mount_answers_def plain_mount_def)
  have "\<exists>(m, p, h) \<in> set table. plain_chi table r c resp w = h r c resp w"
    if "List.find (\<lambda>(m, p, h). m = rq_Method r \<and> p = rq_RoutePath r) table = Some x" for table r c resp w x
  proof (rule bexI [of _ x])
    show "x \<in> set table" using that by (induction table) (simp_all split: if_splits)
    show "case x of (m, p, h) \<Rightarrow> plain_chi table r c resp w = h r c resp w"
      using that by (simp add: plain_chi_def split: prod.split)
  qed
  moreover have "answers_itself (plain_chi table r c resp w) resp w"
    if "List.find (\<lambda>(m, p, h). m = rq_Method r \<and> p = rq_RoutePath r) table = None" for table r c resp w
    using that by (simp add: plain_chi_def answers_itself_def)
  ultimately show "chi_answers plain_chi"
    unfolding chi_answers_def by (meson not_Some_eq)
qed

text \<open>A request for no route of the server, answered by the router itself.\<close>

theorem every_response_marked_witness:
  "\<exists>resp' w' i. afloat_handler toy_server ''/api'' (\<lambda>_. None) (plain_timeout 60) (plain_mount ''/api'') plain_chi (\<lambda>_. None)
      (plain_request ''GET'' ''/api/nowhere'') Background empty_response member_world = (Done resp', w') \<and>
    rs_headers resp' requestIDHeader = Some i \<and> good_id i \<and>
    rs_headers resp' ''X-Frame-Options'' = Some ''DENY''"
proof -
  have "rs_status empty_response = 0" by (simp add: empty_response_def)
  moreover have "(''X-Frame-Options'', ''DENY'') \<in> set security_header_set" by (simp add: security_header_set_def)
  ultimately show ?thesis
    using every_response_marked [OF plain_laws(1) [of 60] plain_answers(1) [of "''/api''"] plain_answers(2), where srv = toy_server and resp = empty_response and basePath = "''/api''" and url_host = "\<lambda>_. None" and verdict = "\<lambda>_. None"
      and r = "plain_request ''GET'' ''/api/nowhere''" and c = Background and w = member_world] by blast
qed

lemma toy_login_request:
  assumes "password \<in> {''right'', ''wrong''}"
  shows "login_request (\<lambda>_. None) (\<lambda>_. None) toy_server (login_http_request toy_email password)
    \<lparr>llr_Email = toy_email, llr_Password = password\<rparr>"
proof -
  let ?r = "operation_request toy_ext ''/auth/local/login'' (login_http_request toy_email password)"
  have e: "ValidString toy_email" "ValidString password"
    using assms by (auto simp: toy_email_def ValidString_ascii is_ascii_def)
  have b: "rq_Body ?r = Encode (login_json toy_email password)" "\<not> rq_BodyBroken ?r" "rq_BodyLimit ?r = Some (2 ^ 20)"
    "header_Get ?r ''Content-Type'' = []"
    by (simp_all add: operation_request_def decoded_request_def login_http_request_def plain_request_def header_Get_def requestIDHeader_def)
  have "length (rq_Body ?r) \<le> 2 ^ 20"
    unfolding b(1) using assms login_json_length by (auto simp: toy_email_def)
  then have "readable_body ?r = rq_Body ?r" using b(3) by (intro readable_within [where n = "2 ^ 20"]) simp_all
  then have "Option.bind (decode_stream ?r) unmarshal_login = Some \<lparr>llr_Email = toy_email, llr_Password = password\<rparr>"
    using b by (intro login_decoded e) (simp_all add: body_cut_def)
  then show ?thesis
    using b(4) by (simp add: login_request_def canonical_request_def login_http_request_def plain_request_def
      decoded_request_def routed_path_def localLoginPath_def on_system_def LocalEnabled_def guard_passes_def header_Get_def requestIDHeader_def)
qed

lemma toy_login_wire:
  shows "request_cookie (http_request.truncate (login_http_request e p)) SessionCookieName = None"
    "assigned_id (login_http_request e p) w = (''r1'', w)"
    "clientIPFrom (RequestContextMiddleware (http_request.truncate (login_http_request e p)) c) = []"
    "userAgentFrom (RequestContextMiddleware (http_request.truncate (login_http_request e p)) c) = []"
  by (simp_all add: login_http_request_def plain_request_def http_request.truncate_def request_cookie_def assigned_id_def
      header_Get_def requestIDHeader_def sanitiseRequestID_def clientIPFrom_def userAgentFrom_def RequestContextMiddleware_def
      id_char_def byte_in_def maxRequestIDLength_def clientIP_def TrimSpace_def trim_both_def SplitHostPort_def
      sanitizeUserAgent_def replace_byte_def Trim_ascii_def)

lemma fresh_empty: "fresh empty_response" by (simp add: fresh_def empty_response_def)

theorem login_answer_has_one_cookie_witness:
  "\<exists>ck resp' w'. afloat_handler toy_server ''/api'' (\<lambda>_. None) (plain_timeout 60) (plain_mount ''/api'') plain_chi (\<lambda>_. None)
      (login_http_request toy_email ''right'') Background empty_response member_world = (Done resp', w') \<and>
     rs_status resp' = 204 \<and> rs_cookies resp' = [ck] \<and> ck_Value ck = toy_token"
proof -
  let ?c1 = "WithTimeout 1000000 60 (Background\<lparr>cx_requestID := Some ''r1''\<rparr>)" and ?r = "login_http_request toy_email ''right''"
  let ?c2 = "RequestContextMiddleware (http_request.truncate ?r) ?c1"
  have "calm ?c1 member_world"
    using ctx_Err_WithTimeout [of 1000000 Background 60] calm_quiet [of member_world] by (simp add: calm_def)
  then have "calm ?c2 member_world" by simp
  then obtain ck w3 where l: "LocalLogin toy_ext month_handlers toy_dummy ?c2 toy_email ''right'' member_world = (LocalLogin204 ck, w3)"
    and ck: "ck_Value ck = toy_token"
    using member_login_at [of ?c2] toy_login_wire(3,4) by blast
  have a: "arrive toy_server 60 ?r Background empty_response member_world =
      (?c1, ?c2, add_cookies [] (marked_response ''r1'' empty_response), member_world)"
    using arrive_anonymous [OF toy_login_wire(1,2)] by simp
  show ?thesis
    using login_answer_has_one_cookie [OF plain_laws toy_login_request fresh_empty a] l ck by auto
qed

theorem failed_logins_same_bytes_witness:
  "\<exists>resp' w1 w2. afloat_handler toy_server ''/api'' (\<lambda>_. None) (plain_timeout 60) (plain_mount ''/api'') plain_chi (\<lambda>_. None)
      (login_http_request toy_email ''wrong'') Background empty_response member_world = (Done resp', w1) \<and>
    afloat_handler toy_server ''/api'' (\<lambda>_. None) (plain_timeout 60) (plain_mount ''/api'') plain_chi (\<lambda>_. None)
      (login_http_request toy_email ''wrong'') Background empty_response (member_world\<lparr>w_db := empty_db\<rparr>) = (Done resp', w2) \<and>
    rs_status resp' = 401"
proof -
  let ?r = "login_http_request toy_email ''wrong''"
  have "wire_keys toy_ext ?r toy_email = [''email:a@b.c'']"
    by (simp add: wire_keys_def toy_keys_at toy_login_wire(3))
  then have q: "quiet_wire toy_ext ?r toy_email Background member_world"
    by (simp add: quiet_wire_def calm_quiet toy_email_normal toy_login_wire(1) no_backoff_def active_backoff_def
        pg_text_def ValidString_ascii is_ascii_def)
  have "login_attempts empty_db = login_attempts (w_db member_world)" by (simp add: empty_db_def)
  note failed_logins_same_bytes [OF plain_laws toy_login_request _ _ fresh_empty, unfolded toy_server_simps LocalLoginRequest.simps,
      OF _ _ q this toy_wrong, of 60]
  then show ?thesis by simp blast
qed

end
