(* ===== verification/Querier.thy ===== *)
theory Querier
  imports Me
begin

text \<open>
  The query interface (\<open>backend/internal/db/querier.go\<close>) as data: one constructor per method,
  what each does to the tables, and the databases a sequence of calls leads to. Every handler
  is such a sequence, whatever statements fail on the way, so what every call keeps every
  handler keeps, however its statements interleave with those of others.
\<close>

section \<open>The interface\<close>

datatype Querier =
    QClearLoginAttempts "string list"
  | QCreateSession CreateSessionParams
  | QDeleteExpiredSessions
  | QDeleteSession string
  | QDeleteSessionsForUser uuid
  | QGetCredentialByUserID uuid
  | QGetHouseholdByID uuid
  | QGetLiveSession GetLiveSessionParams
  | QGetLoginBackoff "string list"
  | QGetUserByEmail string
  | QGetUserByID uuid
  | QPing
  | QRecordLoginFailure RecordLoginFailureParams
  | QTouchSession TouchSessionParams
  | QUpsertCredential UpsertCredentialParams

definition table_effect :: "'a query \<Rightarrow> timestamptz \<Rightarrow> database \<Rightarrow> query_error + database" where
  "table_effect q now d = map_sum id snd (q now d)"

primrec exec :: "(string \<Rightarrow> string) \<Rightarrow> Querier \<Rightarrow> timestamptz \<Rightarrow> database \<Rightarrow> query_error + database" where
  "exec lower (QClearLoginAttempts keys) = table_effect (ClearLoginAttempts keys)"
| "exec lower (QCreateSession arg) = table_effect (CreateSession arg)"
| "exec lower QDeleteExpiredSessions = table_effect DeleteExpiredSessions"
| "exec lower (QDeleteSession i) = table_effect (DeleteSession i)"
| "exec lower (QDeleteSessionsForUser u) = table_effect (DeleteSessionsForUser u)"
| "exec lower (QGetCredentialByUserID u) = table_effect (GetCredentialByUserID u)"
| "exec lower (QGetHouseholdByID i) = table_effect (GetHouseholdByID i)"
| "exec lower (QGetLiveSession arg) = table_effect (GetLiveSession arg)"
| "exec lower (QGetLoginBackoff keys) = table_effect (GetLoginBackoff keys)"
| "exec lower (QGetUserByEmail email) = table_effect (GetUserByEmail lower email)"
| "exec lower (QGetUserByID i) = table_effect (GetUserByID i)"
| "exec lower QPing = table_effect Ping"
| "exec lower (QRecordLoginFailure arg) = table_effect (RecordLoginFailure arg)"
| "exec lower (QTouchSession arg) = table_effect (TouchSession arg)"
| "exec lower (QUpsertCredential arg) = table_effect (UpsertCredential arg)"

lemma table_effect_Inr: "table_effect q now d = Inr d' \<longleftrightarrow> (\<exists>x. q now d = Inr (x, d'))"
  by (cases "q now d") (auto simp: table_effect_def)

section \<open>Sequences of calls\<close>

text \<open>The databases that calls of a kind lead to, at any instants; a call that fails changes nothing.\<close>

inductive calls :: "(string \<Rightarrow> string) \<Rightarrow> (Querier \<Rightarrow> bool) \<Rightarrow> database \<Rightarrow> database \<Rightarrow> bool" for lower P where
  no_call: "calls lower P d d"
| one_more: "calls lower P d d1 \<Longrightarrow> P q \<Longrightarrow> exec lower q now d1 = Inr d2 \<Longrightarrow> calls lower P d d2"

lemma calls_trans: "calls lower P d1 d2 \<Longrightarrow> calls lower P d d1 \<Longrightarrow> calls lower P d d2"
  by (induction rule: calls.induct) (auto intro: calls.intros)

lemma calls_mono: "calls lower P d d' \<Longrightarrow> (\<And>q. P q \<Longrightarrow> Q q) \<Longrightarrow> calls lower Q d d'"
  by (induction rule: calls.induct) (auto intro: calls.intros)

text \<open>
  What the calls of a kind keep, each of them, their sequences keep: a relation between the
  database before and after that is closed under composition.
\<close>

locale kept_relation =
  fixes lower :: "string \<Rightarrow> string" and P :: "Querier \<Rightarrow> bool" and R :: "database \<Rightarrow> database \<Rightarrow> bool"
  assumes R_refl: "R d d"
    and R_trans: "R d d1 \<Longrightarrow> R d1 d2 \<Longrightarrow> R d d2"
    and R_call: "P q \<Longrightarrow> exec lower q now d = Inr d' \<Longrightarrow> R d d'"
begin

lemma calls_keep: "calls lower P d d' \<Longrightarrow> R d d'"
  by (induction rule: calls.induct) (auto intro: R_refl R_trans R_call)

end

section \<open>The handlers as sequences\<close>

text \<open>A statement on a context, answered or not, is at most one call.\<close>

lemma run_calls:
  assumes "run c q w = (res, w')" "exec lower k = table_effect q" "P k"
  shows "calls lower P (w_db w) (w_db w')"
proof -
  have "w_db w' = w_db w \<or> (\<exists>now x. q now (w_db w) = Inr (x, w_db w'))"
    using assms(1) by (auto simp: run_def Let_def elapse_def split: prod.splits option.splits sum.splits if_splits)
  then show ?thesis
    using assms(2,3) by (metis no_call one_more table_effect_Inr)
qed

lemma recordFailure_calls:
  assumes "\<And>key. P (QRecordLoginFailure (failure_params h key))"
  shows "calls lower P (w_db w) (w_db (recordFailure h c keys w))"
proof (induction keys arbitrary: w)
  case (Cons k keys)
  obtain r w1 where q: "run c (RecordLoginFailure (failure_params h k)) w = (r, w1)" by force
  have "calls lower P (w_db w) (w_db w1)" by (rule run_calls [OF q, of _ "QRecordLoginFailure (failure_params h k)"]) (simp_all add: assms)
  then show ?case
    using calls_trans [OF Cons.IH [of w1]] calls_trans [OF Cons.IH [of "slog Error ''login: record failure'' w1"]] q
    by (cases r) (auto simp: failure_params_def)
qed (simp add: no_call)

lemma IssueSession_calls:
  assumes "IssueSession ext h c userID ua w = (res, w')" "\<And>arg. csp_UserID arg = userID \<Longrightarrow> P (QCreateSession arg)"
  shows "calls lower P (w_db w) (w_db w')"
proof -
  obtain r1 w1 where t: "newSessionToken w = (r1, w1)" by force
  have db: "w_db w1 = w_db w"
    using t by (auto simp: newSessionToken_def rand_Read_def split: list.splits option.splits prod.splits)
  show ?thesis
  proof (cases r1)
    case None
    then show ?thesis using assms(1) t db by (simp add: IssueSession_def no_call)
  next
    case (Some token)
    define arg where "arg = \<lparr>csp_ID = HashToken ext token, csp_UserID = userID,
      csp_ExpiresAt = to_pg (h_now h w1 + sessionTTL h), csp_UserAgent = nullString ua\<rparr>"
    obtain r2 w2 where q: "run c (CreateSession arg) w1 = (r2, w2)" by force
    have "calls lower P (w_db w1) (w_db w2)"
      by (rule run_calls [OF q, of _ "QCreateSession arg"]) (simp_all add: assms(2) arg_def)
    moreover have "w_db w' = w_db w2"
      using assms(1) t Some q by (cases r2) (auto simp: IssueSession_def Let_def arg_def)
    ultimately show ?thesis by (simp add: db)
  qed
qed

lemma finishLogin_calls:
  assumes "finishLogin ext h c keys user w = (resp, w')" "\<And>ks. P (QClearLoginAttempts ks)"
    and "\<And>arg. csp_UserID arg = map_option usr_ID user \<Longrightarrow> P (QCreateSession arg)"
  shows "calls lower P (w_db w) (w_db w')"
proof -
  obtain r0 w0 where q: "run c (ClearLoginAttempts keys) w = (r0, w0)" by force
  define w1 where "w1 = (case r0 of Inl e \<Rightarrow> slog Warn ''login: clear attempts'' w0 | Inr _ \<Rightarrow> w0)"
  have "calls lower P (w_db w) (w_db w0)"
    by (rule run_calls [OF q, of _ "QClearLoginAttempts keys"]) (simp_all add: assms(2))
  moreover have "w_db w1 = w_db w0" by (simp add: w1_def split: sum.split)
  moreover obtain r2 w2 where i: "IssueSession ext h c (map_option usr_ID user) (userAgentFrom c) w1 = (r2, w2)" by force
  moreover have "calls lower P (w_db w1) (w_db w2)" by (rule IssueSession_calls [OF i]) (rule assms(3))
  moreover have "w_db w' = w_db w2"
    using assms(1) q i by (cases r2; cases r0) (auto simp: finishLogin_def w1_def)
  ultimately show ?thesis using calls_trans by metis
qed

text \<open>
  A login: what the others did to the database while it queued, then its own calls, which
  record failures of a wrong password, or clear them and create a session for the User whose
  credential the password verified against.
\<close>

definition proven :: "externals \<Rightarrow> string \<Rightarrow> string \<Rightarrow> string \<Rightarrow> database \<Rightarrow> uuid set" where
  "proven ext dh rawEmail password d =
     {usr_ID u | u phc. stored_hash ext dh (normalizeEmail ext rawEmail) d = (Some u, phc) \<and>
        verifyHoldingPermit (ext_idk ext) password phc = Some True}"

definition login_call :: "uuid set \<Rightarrow> Querier \<Rightarrow> bool" where
  "login_call V q =
     (case q of QClearLoginAttempts _ \<Rightarrow> True | QRecordLoginFailure _ \<Rightarrow> True
      | QCreateSession arg \<Rightarrow> (case csp_UserID arg of None \<Rightarrow> True | Some u \<Rightarrow> u \<in> V) | _ \<Rightarrow> False)"

lemma acquire_queue:
  assumes "acquireArgonPermit c w = (res, w')"
  obtains "w_db w' = w_db w" "w_queue w' = w_queue w"
  | "w_db w' = w_db w" "w_queue w = []" "w_queue w' = []"
  | ns others where "w_queue w = (ns, others) # w_queue w'" "w_db w' = others (w_db w)"
  using assms by (cases "w_queue w")
    (auto simp: acquireArgonPermit_def Let_def elapse_def split: option.splits prod.splits)

lemma recordFailure_queue: "w_queue (recordFailure h c keys w) = w_queue w"
proof (induction keys arbitrary: w)
  case (Cons k keys)
  then show ?case by (auto split: prod.splits sum.splits dest: run_frame(1))
qed simp

lemma finishLogin_queue: "finishLogin ext h c keys user w = (resp, w') \<Longrightarrow> w_queue w' = w_queue w"
  by (auto simp: finishLogin_def IssueSession_def newSessionToken_def rand_Read_def Let_def
      split: prod.splits sum.splits list.splits option.splits dest!: run_frame(1))

text \<open>The part of a login that holds the permit.\<close>

definition holding_permit :: "externals \<Rightarrow> Handlers \<Rightarrow> ctx \<Rightarrow> string list \<Rightarrow> string \<Rightarrow> User option \<Rightarrow> string \<Rightarrow> world \<Rightarrow> login_response \<times> world" where
  "holding_permit ext h c keys password user phc w =
     (case checkPassword ext h c keys password phc w of
        (Refused r, w') \<Rightarrow> (r, w') | (CheckPanic, w') \<Rightarrow> (LoginPanic, w')
      | (Verdict False, w') \<Rightarrow> (invalidCredentials, w')
      | (Verdict True, w') \<Rightarrow> finishLogin ext h c keys user w')"

lemma holding_permit_calls:
  assumes "holding_permit ext h c keys password user phc w = (resp, w')"
    and "stored_hash ext dh (normalizeEmail ext rawEmail) d = (user, phc)"
  shows "calls lower (login_call (proven ext dh rawEmail password d)) (w_db w) (w_db w') \<and> w_queue w' = w_queue w"
proof -
  let ?P = "login_call (proven ext dh rawEmail password d)"
  obtain t w1 where q: "throttled c keys w = (t, w1)" by force
  note f = throttled_frame [OF q]
  consider r where "t = Some r" | "t = None" "verifyHoldingPermit (ext_idk ext) password phc = None"
    | "t = None" "verifyHoldingPermit (ext_idk ext) password phc = Some False"
    | "t = None" "verifyHoldingPermit (ext_idk ext) password phc = Some True" by (metis option.exhaust)
  then have "calls lower ?P (w_db w1) (w_db w') \<and> w_queue w' = w_queue w1"
  proof cases
    case 3
    then have "w' = recordFailure h c keys w1" using assms(1) q by (simp add: holding_permit_def checkPassword_def)
    then show ?thesis using recordFailure_calls [of ?P] recordFailure_queue by (simp add: login_call_def)
  next
    case 4
    then have fin: "finishLogin ext h c keys user w1 = (resp, w')"
      using assms(1) q by (simp add: holding_permit_def checkPassword_def)
    have "calls lower ?P (w_db w1) (w_db w')"
      using assms(2) 4 by (intro finishLogin_calls [OF fin]) (auto simp: login_call_def proven_def split: option.splits)
    then show ?thesis using finishLogin_queue [OF fin] by simp
  qed (use assms(1) q in \<open>auto simp: holding_permit_def checkPassword_def no_call\<close>)
  then show ?thesis using f by simp
qed

lemma LocalLogin_calls:
  assumes "LocalLogin ext h dh c rawEmail password w = (resp, w')"
  obtains d where "calls lower (login_call (proven ext dh rawEmail password (w_db w))) d (w_db w')"
    "d = w_db w \<and> w_queue w' = w_queue w \<or>
     (\<exists>ns others. w_queue w = (ns, others) # w_queue w' \<and> d = others (w_db w))"
proof -
  let ?keys = "login_keys ext c rawEmail" and ?email = "normalizeEmail ext rawEmail"
  obtain t1 w1 where q1: "throttled c ?keys w = (t1, w1)" by force
  obtain t2 w2 where q2: "resolve ext dh c ?email w1 = (t2, w2)" by force
  obtain t3 w3 where q3: "acquireArgonPermit c w2 = (t3, w3)" by force
  note f1 = throttled_frame [OF q1] and f2 = resolve_frame [OF q2]
  have queue: "w_db w3 = w_db w \<and> w_queue w3 = w_queue w \<or>
      (\<exists>ns others. w_queue w = (ns, others) # w_queue w3 \<and> w_db w3 = others (w_db w))"
    using q3 f1 f2 by (cases rule: acquire_queue) metis+
  note steps = q1 [unfolded login_keys_def] q2 q3
  consider r where "t1 = Some r" | e where "t1 = None" "t2 = Inl e"
    | e p where "t1 = None" "t2 = Inr p" "t3 = Inl e"
    | user phc where "t1 = None" "t2 = Inr (user, phc)" "t3 = Inr ()"
    by (cases t1; cases t2; cases t3) auto
  then show thesis
  proof cases
    case 1
    then show thesis using that [of "w_db w'"] assms steps(1) f1 by (auto simp: LocalLogin_def Let_def no_call)
  next
    case 2
    then show thesis using that [of "w_db w'"] assms steps(1,2) f1 f2 by (auto simp: LocalLogin_def Let_def no_call)
  next
    case 3
    then have "w_db w' = w_db w3" "w_queue w' = w_queue w3"
      using assms steps by (auto simp: LocalLogin_def Let_def split: prod.splits if_splits)
    then show thesis using that [of "w_db w3"] queue no_call by simp
  next
    case 4
    have "stored_hash ext dh ?email (w_db w) = (user, phc)"
      using resolve_Inr [OF q2 [unfolded 4(2)]] f1(1) by simp
    moreover have "holding_permit ext h (afterPermit c (handlerBudget c w) w3) ?keys password user phc w3 = (resp, w')"
      using assms steps 4 unfolding LocalLogin_def Let_def login_keys_def holding_permit_def by simp
    ultimately show thesis using that [of "w_db w3"] queue holding_permit_calls by metis
  qed
qed

text \<open>The middleware, \<open>GET /me\<close> and the logout: at most a refresh, nothing, and at most a deletion.\<close>

lemma SessionMiddleware_calls:
  assumes "SessionMiddleware ext h r c hdrs w = (c', hdrs', w')" "\<And>arg. P (QTouchSession arg)"
  shows "calls lower P (w_db w) (w_db w')"
proof -
  have touch: "calls lower P (w_db u) (w_db u')" if "touchIfStale h c hs s v u = (hs', u')" for hs s v u hs' u'
  proof -
    let ?q = "\<lparr>tsp_ID = ses_ID s, tsp_ExpiresAt = to_pg (h_now h u + sessionTTL h)\<rparr>"
    obtain r1 u1 where q: "run c (TouchSession ?q) u = (r1, u1)" by force
    have "calls lower P (w_db u) (w_db u1)"
      by (rule run_calls [OF q, of _ "QTouchSession ?q"]) (simp_all add: assms(2))
    then show ?thesis
      using that q by (cases r1) (auto simp: touchIfStale_def Let_def no_call split: if_splits)
  qed
  have read1: "w_db u' = w_db u" if "run c (GetLiveSession g) u = (x, u')" for g u x u'
    using that by (rule run_readonly [rotated]) simp
  have read2: "w_db u' = w_db u" if "run c (GetUserByID g) u = (x, u')" for g u x u'
    using that by (rule run_readonly [rotated]) simp
  show ?thesis
    using assms(1) touch read1 read2
    by (fastforce simp: SessionMiddleware_def no_call split: option.splits if_splits prod.splits sum.splits)
qed

lemma GetMe_reads: "GetMe fixed4 c w = (resp, w') \<Longrightarrow> w_db w' = w_db w"
  using run_readonly [of "GetHouseholdByID _" c w]
  by (fastforce simp: GetMe_def split: option.splits sum.splits prod.splits if_splits)

lemma Logout_calls:
  assumes "Logout ext h c w = (resp, w')" "\<And>i. P (QDeleteSession i)"
  shows "calls lower P (w_db w) (w_db w')"
proof -
  obtain r1 w1 where q: "run c (DeleteSession (HashToken ext (sessionTokenFrom c))) w = (r1, w1)" by force
  have "calls lower P (w_db w) (w_db w1)"
    by (rule run_calls [OF q, of _ "QDeleteSession (HashToken ext (sessionTokenFrom c))"]) (simp_all add: assms(2))
  then show ?thesis
    using assms(1) q by (cases r1) (auto simp: Logout_def Let_def no_call split: if_splits)
qed

end
