(* ===== verification/Traffic.thy ===== *)
theory Traffic
  imports Querier Config
begin

text \<open>
  What happens to the database over the life of a server: any number of logins, each with
  whatever other requests do while it queues for its permit, and between them any statement of
  the query interface but the creation of a session, in any order, at any instants, with any
  of them failing.
\<close>

section \<open>The schema\<close>

text \<open>
  The keys, references and ranges the tables have: what \<open>db/migrations/V0001__baseline.sql\<close>
  enforces, and that the failures of a key start at one.
\<close>

definition sessions_ok :: "database \<Rightarrow> bool" where
  "sessions_ok d \<longleftrightarrow> (\<forall>i s. sessions d i = Some s \<longrightarrow> ses_ID s = i \<and> pg_text i \<and> user_row d (ses_UserID s) \<noteq> None)"

definition credentials_ok :: "database \<Rightarrow> bool" where
  "credentials_ok d \<longleftrightarrow> (\<forall>i c. credentials d i = Some c \<longrightarrow>
     cr_UserID c = i \<and> user_row d i \<noteq> None \<and> pg_text (cr_PasswordHash c))"

definition attempts_ok :: "database \<Rightarrow> bool" where
  "attempts_ok d \<longleftrightarrow> (\<forall>k a. login_attempts d k = Some a \<longrightarrow>
     la_Key a = k \<and> pg_text k \<and> 1 \<le> la_FailureCount a \<and> la_FailureCount a < 2 ^ 31)"

definition schema_ok :: "database \<Rightarrow> bool" where
  "schema_ok d \<longleftrightarrow> (\<forall>u \<in> set (users d). households d (usr_HouseholdID u) \<noteq> None) \<and>
     sessions_ok d \<and> credentials_ok d \<and> attempts_ok d"

text \<open>No call writes the Users or the Households, and each other table is written by few.\<close>

lemma user_row_update [simp]:
  "user_row (d\<lparr>sessions := f\<rparr>) = user_row d" "user_row (d\<lparr>credentials := g\<rparr>) = user_row d"
  "user_row (d\<lparr>login_attempts := a\<rparr>) = user_row d"
  by (simp_all add: user_row_def fun_eq_iff)

lemma readonly_effect: "readonly q \<Longrightarrow> table_effect q now d = Inr d' \<Longrightarrow> d' = d"
  by (auto simp: table_effect_Inr readonly_def)

lemmas readonly_effects = readonly_queries [THEN readonly_effect]

text \<open>A call writes one table, in one of four ways, or none.\<close>

lemma exec_cases:
  assumes "exec lower q now d = Inr d'"
  obtains (nothing) "d' = d"
  | (fewer_attempts) ks where "q = QClearLoginAttempts ks"
      "d' = d\<lparr>login_attempts := (\<lambda>k. if k \<in> set ks then None else login_attempts d k)\<rparr>"
  | (failure) arg row where "q = QRecordLoginFailure arg" "pg_text (rlf_Key arg)"
      "failure_row arg now (login_attempts d (rlf_Key arg)) = Inr row" "d' = put_attempt row d"
  | (created) arg s where "q = QCreateSession arg" "CreateSession arg now d = Inr (s, d')"
  | (touched) arg where "q = QTouchSession arg" "TouchSession arg now d = Inr ((), d')"
  | (fewer_sessions) f where "d' = d\<lparr>sessions := f\<rparr>" "\<And>i s. f i = Some s \<Longrightarrow> sessions d i = Some s"
  | (credential) arg where "q = QUpsertCredential arg" "UpsertCredential arg now d = Inr ((), d')"
proof (cases q)
  case (QClearLoginAttempts ks)
  then show thesis using assms fewer_attempts by (simp add: table_effect_Inr ClearLoginAttempts_def checked_def split: if_splits)
next
  case (QRecordLoginFailure arg)
  then show thesis using assms failure
    by (auto simp: table_effect_Inr RecordLoginFailure_def checked_def res_bind_eq_Inr split: if_splits)
next
  case QDeleteExpiredSessions
  then show thesis using assms
    by (intro fewer_sessions [of "sessions d'"]) (auto simp: table_effect_Inr DeleteExpiredSessions_def delete_sessions_where_def split: option.splits if_splits)
next
  case (QDeleteSession i)
  then show thesis using assms
    by (intro fewer_sessions [of "sessions d'"]) (auto simp: table_effect_Inr DeleteSession_def checked_def split: if_splits)
next
  case (QDeleteSessionsForUser u)
  then show thesis using assms
    by (intro fewer_sessions [of "sessions d'"]) (auto simp: table_effect_Inr DeleteSessionsForUser_def delete_sessions_where_def split: option.splits if_splits)
next
  case (QCreateSession arg)
  then show thesis using assms created by (auto simp: table_effect_Inr)
next
  case (QTouchSession arg)
  then show thesis using assms touched by (auto simp: table_effect_Inr)
next
  case (QUpsertCredential arg)
  then show thesis using assms credential by (auto simp: table_effect_Inr)
qed (use assms in \<open>auto dest!: readonly_effects intro: nothing\<close>)

lemma exec_frame:
  assumes "exec lower q now d = Inr d'"
  shows "users d' = users d \<and> households d' = households d \<and> user_row d' = user_row d"
  using assms
  by (cases rule: exec_cases)
    (auto simp: put_attempt_def CreateSession_def TouchSession_def UpsertCredential_def checked_def Let_def
      split: if_splits option.splits)

lemma exec_sessions_ok:
  assumes "exec lower q now d = Inr d'" "sessions_ok d"
  shows "sessions_ok d'"
  using assms(1)
proof (cases rule: exec_cases)
  case (created arg s)
  then show ?thesis using assms(2) CreateSession_Inr [OF created(2)]
    by (auto simp: sessions_ok_def CreateSession_def checked_def Let_def split: if_splits option.splits)
next
  case (touched arg)
  then show ?thesis using assms(2) by (auto simp: sessions_ok_def TouchSession_def checked_def split: if_splits)
next
  case (credential arg)
  then show ?thesis using assms(2) by (auto simp: sessions_ok_def UpsertCredential_def checked_def split: if_splits option.splits)
next
  case (fewer_sessions f)
  have "ses_ID s = i \<and> pg_text i \<and> user_row d (ses_UserID s) \<noteq> None" if "f i = Some s" for i s
    using assms(2) fewer_sessions(2) [OF that] by (simp add: sessions_ok_def)
  then show ?thesis by (simp add: fewer_sessions(1) sessions_ok_def)
qed (use assms(2) in \<open>auto simp: sessions_ok_def put_attempt_def\<close>)

lemma exec_credentials_ok:
  assumes "exec lower q now d = Inr d'" "credentials_ok d"
  shows "credentials_ok d'"
  using assms(1)
proof (cases rule: exec_cases)
  case (credential arg)
  then show ?thesis using assms(2)
    by (fastforce simp: credentials_ok_def UpsertCredential_def checked_def split: if_splits option.splits)
qed (use assms(2) in \<open>auto simp: credentials_ok_def put_attempt_def CreateSession_def TouchSession_def checked_def Let_def
    split: if_splits option.splits\<close>)

lemma failure_row_ok:
  assumes "failure_row arg now old = Inr row" "case old of None \<Rightarrow> True | Some a \<Rightarrow> 1 \<le> la_FailureCount a"
  shows "la_Key row = rlf_Key arg \<and> 1 \<le> la_FailureCount row \<and> la_FailureCount row < 2 ^ 31"
  using assms by (auto simp: failure_row_def res_bind_eq_Inr split: option.splits if_splits)

lemma exec_attempts_ok:
  assumes "exec lower q now d = Inr d'" "attempts_ok d"
  shows "attempts_ok d'"
  using assms(1)
proof (cases rule: exec_cases)
  case (failure arg row)
  have "case login_attempts d (rlf_Key arg) of None \<Rightarrow> True | Some a \<Rightarrow> 1 \<le> la_FailureCount a"
    using assms(2) by (auto simp: attempts_ok_def split: option.splits)
  with failure_row_ok [OF failure(3)] failure(2,4) assms(2) show ?thesis by (simp add: attempts_ok_def)
qed (use assms(2) in \<open>auto simp: attempts_ok_def CreateSession_def TouchSession_def UpsertCredential_def checked_def Let_def
    split: if_splits option.splits\<close>)

lemma exec_schema_ok: "exec lower q now d = Inr d' \<Longrightarrow> schema_ok d \<Longrightarrow> schema_ok d'"
  using exec_frame exec_sessions_ok exec_credentials_ok exec_attempts_ok by (simp add: schema_ok_def)

interpretation schema: kept_relation lower "\<lambda>_. True" "\<lambda>d d'. schema_ok d \<longrightarrow> schema_ok d'" for lower
  by unfold_locales (auto intro: exec_schema_ok)

section \<open>Whose sessions there are\<close>

definition owned_by :: "uuid set \<Rightarrow> database \<Rightarrow> bool" where
  "owned_by V d \<longleftrightarrow> (\<forall>i s. sessions d i = Some s \<longrightarrow> ses_UserID s \<in> V)"

text \<open>Calls that create sessions for nobody but the Users of a set.\<close>

definition grants_only :: "uuid set \<Rightarrow> Querier \<Rightarrow> bool" where
  "grants_only V q \<longleftrightarrow> (\<forall>arg u. q = QCreateSession arg \<longrightarrow> csp_UserID arg = Some u \<longrightarrow> u \<in> V)"

lemma exec_owned_by:
  assumes "exec lower q now d = Inr d'" "grants_only V q" "owned_by V d"
  shows "owned_by V d'"
  using assms(1)
proof (cases rule: exec_cases)
  case (created arg s)
  then show ?thesis using assms(2,3) CreateSession_Inr(3) [OF created(2)] by (auto simp: owned_by_def grants_only_def split: if_splits)
next
  case (touched arg)
  then show ?thesis using assms(3) by (auto simp: owned_by_def TouchSession_def checked_def split: if_splits)
next
  case (fewer_sessions f)
  have "ses_UserID s \<in> V" if "f i = Some s" for i s
    using assms(3) fewer_sessions(2) [OF that] by (simp add: owned_by_def)
  then show ?thesis by (simp add: fewer_sessions(1) owned_by_def)
next
  case (credential arg)
  then have "sessions d' = sessions d" by (auto simp: UpsertCredential_def checked_def split: if_splits option.splits)
  then show ?thesis using assms(3) by (simp add: owned_by_def)
qed (use assms(3) in \<open>simp_all add: owned_by_def\<close>)

interpretation owners: kept_relation lower "grants_only V" "\<lambda>d d'. owned_by V d \<longrightarrow> owned_by V d'" for lower V
  by unfold_locales (auto intro: exec_owned_by)

lemma login_call_grants: "login_call V q \<Longrightarrow> V \<subseteq> W \<Longrightarrow> grants_only W q"
  by (cases q) (auto simp: login_call_def grants_only_def)

section \<open>Histories\<close>

text \<open>
  From one database to another, and from the Users whose password had been presented to those
  for whom it has been now.
\<close>

inductive history ::
  "externals \<Rightarrow> Handlers \<Rightarrow> string \<Rightarrow> database \<Rightarrow> uuid set \<Rightarrow> database \<Rightarrow> uuid set \<Rightarrow> bool" for ext h dh where
  h_start: "history ext h dh d V d V"
| h_call: "history ext h dh d V d1 V1 \<Longrightarrow> exec (ext_pg_lower ext) q now d1 = Inr d2 \<Longrightarrow>
    (\<forall>arg. q \<noteq> QCreateSession arg) \<Longrightarrow> history ext h dh d V d2 V1"
| h_login: "history ext h dh d V (w_db w) V1 \<Longrightarrow>
    LocalLogin ext h dh c rawEmail password w = (resp, w') \<Longrightarrow> w_queue w' = w_queue w \<Longrightarrow>
    history ext h dh d V (w_db w') (V1 \<union> proven ext dh rawEmail password (w_db w))"
| h_queued: "history ext h dh d V (w_db w) V1 \<Longrightarrow>
    LocalLogin ext h dh c rawEmail password w = (resp, w') \<Longrightarrow> w_queue w = (ns, others) # w_queue w' \<Longrightarrow>
    history ext h dh (w_db w) V1 (others (w_db w)) V2 \<Longrightarrow>
    history ext h dh d V (w_db w') (V2 \<union> proven ext dh rawEmail password (w_db w))"

text \<open>Every handler but the login is a history of its own, whatever fails in it.\<close>

lemma history_calls:
  "calls (ext_pg_lower ext) (\<lambda>q. \<forall>arg. q \<noteq> QCreateSession arg) d1 d2 \<Longrightarrow>
     history ext h dh d V d1 V1 \<Longrightarrow> history ext h dh d V d2 V1"
  by (induction rule: calls.induct) (auto intro: h_call)

lemma history_handlers:
  assumes "history ext h dh d V (w_db w) V1"
  shows "SessionMiddleware ext h r c hdrs w = (c', hdrs', w') \<Longrightarrow> history ext h dh d V (w_db w') V1"
    and "Logout ext h c w = (resp, w') \<Longrightarrow> history ext h dh d V (w_db w') V1"
    and "GetMe fixed4 c w = (resp', w') \<Longrightarrow> history ext h dh d V (w_db w') V1"
    and "GetHealth sys c w = (resp'', w') \<Longrightarrow> history ext h dh d V (w_db w') V1"
proof -
  let ?P = "\<lambda>q. \<forall>arg. q \<noteq> QCreateSession arg"
  show "history ext h dh d V (w_db w') V1" if "SessionMiddleware ext h r c hdrs w = (c', hdrs', w')"
    by (rule history_calls [OF SessionMiddleware_calls [OF that, of ?P] assms]) simp
  show "history ext h dh d V (w_db w') V1" if "Logout ext h c w = (resp, w')"
    by (rule history_calls [OF Logout_calls [OF that, of ?P] assms]) simp
  show "history ext h dh d V (w_db w') V1" if "GetMe fixed4 c w = (resp', w')"
    using GetMe_reads [OF that] assms by simp
  show "history ext h dh d V (w_db w') V1" if "GetHealth sys c w = (resp'', w')"
  proof -
    obtain x w1 where q: "run c Ping w = (x, w1)" by force
    have "w_db w1 = w_db w" by (rule run_readonly [OF _ q]) simp
    then show ?thesis using that q assms by (cases x) (auto simp: GetHealth_def)
  qed
qed

text \<open>A login goes on from the database it was queued on, or from the one the others left.\<close>

lemma login_unqueued:
  assumes "LocalLogin ext h dh c rawEmail password w = (resp, w')" "w_queue w' = w_queue w"
  shows "calls lower (login_call (proven ext dh rawEmail password (w_db w))) (w_db w) (w_db w')"
proof -
  have "w_queue w \<noteq> q # w_queue w'" for q using assms(2) by simp
  with LocalLogin_calls [OF assms(1), of lower] show ?thesis by blast
qed

lemma login_queued:
  assumes "LocalLogin ext h dh c rawEmail password w = (resp, w')" "w_queue w = (ns, others) # w_queue w'"
  shows "calls lower (login_call (proven ext dh rawEmail password (w_db w))) (others (w_db w)) (w_db w')"
proof -
  have "w_queue w' \<noteq> w_queue w" using assms(2) by simp
  with LocalLogin_calls [OF assms(1), of lower] assms(2) show ?thesis by (metis list.inject prod.inject)
qed

lemma owned_by_mono: "owned_by V d \<Longrightarrow> V \<subseteq> W \<Longrightarrow> owned_by W d"
  by (auto simp: owned_by_def)

lemma login_owned_by:
  assumes "calls lower (login_call U) d d'" "owned_by V d"
  shows "owned_by (V \<union> U) d'"
proof -
  have "calls lower (grants_only (V \<union> U)) d d'"
    using assms(1) by (rule calls_mono) (erule login_call_grants, simp)
  then show ?thesis using owners.calls_keep owned_by_mono [OF assms(2), of "V \<union> U"] by blast
qed

lemma history_owned_by:
  "history ext h dh d V d' V' \<Longrightarrow> owned_by V d \<Longrightarrow> owned_by V' d'"
proof (induction rule: history.induct)
  case (h_call d V d1 V1 q now d2)
  then show ?case using exec_owned_by [OF h_call.hyps(2)] by (simp add: grants_only_def)
next
  case (h_login d V w V1 c rawEmail password resp w')
  then show ?case using login_owned_by [OF login_unqueued] by blast
next
  case (h_queued d V w V1 c rawEmail password resp w' ns others V2)
  then show ?case using login_owned_by [OF login_queued] by blast
qed

text \<open>
  C11. Nobody gets in without a password: however long the server has run since the session
  table was empty, and whatever failed or ran at the same time, a request is signed in only as
  a User whose own password was presented in a login before.
\<close>

theorem no_entry_without_password:
  assumes "history ext h dh d {} (w_db w) V" "sessions d = (\<lambda>_. None)"
    and "SessionMiddleware ext h r c hdrs w = (c', hdrs', w')" "UserFromContext c = None"
    and "UserFromContext c' = Some u"
  shows "usr_ID u \<in> V"
proof -
  have own: "owned_by V (w_db w)"
    using history_owned_by [OF assms(1)] assms(2) by (simp add: owned_by_def)
  from assms(3) show ?thesis
  proof (cases rule: SessionMiddleware_cases)
    case (signed_in t s u')
    then have "u' = u" using assms(5) by (simp add: UserFromContext_def WithUser_def)
    moreover obtain i where "sessions (w_db w) i = Some s" "find_user (w_db w) (ses_UserID s) = Some u'"
      using signed_in(3) by (auto simp: session_of_def split: option.splits if_splits)
    ultimately show ?thesis using own find_user_Some by (fastforce simp: owned_by_def)
  qed (use assms(4,5) in simp_all)
qed

text \<open>The schema survives any history, by the same three steps.\<close>

lemma login_schema_ok: "calls lower (login_call U) d d' \<Longrightarrow> schema_ok d \<Longrightarrow> schema_ok d'"
  by (rule schema.calls_keep [THEN mp, of lower]) (erule calls_mono, simp)

lemma history_schema_ok: "history ext h dh d V d' V' \<Longrightarrow> schema_ok d \<Longrightarrow> schema_ok d'"
proof (induction rule: history.induct)
  case (h_call d V d1 V1 q now d2)
  then show ?case using exec_schema_ok by blast
next
  case (h_login d V w V1 c rawEmail password resp w')
  then show ?case using login_schema_ok [OF login_unqueued] by blast
next
  case (h_queued d V w V1 c rawEmail password resp w' ns others V2)
  then show ?case using login_schema_ok [OF login_queued] by blast
qed

text \<open>A failure can be recorded whatever the row holds, short of the limit of its counter.\<close>

lemma failure_recordable:
  assumes "attempts_ok d" "backoff_params_ok (failure_params h k)"
    and "\<forall>a. login_attempts d k = Some a \<longrightarrow> la_FailureCount a + 1 < 2 ^ 31"
  shows "\<exists>d'. RecordLoginFailure (failure_params h k) t d = Inr ((), d')"
proof (cases "login_attempts d k")
  case None
  then show ?thesis using assms(2)
    by (simp add: RecordLoginFailure_def checked_def failure_row_def failure_params_def backoff_params_ok_def)
next
  case (Some a)
  have "1 \<le> la_FailureCount a" using assms(1) Some by (simp add: attempts_ok_def)
  then have "next_backoff (rlf_FirstBackoff (failure_params h k)) (rlf_MaxBackoff (failure_params h k)) (la_FailureCount a) =
      Inr (min (rlf_FirstBackoff (failure_params h k) * 2 ^ nat (la_FailureCount a)) (rlf_MaxBackoff (failure_params h k)))"
    using assms(2) by (intro next_backoff_curve) (simp_all add: backoff_params_ok_def)
  then show ?thesis using assms(2,3) Some
    by (simp add: RecordLoginFailure_def checked_def failure_row_def failure_params_def backoff_params_ok_def)
qed

text \<open>
  C12. The tables stay sound: from a database that satisfies the schema, whatever the server of
  a configuration that loads does to it, in whatever order and with whatever failing on the
  way, every session and every credential belongs to a User, every User to a Household, and
  one more failed login of any key can always be recorded, until its counter is at its limit.
\<close>

theorem tables_stay_sound:
  assumes "validate cfg = Inr ()" "config_typed cfg" "history ext (auth_of_config cfg) dh d V d' V'" "schema_ok d"
  shows "schema_ok d' \<and>
    (\<forall>k t. pg_text k \<longrightarrow> (\<forall>a. login_attempts d' k = Some a \<longrightarrow> la_FailureCount a + 1 < 2 ^ 31) \<longrightarrow>
       (\<exists>d''. RecordLoginFailure (failure_params (auth_of_config cfg) k) t d' = Inr ((), d'')))"
proof -
  have ok: "schema_ok d'" using history_schema_ok [OF assms(3,4)] .
  then have "attempts_ok d'" by (simp add: schema_ok_def)
  then show ?thesis using ok failure_recordable loaded_backoff_ok [OF assms(1,2)] by blast
qed

lemma one_user_db_schema: "schema_ok one_user_db"
  by (simp add: schema_ok_def sessions_ok_def credentials_ok_def attempts_ok_def one_user_db_def empty_db_def one_user_def)

theorem tables_stay_sound_witness:
  "\<exists>d1 d2. RecordLoginFailure (failure_params (auth_of_config default_config) ''email:a'') 5 one_user_db = Inr ((), d1) \<and>
     RecordLoginFailure (failure_params (auth_of_config default_config) ''email:a'') 9 d1 = Inr ((), d2) \<and> schema_ok d1"
proof -
  let ?arg = "failure_params (auth_of_config default_config) ''email:a''"
  have typed: "config_typed default_config" by (simp add: config_typed_def default_config_def second_def is_int64_def)
  have key: "pg_text ''email:a''" by (simp add: pg_text_def ValidString_ascii is_ascii_def)
  have n: "rlf_Key ?arg = ''email:a''" "login_attempts one_user_db ''email:a'' = None"
    by (simp_all add: failure_params_def one_user_db_def empty_db_def)
  let ?d = "put_attempt (attempt_row ?arg 1 5) one_user_db"
  have r: "RecordLoginFailure ?arg 5 one_user_db = Inr ((), ?d)"
    using RecordLoginFailure_first [OF loaded_backoff_ok [OF default_config_valid typed key], of one_user_db 5] n by simp
  have "history toy_ext (auth_of_config default_config) toy_dummy one_user_db {} ?d {}"
    by (rule h_call [OF h_start, of _ "QRecordLoginFailure ?arg" 5]) (simp_all add: table_effect_Inr r)
  from tables_stay_sound [OF default_config_valid typed this one_user_db_schema]
  have "schema_ok ?d" "\<exists>d2. RecordLoginFailure ?arg 9 ?d = Inr ((), d2)"
    using key n by (auto simp: attempt_row_def)
  with r show ?thesis by blast
qed

text \<open>From an empty session table: one login, and a request with the cookie it set.\<close>

lemma history_member_login:
  assumes "LocalLogin toy_ext month_handlers toy_dummy Background toy_email ''right'' member_world = (resp, w)"
  shows "history toy_ext month_handlers toy_dummy member_db {} (w_db w) {''u1''}"
proof -
  have p: "proven toy_ext toy_dummy toy_email ''right'' member_db = {''u1''}"
    by (simp add: proven_def toy_email_normal stored_member one_user_def toy_verify [unfolded One_nat_def])
  have q: "w_db member_world = member_db" "w_queue member_world = []" by simp_all
  have "w_queue w = w_queue member_world" using LocalLogin_calls [OF assms, of id] q(2) by auto
  then have "history toy_ext month_handlers toy_dummy member_db {} (w_db w)
      ({} \<union> proven toy_ext toy_dummy toy_email ''right'' (w_db member_world))"
    by (intro h_login [OF _ assms]) (simp_all add: q(1) h_start)
  then show ?thesis unfolding q(1) p by simp
qed

theorem no_entry_without_password_witness:
  "\<exists>ck w c' hdrs' w' u. LocalLogin toy_ext month_handlers toy_dummy Background toy_email ''right'' member_world =
      (LocalLogin204 ck, w) \<and>
    SessionMiddleware toy_ext month_handlers quiet_request Background [] w = (c', hdrs', w') \<and>
    UserFromContext c' = Some u \<and> usr_ID u \<in> {''u1''}"
proof -
  obtain ck w where l: "LocalLogin toy_ext month_handlers toy_dummy Background toy_email ''right'' member_world =
      (LocalLogin204 ck, w)" "ck_Value ck = toy_token" "ck_Expires ck = 2592000001000000"
      "w_dbclock w = 1000" "w_script w = []"
    using member_login by blast
  obtain u s where u: "fst (stored_hash toy_ext toy_dummy (normalizeEmail toy_ext toy_email) (w_db member_world)) = Some u"
    "usr_DeletedAt u = None" "users (w_db w) = users (w_db member_world)"
    and s: "sessions (w_db w) (HashToken toy_ext toy_token) = Some s" "ses_UserID s = usr_ID u"
      "ses_CreatedAt s = 1000" "ses_ExpiresAt s = to_pg 2592000001000000"
    using login_row [OF l(1)] l(2-4) by (metis member_world_simps(3))
  have "u = one_user" using u(1) by (simp add: toy_email_normal stored_member)
  then have f: "find_user (w_db w) (ses_UserID s) = Some one_user"
    using u(2,3) s(2) by (simp add: find_user_def)
  have lv: "live (intervalFrom (sessionMaxLifetime month_handlers)) (w_dbclock w) s"
    using s l(4) by (simp add: live_def to_pg_def)
  have q: "request_cookie quiet_request SessionCookieName = Some toy_token"
    by (simp add: quiet_request_def request_cookie_def)
  have c: "calm Background w" using l(5) by (simp add: calm_quiet)
  obtain hdrs' w' where m: "SessionMiddleware toy_ext month_handlers quiet_request Background [] w =
      (WithUser Background one_user, hdrs', w')"
    using live_row_signs_in [OF q toy_token_nonempty c s(1) lv f] by blast
  have "UserFromContext Background = None" "UserFromContext (WithUser Background one_user) = Some one_user"
    by (simp_all add: UserFromContext_def Background_def WithUser_def)
  from no_entry_without_password [OF history_member_login [OF l(1)] _ m this]
  have "usr_ID one_user \<in> {''u1''}" by simp
  with l(1) m \<open>UserFromContext (WithUser Background one_user) = Some one_user\<close> show ?thesis by blast
qed

end
