(* ===== verification/Requests.thy ===== *)
theory Requests
  imports Wire Traffic
begin

text \<open>
  Whole HTTP requests: what any request can do to the database, through every layer of the
  server and whatever fails, and what follows over any sequence of them.
\<close>

section \<open>What a request can do\<close>

text \<open>
  The router calls the handler of one of its routes or answers itself, \<open>Mount\<close> calls its handler
  with another route path or answers itself.
\<close>

definition mount_confines :: "(handler \<Rightarrow> handler) \<Rightarrow> bool" where
  "mount_confines mount \<longleftrightarrow> (\<forall>f r c resp w.
     (\<exists>p. mount f r c resp w = f (r\<lparr>rq_RoutePath := p\<rparr>) c resp w) \<or> (\<exists>out. mount f r c resp w = (out, w)))"

definition chi_confines :: "(route list \<Rightarrow> handler) \<Rightarrow> bool" where
  "chi_confines chi \<longleftrightarrow> (\<forall>table r c resp w.
     (\<exists>(m, p, h) \<in> set table. chi table r c resp w = h r c resp w) \<or> (\<exists>out. chi table r c resp w = (out, w)))"

text \<open>The Users whose password the body of a request holds, whatever part of it is read.\<close>

definition presented :: "Server \<Rightarrow> server_request \<Rightarrow> database \<Rightarrow> uuid set" where
  "presented srv r d = {u. \<exists>limit body.
     Option.bind (decode_stream (r\<lparr>rq_BodyLimit := limit\<rparr>)) unmarshal_login = Some body \<and>
     u \<in> proven (srv_ext srv) (srv_dummyHash srv) (llr_Email body) (llr_Password body) d}"

definition request_call :: "uuid set \<Rightarrow> Querier \<Rightarrow> bool" where
  "request_call V q \<longleftrightarrow> login_call V q \<or> (\<exists>arg. q = QTouchSession arg) \<or> (\<exists>i. q = QDeleteSession i)"

definition leads :: "Server \<Rightarrow> server_request \<Rightarrow> database \<Rightarrow> database \<Rightarrow> bool" where
  "leads srv r d d' \<longleftrightarrow> calls (ext_pg_lower (srv_ext srv)) (request_call (presented srv r d)) d d'"

text \<open>No such call writes the Users or their credentials, so whose password it is stays the same.\<close>

lemma request_call_frame:
  assumes "exec lower q now d = Inr d'" "request_call V q"
  shows "users d' = users d \<and> credentials d' = credentials d"
  using assms(1)
proof (cases rule: exec_cases)
  case (credential arg)
  then show ?thesis using assms(2) by (simp add: request_call_def login_call_def)
qed (auto simp: put_attempt_def CreateSession_def TouchSession_def checked_def Let_def split: if_splits option.splits)

interpretation accounts: kept_relation lower "request_call V" "\<lambda>d d'. users d' = users d \<and> credentials d' = credentials d" for lower V
  by unfold_locales (auto dest: request_call_frame)

interpretation tenants: kept_relation lower "\<lambda>_. True" "\<lambda>d d'. households d' = households d" for lower
  by unfold_locales (auto dest: exec_frame)

lemma presented_same_accounts:
  assumes "users d' = users d" "credentials d' = credentials d"
  shows "presented srv r d' = presented srv r d"
proof -
  have "stored_hash ext dh e d' = stored_hash ext dh e d" for ext dh e
    using assms by (simp add: stored_hash_def split: option.split)
  then show ?thesis by (simp add: presented_def proven_def)
qed

lemma presented_same_body:
  assumes "rq_Body r' = rq_Body r" "rq_BodyBroken r' = rq_BodyBroken r"
  shows "presented srv r' d = presented srv r d"
proof -
  have "decode_stream (r'\<lparr>rq_BodyLimit := limit\<rparr>) = decode_stream (r\<lparr>rq_BodyLimit := limit\<rparr>)" for limit
  proof -
    have b: "readable_body (r'\<lparr>rq_BodyLimit := limit\<rparr>) = readable_body (r\<lparr>rq_BodyLimit := limit\<rparr>)"
      using assms(1) by (simp add: readable_body_def split: option.split)
    then have "body_cut (r'\<lparr>rq_BodyLimit := limit\<rparr>) = body_cut (r\<lparr>rq_BodyLimit := limit\<rparr>)"
      using assms by (simp add: body_cut_def)
    with b show ?thesis by (simp only: decode_stream_def)
  qed
  then show ?thesis by (simp add: presented_def)
qed

lemma leads_refl: "leads srv r d d"
  by (simp add: leads_def no_call)

lemma leads_trans:
  assumes "leads srv r d d1" "leads srv r d1 d2"
  shows "leads srv r d d2"
proof -
  have "presented srv r d1 = presented srv r d"
    using accounts.calls_keep [OF assms(1) [unfolded leads_def]] by (intro presented_same_accounts) simp_all
  then have "calls (ext_pg_lower (srv_ext srv)) (request_call (presented srv r d)) d1 d2"
    using assms(2) by (simp add: leads_def)
  from calls_trans [OF this assms(1) [unfolded leads_def]] show ?thesis unfolding leads_def .
qed

lemma leads_same_body:
  "rq_Body r' = rq_Body r \<Longrightarrow> rq_BodyBroken r' = rq_BodyBroken r \<Longrightarrow> leads srv r' d d' = leads srv r d d'"
  unfolding leads_def using presented_same_body [of r' r srv] by simp

section \<open>The layers\<close>

text \<open>
  A handler is confined when a request that does not queue leads the database on by such calls
  only. The contract of a layer: around a confined handler it is confined.
\<close>

definition led :: "Server \<Rightarrow> server_request \<Rightarrow> world \<Rightarrow> world \<Rightarrow> bool" where
  "led srv r w w' \<longleftrightarrow> w_queue w' = [] \<and> leads srv r (w_db w) (w_db w')"

definition confined :: "Server \<Rightarrow> handler \<Rightarrow> bool" where
  "confined srv f \<longleftrightarrow> (\<forall>r c resp w out w'. f r c resp w = (out, w') \<longrightarrow> w_queue w = [] \<longrightarrow> led srv r w w')"

lemma confinedI:
  assumes "\<And>r c resp w out w'. f r c resp w = (out, w') \<Longrightarrow> w_queue w = [] \<Longrightarrow> led srv r w w'"
  shows "confined srv f"
  using assms unfolding confined_def by blast

lemma confinedD: "confined srv f \<Longrightarrow> f r c resp w = (out, w') \<Longrightarrow> w_queue w = [] \<Longrightarrow> led srv r w w'"
  unfolding confined_def by blast

text \<open>A layer answers itself, without touching the tables, or calls the next handler with the same body.\<close>

lemma led_same: "w_db w' = w_db w \<Longrightarrow> w_queue w' = [] \<Longrightarrow> led srv r w w'"
  by (simp add: led_def leads_refl)

lemma led_next:
  assumes "confined srv next" "next r1 c1 resp1 w1 = (out, w2)" "w_queue w1 = []" "w_db w1 = w_db w"
    and "rq_Body r1 = rq_Body r" "rq_BodyBroken r1 = rq_BodyBroken r" "w_db w' = w_db w2" "w_queue w' = w_queue w2"
  shows "led srv r w w'"
  using confinedD [OF assms(1-3)] leads_same_body [OF assms(5,6)] assms(4,7,8) by (simp add: led_def)

lemma led_trans: "led srv r w w1 \<Longrightarrow> led srv r w1 w2 \<Longrightarrow> led srv r w w2"
  unfolding led_def using leads_trans by blast

locale confining_layer =
  fixes srv :: Server and mw :: "handler \<Rightarrow> handler"
  assumes confines: "confined srv next \<Longrightarrow> confined srv (mw next)"

interpretation recoverer_db: confining_layer srv recoverer for srv
  by unfold_locales (rule confinedI, auto simp: recoverer_def split: prod.splits outcome.splits intro: led_next)

interpretation requestLogger_db: confining_layer srv requestLogger for srv
  by unfold_locales (rule confinedI, auto simp: requestLogger_def split: prod.splits outcome.splits intro: led_next)

interpretation optionsRefused_db: confining_layer srv optionsRefused for srv
  by unfold_locales (rule confinedI, auto simp: optionsRefused_def split: if_splits intro: led_next led_same)

interpretation disabledLocalLogin404_db: confining_layer srv "disabledLocalLogin404 basePath enabled" for srv basePath enabled
  by unfold_locales (rule confinedI, auto simp: disabledLocalLogin404_def split: if_splits intro: led_next led_same)

interpretation routeOnDecodedPath_db: confining_layer srv "routeOnDecodedPath ulow" for srv ulow
  by unfold_locales (rule confinedI, auto simp: routeOnDecodedPath_def split: if_splits intro: led_next)

interpretation maxBodyBytes_db: confining_layer srv "maxBodyBytes n" for srv n
  by unfold_locales (rule confinedI, auto simp: maxBodyBytes_def intro: led_next)

interpretation headAsGet_db: confining_layer srv headAsGet for srv
  by unfold_locales (rule confinedI, auto simp: headAsGet_def split: if_splits prod.splits intro: led_next)

interpretation securityHeaders_db: confining_layer srv securityHeaders for srv
  by unfold_locales (rule confinedI, auto simp: securityHeaders_def intro: led_next)

interpretation request_context_db: confining_layer srv request_context for srv
  by unfold_locales (rule confinedI, auto simp: request_context_def intro: led_next)

interpretation crossSiteGuard_db: confining_layer srv "crossSiteGuard url_host" for srv url_host
  by unfold_locales (rule confinedI, auto simp: crossSiteGuard_def Let_def split: if_splits option.splits intro: led_next led_same)

interpretation requestID_db: confining_layer srv requestID for srv
proof
  fix "next" assume n: "confined srv next"
  show "confined srv (requestID next)"
  proof (rule confinedI)
    fix r c resp w out w' assume f: "requestID next r c resp w = (out, w')" "w_queue w = []"
    obtain i w1 where i: "assigned_id r w = (i, w1)" by force
    have "next r (c\<lparr>cx_requestID := Some i\<rparr>) (header_Set requestIDHeader i resp) w1 = (out, w')"
      using f(1) i by (simp add: requestID_def assigned_id_def Let_def split: if_splits)
    then show "led srv r w w'" by (rule led_next [OF n]) (simp_all add: assigned_id_db [OF i] f(2))
  qed
qed

lemma SessionMiddleware_queue: "SessionMiddleware ext h r c hdrs w = (c', hdrs', w') \<Longrightarrow> w_queue w' = w_queue w"
  by (auto simp: SessionMiddleware_def touchIfStale_def Let_def split: option.splits if_splits prod.splits sum.splits dest!: run_frame(1))

interpretation session_layer_db: confining_layer srv "session_layer (srv_ext srv) h" for srv h
proof
  fix "next" assume n: "confined srv next"
  show "confined srv (session_layer (srv_ext srv) h next)"
  proof (rule confinedI)
    fix r c resp w out w' assume f: "session_layer (srv_ext srv) h next r c resp w = (out, w')" "w_queue w = []"
    obtain c1 cks w1 where s: "SessionMiddleware (srv_ext srv) h (http_request.truncate r) c [] w = (c1, cks, w1)"
      using prod_cases3 by blast
    have "led srv r w w1"
      using SessionMiddleware_calls [OF s, of "request_call (presented srv r (w_db w))" "ext_pg_lower (srv_ext srv)"]
        SessionMiddleware_queue [OF s] f(2) by (simp add: led_def leads_def request_call_def)
    moreover have "led srv r w1 w'"
      using f(1) s n \<open>led srv r w w1\<close> by (intro confinedD [OF n]) (simp_all add: session_layer_def led_def)
    ultimately show "led srv r w w'" by (rule led_trans)
  qed
qed

text \<open>The layers of chi, by their laws.\<close>

lemma timeout_confines:
  assumes "times_out d timeout" "confined srv next"
  shows "confined srv (timeout next)"
  by (rule confinedI) (use assms in \<open>auto simp: times_out_def Let_def split: prod.splits intro: led_next\<close>)

lemma mount_keeps_confined:
  assumes "mount_confines mount" "confined srv next"
  shows "confined srv (mount next)"
proof (rule confinedI)
  fix r c resp w out w' assume f: "mount next r c resp w = (out, w')" "w_queue w = []"
  from assms(1) consider p where "mount next r c resp w = next (r\<lparr>rq_RoutePath := p\<rparr>) c resp w"
    | out' where "mount next r c resp w = (out', w)" unfolding mount_confines_def by blast
  then show "led srv r w w'"
  proof cases
    case 1
    then show ?thesis using f by (intro led_next [OF assms(2), of "r\<lparr>rq_RoutePath := p\<rparr>" c resp w out w']) simp_all
  qed (use f in \<open>simp add: led_same\<close>)
qed

lemma chi_keeps_confined:
  assumes "chi_confines chi" "\<And>m p h. (m, p, h) \<in> set table \<Longrightarrow> confined srv h"
  shows "confined srv (chi table)"
proof (rule confinedI)
  fix r c resp w out w' assume f: "chi table r c resp w = (out, w')" "w_queue w = []"
  from assms(1) consider m p h where "(m, p, h) \<in> set table" "chi table r c resp w = h r c resp w"
    | out' where "chi table r c resp w = (out', w)" unfolding chi_confines_def by blast
  then show "led srv r w w'"
  proof cases
    case 1
    then show ?thesis using f confinedD [OF assms(2)] by metis
  qed (use f in \<open>simp add: led_same\<close>)
qed

section \<open>The operations\<close>

lemma login_confined: "confined srv (strict_LocalLogin srv)"
proof (rule confinedI)
  fix r c resp w out w' assume f: "strict_LocalLogin srv r c resp w = (out, w')" "w_queue w = []"
  show "led srv r w w'"
  proof (cases "Option.bind (decode_stream r) unmarshal_login")
    case None
    then show ?thesis using f by (intro led_same) (auto simp: strict_LocalLogin_def requestErrorHandler_def)
  next
    case (Some body)
    let ?U = "proven (srv_ext srv) (srv_dummyHash srv) (llr_Email body) (llr_Password body) (w_db w)"
    obtain response where l: "LocalLogin (srv_ext srv) (srv_auth srv) (srv_dummyHash srv) c (llr_Email body) (llr_Password body) w = (response, w')"
      using f(1) Some by (auto simp: strict_LocalLogin_def split: prod.splits)
    obtain d where d: "calls (ext_pg_lower (srv_ext srv)) (login_call ?U) d (w_db w')"
      "d = w_db w \<and> w_queue w' = w_queue w \<or> (\<exists>ns others. w_queue w = (ns, others) # w_queue w' \<and> d = others (w_db w))"
      by (rule LocalLogin_calls [OF l, of "ext_pg_lower (srv_ext srv)"])
    have "r\<lparr>rq_BodyLimit := rq_BodyLimit r\<rparr> = r" by simp
    then have "\<exists>limit body'. Option.bind (decode_stream (r\<lparr>rq_BodyLimit := limit\<rparr>)) unmarshal_login = Some body' \<and>
        u \<in> proven (srv_ext srv) (srv_dummyHash srv) (llr_Email body') (llr_Password body') (w_db w)" if "u \<in> ?U" for u
      using Some that by metis
    then have "?U \<subseteq> presented srv r (w_db w)" by (simp add: presented_def subset_iff)
    then have "calls (ext_pg_lower (srv_ext srv)) (request_call (presented srv r (w_db w))) d (w_db w')"
      by (intro calls_mono [OF d(1)]) (auto simp: request_call_def login_call_def split: Querier.splits option.splits)
    then show ?thesis using d(2) f(2) by (auto simp: led_def leads_def)
  qed
qed

lemma operations_confined: "confined srv (strict_Logout srv)" "confined srv (strict_GetMe srv)"
  "confined srv (strict_GetHealth srv)" "confined srv (strict_GetAuthMethods srv)"
proof -
  show "confined srv (strict_Logout srv)"
  proof (rule confinedI)
    fix r c resp w out w' assume f: "strict_Logout srv r c resp w = (out, w')" "w_queue w = []"
    then obtain response where l: "Logout (srv_ext srv) (srv_auth srv) c w = (response, w')"
      by (auto simp: strict_Logout_def split: prod.splits)
    have "w_queue w' = w_queue w"
      using l by (auto simp: Logout_def Let_def split: if_splits prod.splits sum.splits dest!: run_frame(1))
    then show "led srv r w w'"
      using Logout_calls [OF l, of "request_call (presented srv r (w_db w))" "ext_pg_lower (srv_ext srv)"] f(2)
      by (simp add: led_def leads_def request_call_def)
  qed
  show "confined srv (strict_GetMe srv)"
  proof (rule confinedI)
    fix r c resp w out w' assume f: "strict_GetMe srv r c resp w = (out, w')" "w_queue w = []"
    then obtain response where m: "GetMe (srv_fixed4 srv) c w = (response, w')"
      by (auto simp: strict_GetMe_def split: prod.splits)
    then have "w_queue w' = w_queue w"
      by (auto simp: GetMe_def logQueryError_def split: option.splits sum.splits prod.splits if_splits dest!: run_frame(1))
    then show "led srv r w w'" using GetMe_reads [OF m] f(2) by (intro led_same) simp_all
  qed
  show "confined srv (strict_GetHealth srv)"
  proof (rule confinedI)
    fix r c resp w out w' assume f: "strict_GetHealth srv r c resp w = (out, w')" "w_queue w = []"
    obtain x w1 where q: "run c Ping w = (x, w1)" by force
    have "w_db w1 = w_db w" by (rule run_readonly [OF _ q]) simp
    moreover have "w_queue w1 = w_queue w" using run_frame(1) [OF q] .
    ultimately show "led srv r w w'" using f q
      by (cases x) (auto simp: strict_GetHealth_def GetHealth_def intro: led_same)
  qed
  show "confined srv (strict_GetAuthMethods srv)"
    by (rule confinedI) (simp add: strict_GetAuthMethods_def led_same)
qed

lemma validator_confines:
  assumes "confined srv next"
  shows "confined srv (openapiRequestValidator verdict next)"
proof (rule confinedI)
  fix r c resp w out w' assume f: "openapiRequestValidator verdict next r c resp w = (out, w')" "w_queue w = []"
  have b: "rq_Body (canonical_request r) = rq_Body r" "rq_BodyBroken (canonical_request r) = rq_BodyBroken r"
    by (simp_all add: canonical_request_def request_header_Set_def)
  show "led srv r w w'"
  proof (cases "verdict (canonical_request r)")
    case None
    then show ?thesis using f by (intro led_next [OF assms, of "canonical_request r" c resp w out w']) (simp_all add: openapiRequestValidator_def Let_def b)
  next
    case (Some err)
    have "w_db (validation_log err w) = w_db w \<and> w_queue (validation_log err w) = w_queue w"
      by (simp add: validation_log_def split: prod.split option.split list.split)
    then show ?thesis using f Some by (intro led_same) (auto simp: openapiRequestValidator_def Let_def)
  qed
qed

text \<open>The whole server.\<close>

lemma server_confined:
  assumes "times_out d timeout" "mount_confines mount" "chi_confines chi"
  shows "confined srv (afloat_handler srv basePath url_host timeout mount chi verdict)"
proof -
  have "confined srv (chi (api_table verdict srv))"
    by (rule chi_keeps_confined [OF assms(3)])
      (auto simp: api_table_eq login_confined operations_confined intro!: validator_confines)
  then show ?thesis unfolding afloat_handler_def api_table_def httpserver_New_def
    by (intro requestID_db.confines securityHeaders_db.confines routeOnDecodedPath_db.confines recoverer_db.confines requestLogger_db.confines
        optionsRefused_db.confines disabledLocalLogin404_db.confines maxBodyBytes_db.confines timeout_confines [OF assms(1)]
        crossSiteGuard_db.confines request_context_db.confines session_layer_db.confines mount_keeps_confined [OF assms(2)] headAsGet_db.confines)
qed

section \<open>Sequences of requests\<close>

text \<open>
  Requests one after the other, each at its own time and with its own faults, and the Users
  whose password their bodies held.
\<close>

inductive requests :: "Server \<Rightarrow> handler \<Rightarrow> database \<Rightarrow> database \<Rightarrow> uuid set \<Rightarrow> bool" for srv f d where
  no_request: "requests srv f d d {}"
| next_request: "requests srv f d (w_db w) V \<Longrightarrow> w_queue w = [] \<Longrightarrow> f r c resp w = (out, w') \<Longrightarrow>
    requests srv f d (w_db w') (V \<union> presented srv r (w_db w))"

lemma request_call_grants: "request_call V q \<Longrightarrow> V \<subseteq> W \<Longrightarrow> grants_only W q"
  using login_call_grants by (auto simp: request_call_def grants_only_def)

lemma led_owned_by:
  assumes "led srv r w w'" "owned_by V (w_db w)"
  shows "owned_by (V \<union> presented srv r (w_db w)) (w_db w')"
proof -
  let ?W = "V \<union> presented srv r (w_db w)"
  have "calls (ext_pg_lower (srv_ext srv)) (grants_only ?W) (w_db w) (w_db w')"
    using assms(1) unfolding led_def leads_def by (elim conjE, elim calls_mono) (erule request_call_grants, simp)
  then show ?thesis using owners.calls_keep owned_by_mono [OF assms(2), of ?W] by blast
qed

lemma requests_owned_by:
  assumes "confined srv f" "requests srv f d d' V" "sessions d = (\<lambda>_. None)"
  shows "owned_by V d'"
  using assms(2)
proof (induction rule: requests.induct)
  case no_request
  then show ?case using assms(3) by (simp add: owned_by_def)
next
  case (next_request w V r c resp out w')
  then show ?case using led_owned_by [OF confinedD [OF assms(1)]] by blast
qed

text \<open>The schema holds on: no request can break it.\<close>

lemma requests_schema_ok:
  assumes "confined srv f" "requests srv f d d' V" "schema_ok d"
  shows "schema_ok d'"
  using assms(2)
proof (induction rule: requests.induct)
  case (next_request w V r c resp out w')
  have "leads srv r (w_db w) (w_db w')" using confinedD [OF assms(1) next_request.hyps(3,2)] by (simp add: led_def)
  then have "calls (ext_pg_lower (srv_ext srv)) (\<lambda>_. True) (w_db w) (w_db w')"
    unfolding leads_def by (rule calls_mono) simp
  then show ?case using schema.calls_keep next_request.IH by blast
qed (rule assms(3))

definition me_request :: "Server \<Rightarrow> server_request \<Rightarrow> bool" where
  "me_request srv r \<longleftrightarrow> rq_Method r = ''GET'' \<and>
     routed_path (decoded_request (ext_ulow (srv_ext srv)) r) = ''/api/me'' \<and>
     rq_Path (decoded_request (ext_ulow (srv_ext srv)) r) \<noteq> localLoginPath ''/api''"

text \<open>What a 200 of \<open>GET /me\<close> is made of.\<close>

lemma me_answer:
  assumes laws: "times_out d timeout" "mounts ''/api'' mount" "chi_serves chi" and r: "me_request srv r"
    and "fresh resp" "afloat_handler srv ''/api'' url_host timeout mount chi verdict r c resp w = (Done resp', w')"
    and "rs_status resp' = 200"
  obtains c1 c2 cks w1 w2 u hh i where "assigned_id r w = (i, w1)"
    "SessionMiddleware (srv_ext srv) (srv_auth srv) (http_request.truncate r) (RequestContextMiddleware (http_request.truncate r) c1) [] w1 = (c2, cks, w2)"
    "UserFromContext c1 = UserFromContext c"
    "UserFromContext c2 = Some u" "households (w_db w2) (usr_HouseholdID u) = Some hh" "hh_DeletedAt hh = None"
    "rs_body resp' = rs_body resp @ Encode (Me_json (meResponse (srv_fixed4 srv) u hh))"
proof -
  let ?op = "openapiRequestValidator verdict (strict_GetMe srv)" and ?rq = "http_request.truncate r"
  obtain i w1 where i: "assigned_id r w = (i, w1)" by force
  define c1 where "c1 = WithTimeout (w_clock w1) d (c\<lparr>cx_requestID := Some i\<rparr>)"
  obtain c2 cks w2 where s: "SessionMiddleware (srv_ext srv) (srv_auth srv) ?rq (RequestContextMiddleware ?rq c1) [] w1 = (c2, cks, w2)"
    using prod_cases3 by blast
  define resp2 where "resp2 = add_cookies cks (marked_response i resp)"
  have a: "arrive srv d r c resp w = (c1, c2, resp2, w2)" using i s by (simp add: arrive_def c1_def resp2_def)
  have f: "fresh resp2" "rs_body resp2 = rs_body resp" using arrive_frame [OF a assms(5)] by simp_all
  have "guard_passes url_host r" using r by (simp add: guard_passes_def me_request_def isSafeMethod_def)
  then have "afloat_handler srv ''/api'' url_host timeout mount chi verdict r c resp w =
      depart c1 (?op (operation_request (srv_ext srv) ''/me'' r) c2 resp2 w2)"
    using serve_operation [OF laws, of srv r "''/me''" ?op verdict url_host c resp w] r a
    by (simp add: me_request_def api_table_eq)
  then have dep: "depart c1 (?op (operation_request (srv_ext srv) ''/me'' r) c2 resp2 w2) = (Done resp', w')" using assms(6) by simp
  have late: "late c1 v x = x" if "rs_status x \<noteq> 0" for v x using that by (simp add: late_def WriteHeader_def)
  show thesis
  proof (cases "verdict (canonical_request (operation_request (srv_ext srv) ''/me'' r))")
    case (Some err)
    let ?reply = "writeOpenAPIValidationError err"
    have st: "rp_status ?reply \<in> {400, 401, 500}"
      by (auto simp: writeOpenAPIValidationError_def Write_def Let_def split: prod.split option.split list.split)
    have w: "rs_status (write_reply ?reply resp2) = rp_status ?reply"
      using f(1) by (simp add: fresh_def write_reply_def write_body_def WriteHeader_def header_Set_def)
    have "resp' = late c1 (validation_log err w2) (write_reply ?reply resp2)"
      using dep Some by (simp add: openapiRequestValidator_def Let_def depart_def)
    then have "rs_status resp' = rp_status ?reply" using late w st by (metis insertE singletonD zero_neq_numeral)
    then show thesis using st assms(7) by auto
  next
    case None
    obtain response w3 where m: "GetMe (srv_fixed4 srv) c2 w2 = (response, w3)" by force
    have e: "resp' = late c1 w3 (VisitGetMeResponse response resp2)"
      using dep None m by (simp add: openapiRequestValidator_def Let_def strict_GetMe_def depart_def)
    have "rs_status (VisitGetMeResponse response resp2) \<noteq> 0"
      by (cases response) (simp_all add: VisitGetMeResponse_def write_json_fresh [OF f(1)])
    with e have v: "resp' = VisitGetMeResponse response resp2" using late by simp
    obtain me where me: "response = GetMe200 me"
      using v assms(7) by (cases response) (simp_all add: VisitGetMeResponse_def write_json_fresh [OF f(1)])
    then obtain u hh where u: "UserFromContext c2 = Some u" "households (w_db w2) (usr_HouseholdID u) = Some hh"
        "hh_DeletedAt hh = None" "me = meResponse (srv_fixed4 srv) u hh"
      using me_own_household [where ?fixed4.0 = "srv_fixed4 srv" and c = c2 and w = w2] m by auto
    have "rs_body resp' = rs_body resp @ Encode (Me_json me)"
      using v me f by (simp add: VisitGetMeResponse_def write_json_fresh)
    moreover have "UserFromContext c1 = UserFromContext c" by (simp add: c1_def UserFromContext_def WithTimeout_def)
    ultimately show thesis using that [OF i s] u by simp
  qed
qed

text \<open>
  C8. No Household is shown without a password: however many requests of whatever kind the whole
  server has answered since its session table was empty, and whatever failed meanwhile, when
  \<open>GET /me\<close> is answered with a 200 its body is the Household of a User whose own password was in
  the body of one of these requests.
\<close>

theorem me_needs_password:
  assumes "times_out d timeout" "mounts ''/api'' mount" "chi_serves chi" "mount_confines mount" "chi_confines chi"
    and "requests srv (afloat_handler srv ''/api'' url_host timeout mount chi verdict) db (w_db w) V" "sessions db = (\<lambda>_. None)"
    and "me_request srv r" "fresh resp" "UserFromContext c = None"
    and "afloat_handler srv ''/api'' url_host timeout mount chi verdict r c resp w = (Done resp', w')" "rs_status resp' = 200"
  shows "\<exists>u hh. usr_ID u \<in> V \<and> u \<in> set (users (w_db w)) \<and> households (w_db w) (usr_HouseholdID u) = Some hh \<and>
    rs_body resp' = rs_body resp @ Encode (Me_json (meResponse (srv_fixed4 srv) u hh))"
proof -
  obtain c1 c2 cks w1 w2 u hh i where i: "assigned_id r w = (i, w1)"
    and s: "SessionMiddleware (srv_ext srv) (srv_auth srv) (http_request.truncate r) (RequestContextMiddleware (http_request.truncate r) c1) [] w1 = (c2, cks, w2)"
    and u: "UserFromContext c1 = UserFromContext c" "UserFromContext c2 = Some u" "households (w_db w2) (usr_HouseholdID u) = Some hh"
      "rs_body resp' = rs_body resp @ Encode (Me_json (meResponse (srv_fixed4 srv) u hh))"
    using me_answer [OF assms(1-3,8,9,11,12)] by metis
  have own: "owned_by V (w_db w1)"
    using requests_owned_by [OF server_confined [OF assms(1,4,5)] assms(6,7)] assigned_id_db(2) [OF i] by simp
  have anon: "UserFromContext (RequestContextMiddleware (http_request.truncate r) c1) = None"
    using u(1) assms(10) by (simp add: UserFromContext_def RequestContextMiddleware_def Let_def split: option.split)
  have "calls id (\<lambda>_. True) (w_db w1) (w_db w2)" by (rule SessionMiddleware_calls [OF s]) simp
  then have hh: "households (w_db w2) = households (w_db w1)" by (rule tenants.calls_keep)
  from s show ?thesis
  proof (cases rule: SessionMiddleware_cases)
    case (signed_in t sn u')
    then have "u' = u" using u(2) by (simp add: UserFromContext_def WithUser_def)
    moreover obtain k where "sessions (w_db w1) k = Some sn" "find_user (w_db w1) (ses_UserID sn) = Some u'"
      using signed_in(3) by (auto simp: session_of_def split: option.splits if_splits)
    ultimately have "usr_ID u \<in> V" "u \<in> set (users (w_db w1))" using own find_user_Some by (fastforce simp: owned_by_def)+
    then show ?thesis using u hh assigned_id_db(2) [OF i] by auto
  qed (use anon u(2) in simp_all)
qed

text \<open>A login over the wire, then \<open>GET /me\<close> with the cookie it set.\<close>

abbreviation toy_handler :: handler where
  "toy_handler \<equiv> afloat_handler toy_server ''/api'' (\<lambda>_. None) (plain_timeout 60) (plain_mount ''/api'') plain_chi (\<lambda>_. None)"

lemma plain_confines: "mount_confines (plain_mount base)" "chi_confines plain_chi"
proof -
  show "mount_confines (plain_mount base)" by (auto simp: mount_confines_def plain_mount_def)
  show "chi_confines plain_chi"
    unfolding chi_confines_def
  proof (intro allI)
    fix table :: "route list" and r :: server_request and c resp w
    let ?found = "List.find (\<lambda>(m, p, h). m = rq_Method r \<and> p = rq_RoutePath r) table"
    show "(\<exists>(m, p, h) \<in> set table. plain_chi table r c resp w = h r c resp w) \<or> (\<exists>out. plain_chi table r c resp w = (out, w))"
    proof (cases ?found)
      case (Some x)
      then have "\<exists>i < length table. x = table ! i" unfolding find_Some_iff by blast
      then have "x \<in> set table" by auto
      moreover obtain m p h where "x = (m, p, h)" by (cases x)
      ultimately show ?thesis using Some by (auto simp: plain_chi_def intro!: bexI [of _ x])
    qed (simp add: plain_chi_def)
  qed
qed

definition me_http_request :: server_request where
  "me_http_request = (plain_request ''GET'' ''/api/me'')
     \<lparr>rq_RemoteAddr := [], rq_Cookies := [(SessionCookieName, toy_token)], rq_Header := [(requestIDHeader, ''r1'')]\<rparr>"

lemma me_http_request_simps:
  "me_request toy_server me_http_request" "request_cookie (http_request.truncate me_http_request) SessionCookieName = Some toy_token"
  "guard_passes url_host me_http_request" "rq_Method me_http_request = ''GET''"
proof -
  show "me_request toy_server me_http_request"
    by (simp add: me_http_request_def me_request_def plain_request_def routed_path_def decoded_request_def localLoginPath_def)
  show "request_cookie (http_request.truncate me_http_request) SessionCookieName = Some toy_token"
    by (simp add: me_http_request_def plain_request_def http_request.truncate_def request_cookie_def)
  show "guard_passes url_host me_http_request" "rq_Method me_http_request = ''GET''"
    by (simp_all add: me_http_request_def plain_request_def guard_passes_def isSafeMethod_def)
qed

lemma me_request_id: "assigned_id me_http_request w = (''r1'', w)"
  by (simp add: me_http_request_def plain_request_def assigned_id_def header_Get_def requestIDHeader_def sanitiseRequestID_def
      id_char_def byte_in_def maxRequestIDLength_def)

lemma toy_login_served:
  "\<exists>resp' w' s. toy_handler (login_http_request toy_email ''right'') Background empty_response member_world = (Done resp', w') \<and>
     sessions (w_db w') (HashToken toy_ext toy_token) = Some s \<and> ses_UserID s = ''u1'' \<and> ses_CreatedAt s = 1000 \<and>
     ses_ExpiresAt s = to_pg 2592000001000000 \<and> users (w_db w') = [one_user] \<and> households (w_db w') = [''h1'' \<mapsto> one_household]"
proof -
  let ?c1 = "WithTimeout 1000000 60 (Background\<lparr>cx_requestID := Some ''r1''\<rparr>)" and ?r = "login_http_request toy_email ''right''"
  let ?c2 = "RequestContextMiddleware (http_request.truncate ?r) ?c1"
  have "calm ?c1 member_world"
    using ctx_Err_WithTimeout [of 1000000 Background 60] calm_quiet [of member_world] by (simp add: calm_def)
  then have "calm ?c2 member_world" by simp
  then obtain ck w3 where l: "LocalLogin toy_ext month_handlers toy_dummy ?c2 toy_email ''right'' member_world = (LocalLogin204 ck, w3)"
    and ck: "ck_Value ck = toy_token" "ck_Expires ck = 2592000001000000" "w_dbclock w3 = 1000" "households (w_db w3) = [''h1'' \<mapsto> one_household]"
    using member_login_at [of ?c2] toy_login_wire(3,4) by blast
  have a: "arrive toy_server 60 ?r Background empty_response member_world =
      (?c1, ?c2, add_cookies [] (marked_response ''r1'' empty_response), member_world)"
    using arrive_anonymous [OF toy_login_wire(1,2)] by simp
  obtain resp' w' where h: "toy_handler ?r Background empty_response member_world = (Done resp', w')" "w_db w' = w_db w3"
    using login_answer_has_one_cookie [OF plain_laws toy_login_request fresh_empty a] l by auto
  obtain u s where u: "fst (stored_hash toy_ext toy_dummy (normalizeEmail toy_ext toy_email) (w_db member_world)) = Some u"
      "users (w_db w3) = users (w_db member_world)"
    and s: "sessions (w_db w3) (HashToken toy_ext toy_token) = Some s" "ses_UserID s = usr_ID u"
      "ses_CreatedAt s = 1000" "ses_ExpiresAt s = to_pg 2592000001000000"
    using login_row [OF l] ck(1-3) by (metis member_world_simps(3))
  have "u = one_user" using u(1) by (simp add: toy_email_normal stored_member)
  then show ?thesis using h s u(2) ck(4) by (simp add: one_user_def)
qed

theorem me_needs_password_witness:
  "\<exists>resp1 w1 resp' w'. toy_handler (login_http_request toy_email ''right'') Background empty_response member_world = (Done resp1, w1) \<and>
     toy_handler me_http_request Background empty_response (member_world\<lparr>w_db := w_db w1\<rparr>) = (Done resp', w') \<and>
     rs_status resp' = 200 \<and> ''u1'' \<in> presented toy_server (login_http_request toy_email ''right'') member_db"
proof -
  let ?login = "login_http_request toy_email ''right''" and ?me = me_http_request and ?rq = "http_request.truncate me_http_request"
  obtain resp1 w1 s where l: "toy_handler ?login Background empty_response member_world = (Done resp1, w1)"
    and s: "sessions (w_db w1) (HashToken toy_ext toy_token) = Some s" "ses_UserID s = ''u1''" "ses_CreatedAt s = 1000"
      "ses_ExpiresAt s = to_pg 2592000001000000" "users (w_db w1) = [one_user]" "households (w_db w1) = [''h1'' \<mapsto> one_household]"
    using toy_login_served by blast
  let ?w = "member_world\<lparr>w_db := w_db w1\<rparr>" and ?c1 = "WithTimeout 1000000 60 (Background\<lparr>cx_requestID := Some ''r1''\<rparr>)"
  let ?c2 = "RequestContextMiddleware ?rq ?c1"
  have "requests toy_server toy_handler member_db (w_db member_world) {}" by (simp add: no_request)
  from next_request [OF this _ l]
  have q: "requests toy_server toy_handler member_db (w_db ?w) ({} \<union> presented toy_server ?login member_db)" by simp
  have "calm ?c1 ?w"
    using ctx_Err_WithTimeout [of 1000000 Background 60] calm_quiet [of member_world] by (simp add: calm_def)
  then have c2: "calm ?c2 ?w" by simp
  have u: "find_user (w_db ?w) (ses_UserID s) = Some one_user" using s(2,5) by (simp add: find_user_def one_user_def)
  have lv: "live (intervalFrom (sessionMaxLifetime month_handlers)) (w_dbclock ?w) s"
    using s(3,4) by (simp add: live_def to_pg_def)
  obtain cks w2 where m: "SessionMiddleware toy_ext month_handlers ?rq ?c2 [] ?w = (WithUser ?c2 one_user, cks, w2)"
    "calm ?c2 w2" "households (w_db w2) = [''h1'' \<mapsto> one_household]"
  proof -
    have "sessions (w_db ?w) (HashToken toy_ext toy_token) = Some s" using s(1) by simp
    from live_row_signs_in [OF me_http_request_simps(2) toy_token_nonempty c2 this lv u, of "[]"] that show thesis
      using s(6) by auto
  qed
  have g: "GetMe (srv_fixed4 toy_server) (WithUser ?c2 one_user) w2 =
      (GetMe200 (meResponse (srv_fixed4 toy_server) one_user one_household), w2)"
  proof (rule GetMe_calm)
    show "calm (WithUser ?c2 one_user) w2" using m(2) by simp
  qed (simp_all add: UserFromContext_def WithUser_def m(3) one_user_def one_household_def)
  let ?resp2 = "add_cookies cks (marked_response ''r1'' empty_response)"
  have a: "arrive toy_server 60 ?me Background empty_response ?w = (?c1, WithUser ?c2 one_user, ?resp2, w2)"
    using m(1) by (simp add: arrive_def me_request_id Let_def)
  have f: "fresh ?resp2" using arrive_frame [OF a fresh_empty] by simp
  have st: "rs_status (write_json 200 v ?resp2) = 200" for v using write_json_fresh(1) [OF f] .
  have "toy_handler ?me Background empty_response ?w =
      depart ?c1 (openapiRequestValidator (\<lambda>_. None) (strict_GetMe toy_server) (operation_request toy_ext ''/me'' ?me) (WithUser ?c2 one_user) ?resp2 w2)"
    using serve_operation [OF plain_laws, of toy_server ?me "''/me''" _ "\<lambda>_. None" "\<lambda>_. None" 60 Background empty_response ?w]
      me_http_request_simps a by (simp add: me_request_def api_table_eq)
  then have h: "toy_handler ?me Background empty_response ?w =
      (Done (write_json 200 (Me_json (meResponse (srv_fixed4 toy_server) one_user one_household)) ?resp2), slog Info ''request'' w2)"
    using g st by (simp add: openapiRequestValidator_def strict_GetMe_def VisitGetMeResponse_def depart_def late_def WriteHeader_def)
  have "UserFromContext Background = None" by (simp add: UserFromContext_def Background_def)
  from me_needs_password [OF plain_laws plain_confines q _ me_http_request_simps(1) fresh_empty this h st]
  have "''u1'' \<in> presented toy_server ?login member_db" using s(5) by (auto simp: one_user_def)
  with l h st show ?thesis by blast
qed

end
