(* ===== verification/Retry.thy ===== *)
theory Retry
  imports Login
begin

text \<open>
  A throttled client gets in: waiting as long as the 429 says is enough, and then the right
  password is answered with a session.
\<close>

section \<open>Where nothing fails, the right password gets a session\<close>

lemma finishLogin_calm:
  assumes "calm c w" "list_all pg_text keys" "w_rand w = Some b # rs" "user_row (w_db w) (usr_ID u) \<noteq> None"
    and "sessions (w_db w) (HashToken ext (RawURL_EncodeToString b)) = None"
    and "userAgentFrom c = [] \<or> pg_text (userAgentFrom c)"
  shows "\<exists>ck w'. finishLogin ext h c keys (Some u) w = (LocalLogin204 ck, w')"
proof -
  define d where "d = w_db w\<lparr>login_attempts := (\<lambda>k. if k \<in> set keys then None else login_attempts (w_db w) k)\<rparr>"
  have clear: "run c (ClearLoginAttempts keys) w = (Inr (), w\<lparr>w_db := d\<rparr>)"
    using assms(1,2) by (simp add: run_calm ClearLoginAttempts_def checked_def d_def)
  have d: "sessions d = sessions (w_db w)" "user_row d = user_row (w_db w)"
    by (simp_all add: d_def user_row_def fun_eq_iff)
  have "\<exists>ck w'. IssueSession ext h c (Some (usr_ID u)) (userAgentFrom c) (w\<lparr>w_db := d\<rparr>) = (Inr ck, w')"
    using assms d pg_text_HashToken [of ext "RawURL_EncodeToString b"]
    by (auto simp: IssueSession_def newSessionToken_def rand_Read_def Let_def run_calm CreateSession_def checked_def nullString_def)
  then show ?thesis using clear by (auto simp: finishLogin_def)
qed

lemma LocalLogin_calm:
  assumes "quiet_login ext c rawEmail w" "no_backoff (login_keys ext c rawEmail) w"
    and "stored_hash ext dh (normalizeEmail ext rawEmail) (w_db w) = (Some u, phc)"
    and "verifyHoldingPermit (ext_idk ext) password phc = Some True"
    and "w_rand w = Some b # rs" "sessions (w_db w) (HashToken ext (RawURL_EncodeToString b)) = None"
    and "userAgentFrom c = [] \<or> pg_text (userAgentFrom c)"
  shows "\<exists>ck w'. LocalLogin ext h dh c rawEmail password w = (LocalLogin204 ck, w')"
proof -
  obtain c' where c': "calm c' w" "userAgentFrom c' = userAgentFrom c"
    and l: "LocalLogin ext h dh c rawEmail password w = finishLogin ext h c' (login_keys ext c rawEmail) (Some u) w"
    using LocalLogin_quiet [OF assms(1,2), of h dh password] assms(3,4) by auto
  have "list_all pg_text (login_keys ext c rawEmail)" using assms(1) by (simp add: quiet_login_def)
  moreover have "user_row (w_db w) (usr_ID u) \<noteq> None"
    using assms(3) by (auto simp: stored_hash_def user_row_def find_None_iff find_Some_iff split: option.splits) (metis nth_mem)
  ultimately show ?thesis unfolding l using assms(5-7) c' by (intro finishLogin_calm) simp_all
qed

section \<open>The wait\<close>

text \<open>Once the seconds of a 429 have passed, none of the windows it was sent for is open.\<close>

lemma throttled_over:
  assumes "throttled c keys w = (Some (LocalLogin429 code n), w')" "w_dbclock w' + n * 1000000 \<le> t"
    and "k \<in> set keys"
  shows "active_backoff t (w_db w) k = None"
proof -
  obtain r1 w1 where q: "run c (GetLoginBackoff keys) w = (r1, w1)" by force
  then obtain us where us: "r1 = Inr us" "0 < us" "n = us * 1000 div 1000000000 + 1" "w' = w1"
    using assms(1) by (cases r1) (auto simp: throttled_def backoffRemaining_def login_internalError_def split: if_splits)
  let ?t = "w_dbclock w1"
  have rem: "us = remaining_backoff keys ?t (w_db w)"
    using run_Inr(1) [OF q [unfolded us(1)]] by (auto simp: GetLoginBackoff_eq split: if_splits)
  have "us < (us div 1000000 + 1) * 1000000" by (simp add: algebra_simps)
  then have bound: "us < n * 1000000" using us(3) by (simp flip: zdiv_zmult2_eq)
  show ?thesis
  proof (cases rule: remaining_backoff_cases [of keys ?t "w_db w"])
    case none
    then show ?thesis using us(2) rem by simp
  next
    case (some j u)
    show ?thesis
    proof (cases "active_backoff t (w_db w) k")
      case (Some v)
      have "?t \<le> t" using assms(2) us(4) bound us(2) by simp
      then have "active_backoff ?t (w_db w) k = Some v"
        using Some by (auto simp: active_backoff_def split: option.splits if_splits)
      then have "v \<le> u" using some(5) assms(3) by blast
      moreover have "t < v" using active_backoff_future [OF Some] .
      ultimately show ?thesis using some(3) rem bound assms(2) us(4) by simp
    qed
  qed
qed

text \<open>
  C19. A throttled client gets in: after a 429, once the seconds it named have passed on the
  database's clock, and as long as no other failure was counted for the same keys meanwhile,
  the right password is answered with a session, where no statement fails.
\<close>

theorem retry_after_suffices:
  assumes "LocalLogin ext h dh c rawEmail guess w = (LocalLogin429 code n, w1)" "w_queue w = []"
    and "\<forall>k \<in> set (login_keys ext c rawEmail). login_attempts (w_db w2) k = login_attempts (w_db w1) k"
    and "w_dbclock w1 + n * 1000000 \<le> w_dbclock w2" "clientIPFrom c2 = clientIPFrom c" "quiet_login ext c2 rawEmail w2"
    and "stored_hash ext dh (normalizeEmail ext rawEmail) (w_db w2) = (Some u, phc)"
    and "verifyHoldingPermit (ext_idk ext) password phc = Some True"
    and "w_rand w2 = Some b # rs" "sessions (w_db w2) (HashToken ext (RawURL_EncodeToString b)) = None"
    and "userAgentFrom c2 = [] \<or> pg_text (userAgentFrom c2)"
  shows "\<exists>ck w3. LocalLogin ext h dh c2 rawEmail password w2 = (LocalLogin204 ck, w3)"
proof -
  let ?keys = "login_keys ext c rawEmail"
  have keys: "login_keys ext c2 rawEmail = ?keys" by (simp add: login_keys_def backoffKeys_def assms(5))
  obtain c1 w0 where t: "throttled c1 ?keys w0 = (Some (LocalLogin429 code n), w1)"
    using assms(1)
  proof (cases rule: LocalLogin_cases)
    case (refused w3 c3 w4)
    then show thesis using that by blast
  next
    case (right w3 c3 w4)
    from right(1) show thesis by (cases rule: finishLogin_cases) (simp_all add: login_internalError_def)
  qed (simp_all add: login_internalError_def invalidCredentials_def)
  have "active_backoff (w_dbclock w2) (w_db w2) k = None" if k: "k \<in> set ?keys" for k
  proof -
    have "active_backoff (w_dbclock w2) (w_db w0) k = None" by (rule throttled_over [OF t assms(4) k])
    moreover have "login_attempts (w_db w2) k = login_attempts (w_db w0) k"
      using assms(3) k throttled_frame(1) [OF t] by simp
    ultimately show ?thesis by (simp add: active_backoff_def)
  qed
  then have "no_backoff (login_keys ext c2 rawEmail) w2" by (simp add: no_backoff_def keys)
  then show ?thesis using assms(6-11) by (intro LocalLogin_calm)
qed

text \<open>A struck account: refused for three seconds, then in.\<close>

theorem retry_after_suffices_witness:
  "\<exists>ck w3. LocalLogin toy_ext month_handlers toy_dummy Background toy_email ''right''
     (member_world\<lparr>w_db := struck member_db, w_dbclock := 3001000\<rparr>) = (LocalLogin204 ck, w3)"
proof (rule retry_after_suffices [OF struck_login, where u = one_user and b = fresh_token_bytes and rs = "[]"])
  let ?w = "member_world\<lparr>w_db := struck member_db, w_dbclock := 3001000\<rparr>"
  show "quiet_login toy_ext Background toy_email ?w"
    by (simp add: toy_quiet)
  show "stored_hash toy_ext toy_dummy (normalizeEmail toy_ext toy_email) (w_db ?w) =
      (Some one_user, buildPHC 19456 2 1 toy_salt (toy_idk ''right'' toy_salt 2 19456 1 32))"
  proof -
    have "stored_hash ext dh e (struck d) = stored_hash ext dh e d" for ext dh e d
      by (simp add: stored_hash_def struck_def split: option.split)
    then show ?thesis by (simp add: toy_email_normal stored_member)
  qed
  show "verifyHoldingPermit (ext_idk toy_ext) ''right'' (buildPHC 19456 2 1 toy_salt (toy_idk ''right'' toy_salt 2 19456 1 32)) = Some True"
    by (simp add: toy_verify [unfolded One_nat_def])
qed (simp_all add: struck_def member_world_def quiet_world_def)

end
