(* ===== verification/Testutil.thy ===== *)
theory Testutil
  imports Traffic Process Conf_Db
begin

text \<open>
  The test support (\<open>backend/internal/testutil\<close>): the shared container and the clean database of
  \<open>db.go\<close>, the fixtures of \<open>fixtures.go\<close>. What the container, the driver and \<open>uuid.NewV7\<close> answer
  are arguments; the rows an insert makes have the defaults and obey the constraints of
  \<open>db/migrations/V0001__baseline.sql\<close>.
\<close>

section \<open>The shared database\<close>

datatype start_error =
  StartContainer | ConnectionString | StartMigrate migrate_error | StartConnect connect_error

definition startShared :: "bool \<Rightarrow> bool \<Rightarrow> outside \<Rightarrow> start_error option" where
  "startShared started dsn out =
     (if \<not> started then Some StartContainer
      else if \<not> dsn then Some ConnectionString
      else case fst (Migrate out) of
        Some e \<Rightarrow> Some (StartMigrate e)
      | None \<Rightarrow> map_option StartConnect (fst (Connect out)))"

text \<open>\<open>sync.Once\<close> with what its function left: \<open>None\<close> before the first call.\<close>

type_synonym shared = "start_error option option"

definition once_Do :: "start_error option \<Rightarrow> shared \<Rightarrow> shared" where
  "once_Do result once = (case once of None \<Rightarrow> Some result | Some _ \<Rightarrow> once)"

text \<open>How a call of the helper ends the test, if it does.\<close>

datatype 'a test_result = Fatal string | Skip string | Goes_on 'a

text \<open>
  The tables of the schema \<open>public\<close>; \<open>listing\<close> says how far reading their names gets, \<open>truncated\<close>
  whether the statement succeeds. The names are joined as they are.
\<close>

datatype listing = ListFails | ScanFails | IterateFails | Listed

definition truncate_stmt :: "string list \<Rightarrow> string" where
  "truncate_stmt tables = ''TRUNCATE '' @ Join tables '', '' @ '' RESTART IDENTITY CASCADE''"

definition app_tables :: "'r tables_of \<Rightarrow> string list" where
  "app_tables s = filter (\<lambda>t. t \<noteq> ''goose_db_version'') (map fst s)"

definition truncateAll :: "listing \<Rightarrow> (string \<Rightarrow> bool) \<Rightarrow> 'r tables_of \<Rightarrow> 'r tables_of test_result" where
  "truncateAll names truncated s =
     (case names of
        ListFails \<Rightarrow> Fatal ''testutil: list tables''
      | ScanFails \<Rightarrow> Fatal ''testutil: scan table name''
      | IterateFails \<Rightarrow> Fatal ''testutil: iterate tables''
      | Listed \<Rightarrow>
          if app_tables s = [] then Fatal ''testutil: no application tables found; did migrations run?''
          else if \<not> truncated (truncate_stmt (app_tables s)) then Fatal ''testutil: truncate''
          else Goes_on (truncate_tables (app_tables s) s))"

definition NewTestDB ::
  "bool \<Rightarrow> start_error option \<Rightarrow> listing \<Rightarrow> (string \<Rightarrow> bool) \<Rightarrow> shared \<Rightarrow> 'r tables_of \<Rightarrow> 'r tables_of test_result \<times> shared" where
  "NewTestDB require start names truncated once s =
     (let once' = once_Do start once in
      case once' of
        Some (Some e) \<Rightarrow>
          (if require then Fatal ''testutil: no test database, and AFLOAT_REQUIRE_TEST_DB=1''
           else Skip ''testutil: no test database'', once')
      | _ \<Rightarrow> (truncateAll names truncated s, once'))"

text \<open>
  A test opens on a clean schema or does not run: with a database every application table is
  empty and goose's ledger as it was, without one the test is skipped, or fails where one is
  required, and the container is started at most once whatever later calls would find.
\<close>

lemma truncate_tables_rows:
  "map_of (truncate_tables ts s) t = (if t \<in> set ts then map_option (\<lambda>_. []) (map_of s t) else map_of s t)"
  by (induction s) (auto simp: truncate_tables_def)

lemma new_test_db_clean:
  assumes "NewTestDB require start names truncated once s = (Goes_on s', once')"
  shows "(\<forall>t rows. t \<noteq> ''goose_db_version'' \<longrightarrow> map_of s' t = Some rows \<longrightarrow> rows = []) \<and>
    map_of s' ''goose_db_version'' = map_of s ''goose_db_version'' \<and> once' = Some None"
proof -
  have n: "once' = Some None" "truncateAll names truncated s = Goes_on s'"
    using assms by (cases once; auto simp: NewTestDB_def once_Do_def Let_def split: option.splits if_splits)+
  then have s': "s' = truncate_tables (app_tables s) s" by (auto simp: truncateAll_def split: listing.splits if_splits)
  have app: "t \<in> set (app_tables s)" if "t \<noteq> ''goose_db_version''" "map_of s t \<noteq> None" for t
    using that by (force simp: app_tables_def dest: map_of_SomeD)
  show ?thesis
    using app n(1) unfolding s' truncate_tables_rows by (auto simp: app_tables_def split: if_splits)
qed

lemma new_test_db_once:
  "snd (NewTestDB require start names truncated (Some r) s) = Some r"
  "once = Some (Some e) \<Longrightarrow> \<exists>msg. fst (NewTestDB require start names truncated once s) = (if require then Fatal msg else Skip msg)"
  by (auto simp: NewTestDB_def once_Do_def Let_def split: option.splits)

section \<open>Fixtures\<close>

datatype fixture_error = NewUUIDFailed | BlankName | BadText | Duplicate | NoHousehold

definition btrim :: "string \<Rightarrow> string" where
  "btrim s = trim_both (\<lambda>c. c = CHR '' '') s"

definition NewUUID :: "uuid option \<Rightarrow> fixture_error + uuid" where
  "NewUUID fresh = (case fresh of None \<Rightarrow> Inl NewUUIDFailed | Some i \<Rightarrow> Inr i)"

definition new_household :: "uuid \<Rightarrow> string \<Rightarrow> timestamptz \<Rightarrow> Household" where
  "new_household i name now =
     \<lparr>hh_ID = i, hh_DisplayName = name, hh_ReportingCurrency = ''IDR'', hh_PeriodStartDay = 1,
      hh_DayStartsAt = Some (4 * 3600 * 1000000), hh_ExpectedMonthlyIncome = None, hh_AllowanceMode = ''adaptive'',
      hh_CreatedAt = now, hh_UpdatedAt = now, hh_DeletedAt = None\<rparr>"

definition CreateHousehold :: "uuid option \<Rightarrow> string \<Rightarrow> timestamptz \<Rightarrow> database \<Rightarrow> fixture_error + uuid \<times> database" where
  "CreateHousehold fresh displayName now d = res_bind (NewUUID fresh) (\<lambda>i.
     if \<not> pg_text displayName then Inl BadText
     else if btrim displayName = [] then Inl BlankName
     else if households d i \<noteq> None then Inl Duplicate
     else Inr (i, d\<lparr>households := (households d)(i := Some (new_household i displayName now))\<rparr>))"

definition new_user :: "uuid \<Rightarrow> uuid \<Rightarrow> string \<Rightarrow> string \<Rightarrow> timestamptz \<Rightarrow> User" where
  "new_user i householdID email name now =
     \<lparr>usr_ID = i, usr_HouseholdID = householdID, usr_Email = email, usr_DisplayName = name, usr_Locale = ''en-GB'',
      usr_TimeZone = ''Asia/Jakarta'', usr_CreatedAt = now, usr_UpdatedAt = now, usr_DeletedAt = None\<rparr>"

definition CreateUser ::
  "(string \<Rightarrow> string) \<Rightarrow> uuid option \<Rightarrow> uuid \<Rightarrow> string \<Rightarrow> string \<Rightarrow> timestamptz \<Rightarrow> database \<Rightarrow> fixture_error + uuid \<times> database" where
  "CreateUser lower fresh householdID email displayName now d = res_bind (NewUUID fresh) (\<lambda>i.
     if \<not> pg_text email \<or> \<not> pg_text displayName then Inl BadText
     else if btrim displayName = [] then Inl BlankName
     else if user_row d i \<noteq> None \<or> list_ex (\<lambda>u. lower (usr_Email u) = lower email \<and> usr_DeletedAt u = None) (users d)
       then Inl Duplicate
     else if households d householdID = None then Inl NoHousehold
     else Inr (i, d\<lparr>users := users d @ [new_user i householdID email displayName now]\<rparr>))"

text \<open>
  What the unique indexes add to the schema: one row per id, and one undeleted User per address.
\<close>

definition users_unique :: "(string \<Rightarrow> string) \<Rightarrow> database \<Rightarrow> bool" where
  "users_unique lower d \<longleftrightarrow> distinct (map usr_ID (users d)) \<and>
     distinct (map (\<lambda>u. lower (usr_Email u)) (filter (\<lambda>u. usr_DeletedAt u = None) (users d)))"

text \<open>The databases tests run on: built from nothing by fixtures and statements.\<close>

inductive fixture_db :: "(string \<Rightarrow> string) \<Rightarrow> database \<Rightarrow> bool" for lower where
  fx_empty: "fixture_db lower empty_db"
| fx_household: "fixture_db lower d \<Longrightarrow> CreateHousehold fresh name now d = Inr (i, d') \<Longrightarrow> fixture_db lower d'"
| fx_user: "fixture_db lower d \<Longrightarrow> CreateUser lower fresh hid email name now d = Inr (i, d') \<Longrightarrow> fixture_db lower d'"
| fx_call: "fixture_db lower d \<Longrightarrow> exec lower q now d = Inr d' \<Longrightarrow> fixture_db lower d'"

lemma CreateHousehold_Inr:
  assumes "CreateHousehold fresh name now d = Inr (i, d')"
  shows "fresh = Some i" "households d i = None"
    "d' = d\<lparr>households := (households d)(i := Some (new_household i name now))\<rparr>"
  using assms by (auto simp: CreateHousehold_def NewUUID_def res_bind_eq_Inr split: option.splits if_splits)

lemma CreateUser_Inr:
  assumes "CreateUser lower fresh hid email name now d = Inr (i, d')"
  shows "fresh = Some i" "user_row d i = None" "households d hid \<noteq> None" "pg_text email"
    "\<forall>u \<in> set (users d). \<not> (lower (usr_Email u) = lower email \<and> usr_DeletedAt u = None)"
    "d' = d\<lparr>users := users d @ [new_user i hid email name now]\<rparr>"
  using assms by (auto simp: CreateUser_def NewUUID_def res_bind_eq_Inr list_ex_iff split: option.splits if_splits)

lemma user_row_None: "user_row d i = None \<longleftrightarrow> i \<notin> usr_ID ` set (users d)"
  by (auto simp: user_row_def find_None_iff)

lemma schema_ok_household:
  assumes "schema_ok d" "households d i = None"
  shows "schema_ok (d\<lparr>households := (households d)(i := Some hh)\<rparr>)"
  using assms by (auto simp: schema_ok_def sessions_ok_def credentials_ok_def attempts_ok_def user_row_def)

lemma schema_ok_user:
  assumes "schema_ok d" "households d (usr_HouseholdID u) \<noteq> None"
  shows "schema_ok (d\<lparr>users := users d @ [u]\<rparr>)"
  using assms by (auto simp: schema_ok_def sessions_ok_def credentials_ok_def attempts_ok_def user_row_None)

lemma fixture_db_sound: "fixture_db lower d \<Longrightarrow> schema_ok d \<and> users_unique lower d"
proof (induction rule: fixture_db.induct)
  case fx_empty
  show ?case
    by (simp add: empty_db_def schema_ok_def sessions_ok_def credentials_ok_def attempts_ok_def users_unique_def)
next
  case (fx_household d fresh name now i d')
  note c = CreateHousehold_Inr [OF fx_household.hyps(2)]
  show ?case unfolding c(3) using fx_household.IH schema_ok_household [OF _ c(2)] by (simp add: users_unique_def)
next
  case (fx_user d fresh hid email name now i d')
  note c = CreateUser_Inr [OF fx_user.hyps(2)]
  have "i \<notin> usr_ID ` set (users d)" using c(2) by (simp add: user_row_None)
  then have "users_unique lower d'"
    using fx_user.IH c(5) by (auto simp: users_unique_def c(6) new_user_def)
  moreover have "schema_ok d'" unfolding c(6) by (rule schema_ok_user) (use fx_user.IH c(3) in \<open>simp_all add: new_user_def\<close>)
  ultimately show ?case by simp
next
  case (fx_call d q now d')
  then show ?case using exec_schema_ok exec_frame by (auto simp: users_unique_def)
qed

text \<open>
  A fixture is what the queries see: on any database built by fixtures and statements, a
  created User is found by its address in any case the database folds alike, by its id, and in
  the Household it was created in, and nobody else is found by another address than before.
\<close>

theorem fixtures_visible:
  assumes "fixture_db lower d" "CreateUser lower fresh hid email name now d = Inr (i, d')"
  shows "(\<forall>e t. pg_text e \<longrightarrow> lower e = lower email \<longrightarrow>
      GetUserByEmail lower e t d' = Inr (new_user i hid email name now, d')) \<and>
    (\<forall>e t u. pg_text e \<longrightarrow> lower e \<noteq> lower email \<longrightarrow>
      (GetUserByEmail lower e t d' = Inr (u, d') \<longleftrightarrow> GetUserByEmail lower e t d = Inr (u, d))) \<and>
    find_user d' i = Some (new_user i hid email name now) \<and> households d' hid \<noteq> None \<and>
    schema_ok d' \<and> users_unique lower d'"
proof -
  note c = CreateUser_Inr [OF assms(2)]
  let ?u = "new_user i hid email name now"
  have u: "users d' = users d @ [?u]" "households d' = households d" by (simp_all add: c(6))
  have "fixture_db lower d'" using assms by (rule fx_user)
  then have ok: "schema_ok d' \<and> users_unique lower d'" by (rule fixture_db_sound)
  have find_append: "List.find P (xs @ [x]) = (case List.find P xs of None \<Rightarrow> if P x then Some x else None | Some y \<Rightarrow> Some y)"
    for P :: "User \<Rightarrow> bool" and xs x by (induction xs) auto
  have "find_user d' i = Some ?u"
    using c(2) ok unfolding find_user_def u(1) find_append
    by (auto simp: user_row_None new_user_def find_Some_iff split: option.splits)
  moreover have "GetUserByEmail lower e t d' = Inr (?u, d')" if "pg_text e" "lower e = lower email" for e t
  proof -
    have "List.find (\<lambda>u. lower (usr_Email u) = lower e \<and> usr_DeletedAt u = None) (users d) = None"
      using c(5) that(2) by (auto simp: find_None_iff)
    then show ?thesis using that by (simp add: GetUserByEmail_def checked_def one_row_def u(1) find_append new_user_def)
  qed
  moreover have "GetUserByEmail lower e t d' = Inr (x, d') \<longleftrightarrow> GetUserByEmail lower e t d = Inr (x, d)"
    if "pg_text e" "lower e \<noteq> lower email" for e t x
    using that by (auto simp: GetUserByEmail_def checked_def one_row_def u(1) find_append new_user_def split: option.splits)
  ultimately show ?thesis using ok c(3) u(2) by simp
qed

theorem fixtures_visible_witness:
  "\<exists>d1 d2. CreateHousehold (Some ''h1'') ''Home'' 5 empty_db = Inr (''h1'', d1) \<and>
     CreateUser (map lower_byte) (Some ''u1'') ''h1'' ''a@b.c'' ''A'' 6 d1 = Inr (''u1'', d2) \<and>
     GetUserByEmail (map lower_byte) ''A@b.c'' 7 d2 = Inr (new_user ''u1'' ''h1'' ''a@b.c'' ''A'' 6, d2)"
proof -
  have txts: "pg_text ''Home''" "pg_text ''A''" "pg_text ''a@b.c''" "pg_text ''A@b.c''"
    by (simp_all add: pg_text_def ValidString_ascii is_ascii_def)
  have names: "btrim ''Home'' \<noteq> []" "btrim ''A'' \<noteq> []" by (simp_all add: btrim_def trim_both_def)
  obtain d1 where h: "CreateHousehold (Some ''h1'') ''Home'' 5 empty_db = Inr (''h1'', d1)"
    using txts names by (simp add: CreateHousehold_def NewUUID_def empty_db_def)
  note d1 = CreateHousehold_Inr(3) [OF h]
  obtain d2 where u: "CreateUser (map lower_byte) (Some ''u1'') ''h1'' ''a@b.c'' ''A'' 6 d1 = Inr (''u1'', d2)"
    using txts names by (simp add: CreateUser_def NewUUID_def d1 user_row_def empty_db_def)
  have "map lower_byte ''A@b.c'' = map lower_byte ''a@b.c''" by code_simp
  with fixtures_visible [OF fx_household [OF fx_empty h] u] txts(4)
  have "GetUserByEmail (map lower_byte) ''A@b.c'' 7 d2 = Inr (new_user ''u1'' ''h1'' ''a@b.c'' ''A'' 6, d2)" by blast
  with h u show ?thesis by blast
qed

end
