(* ===== verification/Embedded_Spec.thy ===== *)
theory Embedded_Spec
  imports Api
begin

text \<open>
  The contract embedded in the generated code (\<open>backend/internal/api/api.gen.go\<close>): the lines of
  the blob, how they are decoded once at start-up, and \<open>GetSpec\<close>. Decompression
  (\<open>compress/flate\<close>), the loader of kin-openapi and \<open>path.Clean\<close> are parameters.
\<close>

section \<open>Padded base64\<close>

text \<open>\<open>base64.StdEncoding\<close>: line ends are skipped, the padding must be there.\<close>

definition Std_EncodeToString :: "string \<Rightarrow> string" where
  "Std_EncodeToString s =
     (let r = RawStd_EncodeToString s in r @ replicate ((4 - length r mod 4) mod 4) (CHR ''=''))"

definition Std_DecodeString :: "string \<Rightarrow> string option" where
  "Std_DecodeString s =
     (let t = filter (\<lambda>c. c \<noteq> CHR 0x0A \<and> c \<noteq> CHR 0x0D) s;
          body = takeWhile (\<lambda>c. c \<noteq> CHR ''='') t;
          pad = dropWhile (\<lambda>c. c \<noteq> CHR ''='') t
      in if length t mod 4 = 0 \<and> length pad \<le> 2 \<and> list_all (\<lambda>c. c = CHR ''='') pad
         then RawStd_DecodeString body else None)"

lemma RawStd_chars:
  "c \<in> set (RawStd_EncodeToString s) \<Longrightarrow> c \<noteq> CHR ''='' \<and> c \<noteq> CHR 0x0A \<and> c \<noteq> CHR 0x0D"
  using b64_encode_alphabet [OF b64_extra_std, of s]
  by (auto simp: RawStd_EncodeToString_def list_all_iff b64_val_def byte_in_def)

lemma sextets_length_mod: "length (sextets s) mod 4 \<noteq> 1"
proof (induction s rule: sextets.induct)
  case (4 a b c s)
  have "length (sextets (a # b # c # s)) = length (sextets s) + 4" by simp
  with 4 show ?case by (simp only: mod_add_self2 not_False_eq_True)
qed simp_all

lemma pad_mod: "m mod 4 \<noteq> (1 :: nat) \<Longrightarrow> (m + (4 - m mod 4) mod 4) mod 4 = 0 \<and> (4 - m mod 4) mod 4 \<le> 2"
proof -
  assume a: "m mod 4 \<noteq> 1"
  define r where "r = m mod 4"
  have m: "(m + k) mod 4 = (r + k) mod 4" for k by (simp add: r_def mod_simps)
  have "r < 4" by (simp add: r_def)
  then consider "r = 0" | "r = 2" | "r = 3" using a by (fold r_def) linarith
  then show ?thesis unfolding m by cases (simp_all flip: r_def)
qed

lemma Std_decode_encode: "Std_DecodeString (Std_EncodeToString s) = Some s"
proof -
  define r p where "r = RawStd_EncodeToString s" and "p = replicate ((4 - length r mod 4) mod 4) (CHR ''='')"
  have r: "\<forall>c \<in> set r. c \<noteq> CHR ''='' \<and> c \<noteq> CHR 0x0A \<and> c \<noteq> CHR 0x0D" using RawStd_chars by (simp add: r_def)
  have "length r mod 4 \<noteq> 1" using sextets_length_mod by (simp add: r_def RawStd_EncodeToString_def b64_encode_def)
  then have l: "length (r @ p) mod 4 = 0" "length p \<le> 2" using pad_mod [of "length r"] by (simp_all add: p_def)
  have "filter (\<lambda>c. c \<noteq> CHR 0x0A \<and> c \<noteq> CHR 0x0D) (r @ p) = r @ p"
    using r by (auto simp: p_def intro!: filter_True)
  moreover have "takeWhile (\<lambda>c. c \<noteq> CHR ''='') (r @ p) = r" "dropWhile (\<lambda>c. c \<noteq> CHR ''='') (r @ p) = p"
    using r by (cases "(4 - length r mod 4) mod 4"; simp add: p_def takeWhile_append2 dropWhile_append2)+
  moreover have "list_all (\<lambda>c. c = CHR ''='') p" by (simp add: p_def list_all_iff)
  moreover have "Std_EncodeToString s = r @ p" by (simp add: Std_EncodeToString_def Let_def r_def p_def)
  ultimately show ?thesis using l b64_std.dec_enc [of s] by (simp add: Std_DecodeString_def r_def)
qed

interpretation b64_padded: codec Std_EncodeToString Std_DecodeString "\<lambda>_. True"
  by unfold_locales (simp add: Std_decode_encode)

section \<open>The blob\<close>

datatype spec_error = Base64Decoding | ReadFlate | CloseFlate | PathNotFound string | LoadFailed

definition decodeSpec :: "(string \<Rightarrow> string option) \<Rightarrow> (string \<Rightarrow> bool) \<Rightarrow> string list \<Rightarrow> spec_error + string" where
  "decodeSpec inflate closes swaggerSpec =
     (case Std_DecodeString (concat swaggerSpec) of
        None \<Rightarrow> Inl Base64Decoding
      | Some compressed \<Rightarrow>
        (case inflate compressed of
           None \<Rightarrow> Inl ReadFlate
         | Some buf \<Rightarrow> if closes compressed then Inr buf else Inl CloseFlate))"

text \<open>\<open>rawSpec\<close>: what was decoded once, answered to every call.\<close>

definition decodeSpecCached :: "(string \<Rightarrow> string option) \<Rightarrow> (string \<Rightarrow> bool) \<Rightarrow> string list \<Rightarrow> unit \<Rightarrow> spec_error + string" where
  "decodeSpecCached inflate closes swaggerSpec = (let r = decodeSpec inflate closes swaggerSpec in (\<lambda>_. r))"

definition PathToRawSpec :: "(unit \<Rightarrow> spec_error + string) \<Rightarrow> string \<Rightarrow> (string \<times> (unit \<Rightarrow> spec_error + string)) list" where
  "PathToRawSpec rawSpec pathToFile = (if pathToFile \<noteq> [] then [(pathToFile, rawSpec)] else [])"

definition ReadFromURI :: "(string \<Rightarrow> string) \<Rightarrow> (unit \<Rightarrow> spec_error + string) \<Rightarrow> string \<Rightarrow> spec_error + string" where
  "ReadFromURI Clean rawSpec url =
     (let pathToFile = Clean url in
      case map_of (PathToRawSpec rawSpec []) pathToFile of
        None \<Rightarrow> Inl (PathNotFound pathToFile)
      | Some getSpec \<Rightarrow> getSpec ())"

definition GetSpec ::
  "((string \<Rightarrow> spec_error + string) \<Rightarrow> string \<Rightarrow> 'spec option) \<Rightarrow> (string \<Rightarrow> string) \<Rightarrow> (unit \<Rightarrow> spec_error + string) \<Rightarrow>
   spec_error + 'spec" where
  "GetSpec LoadFromData Clean rawSpec =
     (case rawSpec () of
        Inl e \<Rightarrow> Inl e
      | Inr specData \<Rightarrow>
        (case LoadFromData (ReadFromURI Clean rawSpec) specData of None \<Rightarrow> Inl LoadFailed | Some spec \<Rightarrow> Inr spec))"

definition GetSpecJSON :: "(unit \<Rightarrow> spec_error + string) \<Rightarrow> spec_error + string" where
  "GetSpecJSON rawSpec = rawSpec ()"

definition GetSwagger ::
  "((string \<Rightarrow> spec_error + string) \<Rightarrow> string \<Rightarrow> 'spec option) \<Rightarrow> (string \<Rightarrow> string) \<Rightarrow> (unit \<Rightarrow> spec_error + string) \<Rightarrow>
   spec_error + 'spec" where
  "GetSwagger LoadFromData Clean rawSpec = GetSpec LoadFromData Clean rawSpec"

text \<open>
  However the generator broke the blob into lines, the contract that was compressed is the one
  the server validates against; and the loader is never given another file, so a contract with
  a reference outside itself does not load.
\<close>

lemma embedded_spec_roundtrip:
  assumes "concat swaggerSpec = Std_EncodeToString (deflate spec)"
    and "inflate (deflate spec) = Some spec" "closes (deflate spec)"
  shows "GetSpecJSON (decodeSpecCached inflate closes swaggerSpec) = Inr spec \<and>
    GetSpec load Clean (decodeSpecCached inflate closes swaggerSpec) =
      (case load (\<lambda>url. Inl (PathNotFound (Clean url))) spec of None \<Rightarrow> Inl LoadFailed | Some s \<Rightarrow> Inr s)"
proof -
  have "ReadFromURI Clean raw = (\<lambda>url. Inl (PathNotFound (Clean url)))" for raw
    by (simp add: ReadFromURI_def PathToRawSpec_def fun_eq_iff)
  then show ?thesis
    using assms by (simp add: GetSpecJSON_def GetSpec_def decodeSpecCached_def decodeSpec_def Std_decode_encode)
qed

end
