(* ===== verification/Spec2Isabelle.thy ===== *)
theory Spec2Isabelle
  imports Conf_Case Conf_Permitted Conf_Cookie Conf_Session Conf_Db Conf_Answer Conf_Run
    Afloat_Prelude Trajectory Go_Strings Go_Codec Go_Json Json_Grammar Password Argon_Permits Db Request Httperr Session Login
    Me Config Process HttpServer OpenApiValidate Api Wire Querier Traffic Requests Retry Testutil Embedded_Spec
begin

text \<open>
  Afloat is a household budgeting server. This library models its Go backend
  (\<open>src/backend\<close>), the canonical one of the repository's two, and the harness that holds the two
  to one behaviour (\<open>src/contract/conformance\<close>), and proves what makes their parts correct.

  \<^bold>\<open>The program.\<close> A request enters the middleware stack of \<open>httpserver.New\<close>: request id, fixed
  headers, path decoding, panic recovery, logging, the OPTIONS and disabled-login gates, the
  body limit, the timeout, the cross-site guard, the request context, the session. It then
  reaches an operation: login, logout, me, health or the authentication methods. The operations
  work on PostgreSQL through the statements of \<open>internal/db\<close>. A login is throttled by a
  per-key backoff, waits for one of four Argon2 permits, reads the backoff again, checks the
  password and issues a session cookie; the session middleware turns that cookie back into a
  User. Beside the server, \<open>internal/trajectory\<close> computes the daily spending figures. The harness
  sends the cases of its files to both backends and compares answers, cookies and databases.

  \<^bold>\<open>The theories\<close>, in order of use, with the files under \<open>src/backend/internal\<close> they model:

  \<^item> \<open>Afloat_Prelude\<close>: results as sums, 64-bit wrap-around, the interfaces \<open>invariant_system\<close>,
    \<open>terminating_system\<close> and \<open>codec\<close>.
  \<^item> \<open>Trajectory\<close> (\<open>trajectory/trajectory.go\<close>, \<open>target_line.go\<close>): the roundings, \<open>Calculate\<close>,
    \<open>decideState\<close>, the target line. Rationals are exact as in the code; the decimal library is
    the parameter \<open>decimal_ops\<close> with the laws \<open>decimal_laws\<close>. The locales \<open>rounding\<close> and
    \<open>rounding_down\<close> are the contract of the two roundings. Shown: the figures are those of
    \<open>docs/CONTEXT.md\<close>, each rounded once; exactly four errors and no division by zero;
    spending the adaptive allowance never overspends the pool; more spend never gives a better
    State; the variance is the projected margin, rounded to the nearest and with its sign; the
    target line never falls.
  \<^item> \<open>Go_Strings\<close>, \<open>Go_Codec\<close>: what the program uses of Go's \<open>strings\<close>, \<open>unicode/utf8\<close>,
    \<open>strconv\<close>, \<open>encoding/hex\<close> and \<open>encoding/base64\<close>. Strings are byte strings.
  \<^item> \<open>Go_Json\<close>: \<open>encoding/json\<close> as the server uses it, an encoder and the byte-by-byte scanner of
    its decoder. Shown: what is encoded is valid UTF-8 and is decoded as it was.
  \<^item> \<open>Json_Grammar\<close>: the grammar of JSON texts as an inductive specification, and that the decoder
    accepts exactly its documents.
  \<^item> \<open>Password\<close> (\<open>auth/password.go\<close>, \<open>common_passwords.go\<close>): the policy, the denylist with the
    embedded file, PHC strings, hashing and verifying. Argon2id is a parameter. Shown: the
    round trip, the ceilings on an accepted cost, and that verifying never panics.
  \<^item> \<open>Argon_Permits\<close> (the semaphore of \<open>auth/password.go\<close>): a transition system over any number
    of callers; at most four hold a permit and none leaks; and once nobody arrives, every run
    ends with everyone served and all permits back.
  \<^item> \<open>Db\<close> (\<open>db/auth.sql.go\<close>, \<open>health.sql.go\<close>, \<open>models.go\<close>): tables as maps, every statement a
    function of the database time and the tables, with the errors that can refuse it. Shown:
    the backoff curve for every number of failures.
  \<^item> \<open>Request\<close> (\<open>auth/request.go\<close>, \<open>context.go\<close>), \<open>Httperr\<close> (\<open>httperr\<close>): the context, the
    client address, the stored User-Agent, the error envelope.
  \<^item> \<open>Session\<close> (\<open>auth/session.go\<close>, \<open>handlers.go\<close>): the world (tables, clocks, a script of lost
    connections and delays, random bytes, the log), issuing, cookies, the middleware. The
    locale \<open>session_store\<close> is what every statement keeps of a session; it gives the absolute
    lifetime and the finality of revocation over any sequence of statements. Shown too: the
    middleware signs in, and signs out, only by what held at an instant of its own lookups.
  \<^item> \<open>Login\<close> (\<open>auth/login.go\<close>): the whole handler under any script, with other requests changing
    the tables while it is queued. Shown: failures look alike, success is sound, only wrong
    passwords count, the second read throttles after any wait and with a budget of its own,
    Retry-After is the least number of seconds that reaches past the longest window.
  \<^item> \<open>Retry\<close>: whoever waits the Retry-After of a 429 gets in with the right password.
  \<^item> \<open>Me\<close> (\<open>auth/me.go\<close>, \<open>response.go\<close>): own Household only, logout, the day start.
  \<^item> \<open>Querier\<close> (\<open>db/querier.go\<close>): the query interface as data, sequences of its calls, and every
    handler as such a sequence whatever fails in it. The locale \<open>kept_relation\<close> is what a kind of
    call keeps; its sequences keep it too.
  \<^item> \<open>Traffic\<close>: the life of a server as an inductive relation over the shared tables: logins with
    whatever others do while they queue, and any other statement between them. Shown, through
    \<open>kept_relation\<close>: the schema's keys and references stay true, and nobody is signed in whose
    password was not presented.
  \<^item> \<open>Config\<close> (\<open>config/config.go\<close>, \<open>system/system.go\<close>, the wiring of \<open>cmd/afloat/main.go\<close>):
    what a configuration that loads guarantees.
  \<^item> \<open>Process\<close> (\<open>run\<close> and \<open>main\<close> of \<open>cmd/afloat/main.go\<close>, \<open>postgres/postgres.go\<close>): from what the
    outside answers to the effects in their order; what is opened is closed whatever fails, and
    the schema is migrated before listening exactly when automatic migration is on.
  \<^item> \<open>HttpServer\<close> (\<open>httpserver/middleware.go\<close>, \<open>csrf.go\<close>, \<open>basepath.go\<close>, \<open>errors.go\<close>,
    \<open>server.go\<close>): handlers as functions, middleware as functions on handlers. The locale
    \<open>header_keeper\<close> is the contract between the layers, interpreted for each; it gives that
    every answer, a recovered panic's included, carries the id and the fixed headers, when the
    handler inside leaves them alone, which \<open>Wire\<close> shows of the API.
  \<^item> \<open>OpenApiValidate\<close> (\<open>httpserver/openapi_validate.go\<close>): the email rule, the media type and
    the answer to an invalid request.
  \<^item> \<open>Api\<close> (\<open>api/api.gen.go\<close>, the rest of \<open>openapi_validate.go\<close>, the delegation in \<open>server.go\<close>): the
    generated types with their JSON, the response writers, the strict handlers, the route table,
    the body decoders and the validating middleware. Shown: the strict decoder takes exactly the
    documents of the grammar in valid UTF-8; the login body reaches the handler unchanged.
  \<^item> \<open>Embedded_Spec\<close> (the end of \<open>api/api.gen.go\<close>): the decoding and loading of the embedded
    contract, however its text is broken into lines.
  \<^item> \<open>Wire\<close>: the composed server. Shown: every request is answered, with the id and the fixed
    headers; every answer is one the contract declares; a login's answer has one cookie; failed
    logins are the same bytes.
  \<^item> \<open>Requests\<close>: sequences of whole HTTP requests. The locale \<open>confining_layer\<close> is the contract of a
    middleware with respect to the tables, interpreted for each. Shown: whatever a request is, it
    leads the database on by a few kinds of statements only; and no Household is shown without a
    password.
  \<^item> \<open>Conf_Case\<close>, \<open>Conf_Permitted\<close>, \<open>Conf_Cookie\<close>, \<open>Conf_Db\<close> (\<open>case.go\<close>, \<open>permitted.go\<close>,
    \<open>cookie.go\<close>, \<open>db.go\<close> of \<open>src/contract/conformance\<close>): the harness. Shown: a loaded case asserts
    something, no permission leaves a case blind, the list permits what it says, the report on
    cookies means agreement attribute by attribute, and the one on snapshots the same rows with
    timestamps within two seconds, up to the rounding of \<open>float64\<close>.
  \<^item> \<open>Conf_Answer\<close>, \<open>Conf_Run\<close> (\<open>conformance_test.go\<close>): how answers are judged, and the run: a backend
    driven through a case with its deferred restorations, both judged, every case. Shown: a run
    without a report means that both backends met every case, from the state the cases before it
    left, and agreed; a case gives its database back; the reference request
    is not observed; bodies that pass for equal form classes.
  \<^item> \<open>Testutil\<close> (\<open>testutil/db.go\<close>, \<open>fixtures.go\<close>): the clean database of a test and its fixtures.
    Shown: fixtures obey the schema and are what the queries see.
  \<^item> \<open>Conf_Session\<close>: the two together; the harness accepts the cookies the handlers send,
    the issued one under the expectation \<open>cases/login.yaml\<close> writes.
  \<^item> This theory: the properties that span login, session, me and logout.

  \<^bold>\<open>State and effects.\<close> Handlers pass the world explicitly. \<open>run\<close> is one statement on a
  context: it takes the next delay and fault of the script, fails when the context has ended
  or the connection is lost, before or after the statement took effect, and otherwise applies
  the statement at the database's time. \<open>calm\<close> says that no fault is scripted and the context
  is alive. Errors are values: sums for Go errors, a panic is a value of its own. Durations are
  integers in nanoseconds and are wrapped to 64 bits where the code's arithmetic can overflow.

  \<^bold>\<open>Bounds and fuel.\<close> No definition uses fuel: every loop is structural recursion or ends by
  its measure. The permits are the code's four and the failure counter the column's range.

  \<^bold>\<open>Parameters\<close>, each an argument of the definitions that use it: Argon2id, SHA-256, the
  database's \<open>lower\<close>, the Unicode case table beyond ASCII (the record \<open>externals\<close>); the decimal
  library; URL parsing; chi's Timeout, Mount and router, with the laws \<open>times_out\<close>, \<open>mounts\<close>,
  \<open>chi_serves\<close>, \<open>mount_answers\<close>, \<open>chi_answers\<close>, \<open>mount_confines\<close> and \<open>chi_confines\<close>; the verdict of the validating library on a request, its errors a datatype of the
  cases the code tells apart. Of the harness: the file system and the YAML decoder, \<open>regexp\<close> (with the law
  \<open>token_regexp\<close>), the rendering and parsing of an HTTP date (with the law \<open>http_time\<close>), \<open>sort.Slice\<close> (with the law
  \<open>sorts_by\<close>), the texts of the reports, the backends
  under test, net/http's client, and PostgreSQL's answers. Of the embedded contract: decompression, the
  loader and \<open>path.Clean\<close>; of the test support: the container, the driver and \<open>uuid.NewV7\<close>.

  \<^bold>\<open>Not modelled.\<close> The bytes of the embedded contract and the validating library; a write to the
  client that fails; \<open>db.New\<close>, \<open>WithTx\<close> and \<open>Beginner\<close>, which hand on a connection; the Invitation
  row, which no statement uses; the texts of the harness's reports; the Kotlin backend and the
  web frontend. Of a \<open>float64\<close>, infinities and subnormal numbers.

  \<^bold>\<open>Idealised.\<close> \<open>Duration.Seconds\<close> and the seconds of a backoff are exact numbers, not \<open>float64\<close>,
  and an interval is multiplied exactly; for backoffs the two agree below 2 to the 53rd microseconds,
  which no loadable configuration reaches, and a \<open>Max-Age\<close> can differ only for sessions of many
  weeks, by the rounding of single nanoseconds. The counters of the permits are unbounded. Other requests change
  the tables of a login only while it queues for its permit, or before and after it. In the run
  of the harness, whether the databases open is one input, and opening them changes nothing.

  \<^bold>\<open>Plan.\<close> The parts of the repository's Go code are modelled. What could follow is the server and
  the harness together: that a case of the repository's files is green on the modelled server.
\<close>

section \<open>From the login to the Household and out again\<close>

text \<open>
  C9. A login leads to the User's own Household: after a 204, a request with the cookie that
  was set, before it expires and inside the absolute lifetime, passes the session
  middleware as the User whose credential was checked, and \<open>GET /me\<close> answers 200 with that
  User's Household.
\<close>

theorem login_then_me:
  assumes "LocalLogin ext h dh c rawEmail password w = (LocalLogin204 ck, w1)" "w_queue w = []"
    and "distinct (map usr_ID (users (w_db w)))"
    and "request_cookie r SessionCookieName = Some (ck_Value ck)" "ck_Value ck \<noteq> []"
    and "calm c2 w2" "w_db w2 = w_db w1"
    and "w_dbclock w2 < to_pg (ck_Expires ck)"
    and "w_dbclock w2 < w_dbclock w1 + intervalFrom (sessionMaxLifetime h)"
    and "fst (stored_hash ext dh (normalizeEmail ext rawEmail) (w_db w)) = Some u"
    and "households (w_db w1) (usr_HouseholdID u) = Some hh" "hh_DeletedAt hh = None"
  shows "\<exists>hdrs' w3. SessionMiddleware ext h r c2 hdrs w2 = (WithUser c2 u, hdrs', w3) \<and>
    fst (GetMe fixed4 (WithUser c2 u) w3) = GetMe200 (meResponse fixed4 u hh)"
proof -
  obtain s where u: "u \<in> set (users (w_db w))" "usr_DeletedAt u = None" "users (w_db w1) = users (w_db w)"
    and s: "sessions (w_db w1) (HashToken ext (ck_Value ck)) = Some s" "ses_UserID s = usr_ID u"
      "ses_CreatedAt s = w_dbclock w1" "ses_ExpiresAt s = to_pg (ck_Expires ck)"
    using login_row [OF assms(1,2)] assms(10) by (metis option.inject)
  have "find_user (w_db w2) (ses_UserID s) = Some u"
    using find_user_unique [of "w_db w2" u] u assms(3,7) s(2) by simp
  moreover have "live (intervalFrom (sessionMaxLifetime h)) (w_dbclock w2) s"
    using s assms(8,9) by (simp add: live_def)
  ultimately obtain hdrs' w3 where m: "SessionMiddleware ext h r c2 hdrs w2 = (WithUser c2 u, hdrs', w3)"
    "calm c2 w3" "households (w_db w3) = households (w_db w1)"
    using live_row_signs_in [OF assms(4-6), of ext s h u hdrs] s(1) assms(7) by auto
  have "UserFromContext (WithUser c2 u) = Some u" by (simp add: UserFromContext_def WithUser_def)
  then have "GetMe fixed4 (WithUser c2 u) w3 = (GetMe200 (meResponse fixed4 u hh), w3)"
    using m assms(11,12) by (intro GetMe_calm) simp_all
  then show ?thesis using m(1) by simp
qed

theorem login_then_me_witness:
  "\<exists>ck w1 hdrs w3. LocalLogin toy_ext month_handlers toy_dummy Background toy_email ''right'' member_world =
      (LocalLogin204 ck, w1) \<and>
    SessionMiddleware toy_ext month_handlers quiet_request Background [] w1 = (WithUser Background one_user, hdrs, w3) \<and>
    fst (GetMe (\<lambda>_. ''0.0000'') (WithUser Background one_user) w3) =
      GetMe200 (meResponse (\<lambda>_. ''0.0000'') one_user one_household)"
proof -
  obtain ck w1 where l: "LocalLogin toy_ext month_handlers toy_dummy Background toy_email ''right'' member_world =
      (LocalLogin204 ck, w1)" "ck_Value ck = toy_token" "ck_Expires ck = 2592000001000000"
      "w_dbclock w1 = 1000" "w_script w1 = []" "households (w_db w1) = [''h1'' \<mapsto> one_household]"
    using member_login by blast
  have "\<exists>hdrs w3. SessionMiddleware toy_ext month_handlers quiet_request Background [] w1 = (WithUser Background one_user, hdrs, w3) \<and>
    fst (GetMe (\<lambda>_. ''0.0000'') (WithUser Background one_user) w3) =
      GetMe200 (meResponse (\<lambda>_. ''0.0000'') one_user one_household)"
    by (rule login_then_me [OF l(1)])
      (use l toy_token_nonempty in \<open>simp_all add: quiet_request_def request_cookie_def calm_quiet to_pg_def
        toy_email_normal stored_member one_user_def one_household_def\<close>)
  with l(1) show ?thesis by blast
qed

text \<open>
  C10. Logging out is final for the client that held the cookie: after a 204, whatever
  statements run but the creation of that very session id, a request that presents the old
  cookie again is not signed in, is told to drop the cookie, and \<open>GET /me\<close> answers it 401.
\<close>

theorem logout_ends_session:
  assumes "Logout ext h (RequestContextMiddleware r c) w = (Logout204 ck, w1)"
    and "request_cookie r SessionCookieName = Some v" "v \<noteq> []"
    and "(statement (HashToken ext v))\<^sup>*\<^sup>* (w_db w1) (w_db w2)"
    and "request_cookie r2 SessionCookieName = Some v" "calm c2 w2" "UserFromContext c2 = None"
  shows "SessionMiddleware ext h r2 c2 hdrs w2 = (c2, hdrs @ [ClearedSessionCookie h], w2) \<and>
    GetMe fixed4 c2 w2 = (GetMe401 CodeUnauthorized, w2)"
proof -
  have "sessionTokenFrom (RequestContextMiddleware r c) = v"
    using assms(2) by (simp add: sessionTokenFrom_def RequestContextMiddleware_def Let_def)
  then obtain x where "run (RequestContextMiddleware r c) (DeleteSession (HashToken ext v)) w = (Inr x, w1)"
    using assms(1,3) by (auto simp: Logout_def logout_internalError_def split: prod.splits sum.splits)
  from run_Inr(1) [OF this] have "w_db w1 = w_db w\<lparr>sessions := (sessions (w_db w))(HashToken ext v := None)\<rparr>"
    by (auto simp: DeleteSession_def checked_def split: if_splits)
  then have "sessions (w_db w1) (HashToken ext v) = None" by simp
  then have "sessions (w_db w2) (HashToken ext v) = None" by (rule sessions_table.gone [OF assms(4)])
  then have "run c2 (GetLiveSession \<lparr>gls_ID = HashToken ext v,
      gls_MaxLifetime = intervalFrom (sessionMaxLifetime h)\<rparr>) w2 = (Inl ErrNoRows, w2)"
    using assms(6) by (simp add: run_calm GetLiveSession_def checked_def one_row_def pg_text_HashToken)
  then show ?thesis
    using assms(3,5,7) by (simp add: SessionMiddleware_def ClearSessionCookie_def GetMe_def)
qed

theorem logout_ends_session_witness:
  "\<exists>w1. Logout toy_ext month_handlers (RequestContextMiddleware quiet_request Background) member_world =
      (Logout204 (ClearedSessionCookie month_handlers), w1) \<and>
    GetMe (\<lambda>_. ''0.0000'') Background w1 = (GetMe401 CodeUnauthorized, w1)"
proof -
  have q: "request_cookie quiet_request SessionCookieName = Some toy_token"
    by (simp add: quiet_request_def request_cookie_def)
  have calm: "calm Background member_world" by (simp add: calm_quiet member_world_def quiet_world_def)
  have "sessionTokenFrom (RequestContextMiddleware quiet_request Background) = toy_token"
    by (simp add: sessionTokenFrom_def RequestContextMiddleware_def Let_def q)
  then obtain w1 where l: "Logout toy_ext month_handlers (RequestContextMiddleware quiet_request Background) member_world =
      (Logout204 (ClearedSessionCookie month_handlers), w1)" "calm Background w1"
    using calm toy_token_nonempty
    by (simp add: Logout_def run_calm DeleteSession_def checked_def pg_text_HashToken calm_quiet)
  have "UserFromContext Background = None" by (simp add: UserFromContext_def Background_def)
  from logout_ends_session [OF l(1) q toy_token_nonempty rtranclp.rtrancl_refl q l(2) this] l(1)
  show ?thesis by blast
qed

end
